(* ===== verification/FW_Prelude.thy ===== *)
theory FW_Prelude
  imports Main "HOL-Library.Multiset" "HOL-Library.Word" "HOL-Library.Product_Lexorder"
begin

text \<open>
  Shared vocabulary of the development.

  A \<open>time.Time\<close> is the number of nanoseconds since Go's zero time (the value
  \<open>time.Time{}\<close>, for which \<open>IsZero\<close> holds); \<open>Equal\<close>, \<open>Before\<close> and \<open>After\<close>
  are equality and order.  A \<open>time.Duration\<close> is a number of nanoseconds.  Where the code's
  arithmetic can leave the range of \<open>int64\<close>, the model applies \<open>wrap64\<close>.

  Goroutines interleave.  An operation that runs under one mutex is one function of the
  component's state.  A loop that gives the lock up and tries again takes the list of what the
  other goroutines did to the state in the meantime; a loop that has used the whole list
  without returning is \<open>None\<close>, so that \<open>Some\<close> means the call returned.

  The generic part on queues, \<open>queue_run\<close>, executes a sequence of push and pop requests and
  collects what was accepted and what came out.
\<close>

named_theorems queue_defs \<open>definitions of the queue operations\<close>
named_theorems queue_inv \<open>preservation of the queue invariants\<close>

subsection \<open>Time\<close>

type_synonym time = int
type_synonym duration = int

definition IsZero :: "time \<Rightarrow> bool" where
  "IsZero t \<longleftrightarrow> t = 0"

abbreviation Millisecond :: duration where "Millisecond \<equiv> 1000000"
abbreviation Second :: duration where "Second \<equiv> 1000000000"

definition wrap64 :: "int \<Rightarrow> int" where
  "wrap64 x = signed_take_bit 63 x"

lemma wrap64_id: "- (2 ^ 63) \<le> x \<Longrightarrow> x < 2 ^ 63 \<Longrightarrow> wrap64 x = x"
  by (simp add: wrap64_def signed_take_bit_int_eq_self)

subsection \<open>Exchanging two cells of a list\<close>

definition list_swap :: "'a list \<Rightarrow> nat \<Rightarrow> nat \<Rightarrow> 'a list" where
  "list_swap xs i j = xs[i := xs ! j, j := xs ! i]"

lemma length_list_swap [simp]: "length (list_swap xs i j) = length xs"
  by (simp add: list_swap_def)

lemma nth_list_swap:
  "i < length xs \<Longrightarrow> j < length xs \<Longrightarrow> k < length xs \<Longrightarrow>
   list_swap xs i j ! k = (if k = j then xs ! i else if k = i then xs ! j else xs ! k)"
  by (auto simp: list_swap_def nth_list_update)

lemma mset_list_swap [simp]:
  "i < length xs \<Longrightarrow> j < length xs \<Longrightarrow> mset (list_swap xs i j) = mset xs"
  by (simp add: list_swap_def mset_swap)

subsection \<open>Circular indices\<close>

lemma mod_wrap: "h < n \<Longrightarrow> i \<le> n \<Longrightarrow> (h + i) mod n = (if h + i < n then h + i else h + i - n)"
  for n :: nat
  by (auto simp: mod_if)

lemma mod_wrap_inj: "h < n \<Longrightarrow> i < n \<Longrightarrow> j < n \<Longrightarrow> (h + i) mod n = (h + j) mod n \<longleftrightarrow> i = j"
  for n :: nat
  by (auto simp: mod_wrap)

lemma mod_step: "h < n \<Longrightarrow> (if h + 1 = n then 0 else h + 1) = (h + 1) mod n"
  for n :: nat
  by auto

subsection \<open>Decimal numerals\<close>

text \<open>\<open>strconv.FormatUint(n, 10)\<close> and what \<open>%d\<close> prints.\<close>

fun digits :: "nat \<Rightarrow> string" where
  "digits n = (if n < 10 then [char_of (48 + n)] else digits (n div 10) @ [char_of (48 + n mod 10)])"

declare digits.simps [simp del]

definition digits_value :: "string \<Rightarrow> nat" where
  "digits_value s = foldl (\<lambda>a c. 10 * a + (of_char c - 48)) 0 s"

lemma digits_value_digits: "digits_value (digits n) = n"
proof (induction n rule: digits.induct)
  case (1 n)
  have c: "of_char (char_of (48 + k) :: char) = 48 + k" if "k < 10" for k :: nat
    using that by (simp add: of_char_of)
  show ?case
  proof (cases "n < 10")
    case True
    then show ?thesis by (subst digits.simps) (simp add: digits_value_def c)
  next
    case False
    then have "digits_value (digits n) = 10 * digits_value (digits (n div 10)) + (of_char (char_of (48 + n mod 10) :: char) - 48)"
      by (subst digits.simps) (simp add: digits_value_def)
    also have "\<dots> = 10 * (n div 10) + n mod 10"
      using 1 [OF False] c [of "n mod 10"] by simp
    finally show ?thesis by simp
  qed
qed

lemma digits_inject [simp]: "digits m = digits n \<longleftrightarrow> m = n"
  by (metis digits_value_digits)

definition FormatUint :: "64 word \<Rightarrow> string" where
  "FormatUint w = digits (unat w)"

lemma FormatUint_inject [simp]: "FormatUint v = FormatUint w \<longleftrightarrow> v = w"
  by (simp add: FormatUint_def word_unat_eq_iff)

text \<open>A list in which nothing occurs twice.\<close>

lemma distinct_count_le: "(\<And>x. count (mset l) x \<le> 1) \<Longrightarrow> distinct l"
proof -
  assume c: "\<And>x. count (mset l) x \<le> 1"
  have "count (mset l) x = (if x \<in> set l then 1 else 0)" for x
  proof (cases "x \<in> set l")
    case True
    then have "count (mset l) x \<noteq> 0" by (simp add: count_mset_0_iff)
    then have "count (mset l) x = 1" using c [of x] by linarith
    with True show ?thesis by simp
  qed simp
  then show "distinct l" unfolding distinct_count_atmost_1 by blast
qed

end
