(* ===== verification/Priority_Heap.thy ===== *)
theory Priority_Heap
  imports FW_Prelude
begin

text \<open>
  The array heap of \<open>queue/priority.go\<close>: the type \<open>pq\<close>, its order \<open>lessItem\<close> and
  its operations \<open>push\<close> and \<open>pop\<close>.  An item is a record with the source's four fields;
  the sequence number is an unsigned 64-bit word.  A slice is a list.  The loops of
  \<open>push\<close> and \<open>pop\<close> are \<open>sift_up\<close> and \<open>sift_down\<close>; \<open>pop\<close> of an empty
  slice, which panics, is \<open>None\<close>.
\<close>

record 'a item =
  it_Value :: 'a
  it_Priority :: int
  it_Seq :: "64 word"
  it_RunAt :: time

definition lessItem :: "'a item \<Rightarrow> 'a item \<Rightarrow> bool" where
  "lessItem a b =
     (if it_RunAt a \<noteq> it_RunAt b then it_RunAt a < it_RunAt b
      else if it_Priority a \<noteq> it_Priority b then it_Priority a > it_Priority b
      else it_Seq a < it_Seq b)"

function sift_up :: "'a item list \<Rightarrow> nat \<Rightarrow> 'a item list" where
  "sift_up a i =
     (if i > 0 then
        let parent = (i - 1) div 2
        in if \<not> lessItem (a ! i) (a ! parent) then a
           else sift_up (list_swap a i parent) parent
      else a)"
  by pat_completeness auto
termination
  by (relation "measure snd") auto

definition pq_push :: "'a item list \<Rightarrow> 'a item \<Rightarrow> 'a item list" where
  "pq_push p it = (let a = p @ [it] in sift_up a (length a - 1))"

function sift_down :: "'a item list \<Rightarrow> nat \<Rightarrow> nat \<Rightarrow> 'a item list" where
  "sift_down a n i =
     (let left = i * 2 + 1
      in if left \<ge> n then a
         else let right = left + 1;
                  child = (if right < n \<and> lessItem (a ! right) (a ! left) then right else left)
              in if \<not> lessItem (a ! child) (a ! i) then a
                 else sift_down (list_swap a i child) n child)"
  by pat_completeness auto
termination
  by (relation "measure (\<lambda>(a, n, i). n - i)") (auto simp: Let_def split: if_splits)

definition pq_pop :: "'a item list \<Rightarrow> ('a item \<times> 'a item list) option" where
  "pq_pop p =
     (if p = [] then None
      else let n = length p - 1;
               out = p ! 0;
               lst = p ! n;
               a = take n p
           in Some (out, if n > 0 then sift_down (a[0 := lst]) n 0 else a))"

declare sift_up.simps [simp del] sift_down.simps [simp del]

subsection \<open>The order\<close>

definition item_key :: "'a item \<Rightarrow> int \<times> int \<times> 64 word" where
  "item_key a = (it_RunAt a, - it_Priority a, it_Seq a)"

lemma lessItem_key: "lessItem a b \<longleftrightarrow> item_key a < item_key b"
  by (auto simp: lessItem_def item_key_def less_prod_def)

lemma not_lessItem_key: "\<not> lessItem a b \<longleftrightarrow> item_key b \<le> item_key a"
  by (simp add: lessItem_key not_less)

subsection \<open>The heap invariant\<close>

definition parent :: "nat \<Rightarrow> nat" where
  "parent i = (i - 1) div 2"

lemma parent_less: "0 < i \<Longrightarrow> parent i < i"
  by (auto simp: parent_def)

lemma parent_bound: "0 < i \<Longrightarrow> i \<le> n \<Longrightarrow> parent i < n"
  using parent_less [of i] by simp

lemma sift_up_parent:
  "sift_up a i =
     (if 0 < i \<and> lessItem (a ! i) (a ! parent i) then sift_up (list_swap a i (parent i)) (parent i) else a)"
  by (subst sift_up.simps) (simp add: Let_def parent_def)

definition pq_heap :: "'a item list \<Rightarrow> bool" where
  "pq_heap a \<longleftrightarrow> (\<forall>i < length a. 0 < i \<longrightarrow> item_key (a ! parent i) \<le> item_key (a ! i))"

text \<open>One defect at \<open>i\<close>, to be repaired upwards or downwards.\<close>

definition heap_up :: "'a item list \<Rightarrow> nat \<Rightarrow> bool" where
  "heap_up a i \<longleftrightarrow> i < length a \<and>
     (\<forall>j < length a. 0 < j \<longrightarrow> j \<noteq> i \<longrightarrow> item_key (a ! parent j) \<le> item_key (a ! j)) \<and>
     (\<forall>j < length a. 0 < i \<longrightarrow> 0 < j \<longrightarrow> parent j = i \<longrightarrow>
        item_key (a ! parent i) \<le> item_key (a ! j))"

definition heap_down :: "'a item list \<Rightarrow> nat \<Rightarrow> bool" where
  "heap_down a i \<longleftrightarrow> i < length a \<and>
     (\<forall>j < length a. 0 < j \<longrightarrow> parent j \<noteq> i \<longrightarrow> item_key (a ! parent j) \<le> item_key (a ! j)) \<and>
     (\<forall>j < length a. 0 < i \<longrightarrow> 0 < j \<longrightarrow> parent j = i \<longrightarrow>
        item_key (a ! parent i) \<le> item_key (a ! j))"

lemma length_sift_up [simp]: "length (sift_up a i) = length a"
  by (induction a i rule: sift_up.induct) (subst sift_up.simps, auto simp: Let_def)

lemma mset_sift_up [simp]: "i < length a \<Longrightarrow> mset (sift_up a i) = mset a"
proof (induction a i rule: sift_up.induct)
  case (1 a i)
  then show ?case by (subst sift_up.simps) (auto simp: Let_def)
qed

lemma length_sift_down [simp]: "length (sift_down a n i) = length a"
proof (induction a n i rule: sift_down.induct)
  case (1 a n i)
  show ?case by (subst sift_down.simps) (use 1 in \<open>auto simp: Let_def\<close>)
qed

lemma mset_sift_down [simp]: "i < n \<Longrightarrow> n \<le> length a \<Longrightarrow> mset (sift_down a n i) = mset a"
proof (induction a n i rule: sift_down.induct)
  case (1 a n i)
  show ?case by (subst sift_down.simps) (use 1 in \<open>auto simp: Let_def\<close>)
qed

subsection \<open>The sift loops repair the heap\<close>

lemma heap_up_swap:
  assumes up: "heap_up a i" and pos: "0 < i"
    and less: "lessItem (a ! i) (a ! parent i)"
  shows "heap_up (list_swap a i (parent i)) (parent i)"
proof -
  let ?p = "parent i"
  have lt: "?p < i" "i < length a" using up pos by (auto simp: heap_up_def parent_less)
  have k: "item_key (a ! i) \<le> item_key (a ! ?p)"
    using less by (simp add: lessItem_key)
  have ord: "item_key (a ! parent j) \<le> item_key (a ! j)"
    if "j < length a" "0 < j" "j \<noteq> i" for j
    using up that by (auto simp: heap_up_def)
  have child: "item_key (a ! ?p) \<le> item_key (a ! j)"
    if "j < length a" "0 < j" "parent j = i" for j
    using up pos that by (auto simp: heap_up_def)
  have top: "item_key (a ! parent ?p) \<le> item_key (a ! ?p)" if "0 < ?p"
    using ord [of ?p] lt that by auto
  note par = parent_less
  have sw: "list_swap a i ?p ! j = (if j = ?p then a ! i else if j = i then a ! ?p else a ! j)"
    if "j < length a" for j
    using lt that by (simp add: nth_list_swap)
  show ?thesis
    unfolding heap_up_def length_list_swap
  proof (intro conjI allI impI)
    show "?p < length a" using lt by simp
  next
    fix j assume j: "j < length a" "0 < j" "j \<noteq> ?p"
    show "item_key (list_swap a i ?p ! parent j) \<le> item_key (list_swap a i ?p ! j)"
    proof (cases "parent j = i")
      case True
      with j lt child [of j] show ?thesis by (auto simp: sw)
    next
      case False
      with j lt k ord [of j] par [of j] show ?thesis by (auto simp: sw intro: order_trans)
    qed
  next
    fix j assume j: "j < length a" "0 < ?p" "0 < j" "parent j = ?p"
    show "item_key (list_swap a i ?p ! parent ?p) \<le> item_key (list_swap a i ?p ! j)"
    proof (cases "j = i")
      case True
      with j lt top par [of ?p] show ?thesis by (auto simp: sw)
    next
      case False
      with j have "j \<noteq> ?p" using par [of j] by auto
      with j lt False top ord [of j] par [of ?p] show ?thesis by (auto simp: sw intro: order_trans)
    qed
  qed
qed

lemma sift_up_heap: "heap_up a i \<Longrightarrow> pq_heap (sift_up a i)"
proof (induction a i rule: sift_up.induct)
  case (1 a i)
  let ?p = "parent i"
  show ?case
  proof (cases "0 < i \<and> lessItem (a ! i) (a ! ?p)")
    case True
    with "1.prems" have "heap_up (list_swap a i ?p) ?p" by (simp add: heap_up_swap)
    with True "1.IH" show ?thesis by (subst sift_up_parent) (simp add: parent_def)
  next
    case False
    with "1.prems" have "pq_heap a"
      unfolding heap_up_def pq_heap_def by (metis not_lessItem_key)
    with False show ?thesis by (subst sift_up_parent) auto
  qed
qed

lemma heap_down_swap:
  assumes down: "heap_down a i"
    and c: "c < length a" "0 < c" "parent c = i"
    and less: "lessItem (a ! c) (a ! i)"
    and best: "\<And>j. j < length a \<Longrightarrow> 0 < j \<Longrightarrow> parent j = i \<Longrightarrow> item_key (a ! c) \<le> item_key (a ! j)"
  shows "heap_down (list_swap a i c) c"
proof -
  have lt: "i < c" "i < length a" using down c parent_less [of c] by (auto simp: heap_down_def)
  have k: "item_key (a ! c) \<le> item_key (a ! i)"
    using less by (simp add: lessItem_key)
  have ord: "item_key (a ! parent j) \<le> item_key (a ! j)"
    if "j < length a" "0 < j" "parent j \<noteq> i" for j
    using down that by (auto simp: heap_down_def)
  have up: "item_key (a ! parent i) \<le> item_key (a ! c)" if "0 < i"
    using down c that by (auto simp: heap_down_def)
  note par = parent_less
  have sw: "list_swap a i c ! j = (if j = c then a ! i else if j = i then a ! c else a ! j)"
    if "j < length a" for j
    using lt c that by (simp add: nth_list_swap)
  show ?thesis
    unfolding heap_down_def length_list_swap
  proof (intro conjI allI impI)
    show "c < length a" by (rule c)
  next
    fix j assume j: "j < length a" "0 < j" "parent j \<noteq> c"
    show "item_key (list_swap a i c ! parent j) \<le> item_key (list_swap a i c ! j)"
    proof (cases "parent j = i")
      case True
      with j lt k best [of j] show ?thesis by (auto simp: sw)
    next
      case False
      note other = this
      show ?thesis
      proof (cases "j = i")
        case True
        with j lt up par [of j] show ?thesis by (auto simp: sw)
      next
        case False
        with other j lt c ord [of j] par [of j] show ?thesis by (auto simp: sw)
      qed
    qed
  next
    fix j assume j: "j < length a" "0 < c" "0 < j" "parent j = c"
    then have "item_key (a ! c) \<le> item_key (a ! j)" using ord [of j] lt by auto
    moreover have "j \<noteq> c" "j \<noteq> i" using j lt par [of j] by auto
    ultimately show "item_key (list_swap a i c ! parent c) \<le> item_key (list_swap a i c ! j)"
      using j c lt by (auto simp: sw)
  qed
qed

lemma child_cases: "0 < j \<Longrightarrow> parent j = i \<Longrightarrow> j = i * 2 + 1 \<or> j = i * 2 + 2"
  by (auto simp: parent_def)

lemma parent_child: "parent (i * 2 + 1) = i" "parent (i * 2 + 2) = i"
  by (auto simp: parent_def)

text \<open>The child the loop of \<open>pop\<close> compares with: the smaller one, the left one on a tie.\<close>

definition min_child :: "'a item list \<Rightarrow> nat \<Rightarrow> nat" where
  "min_child a i =
     (if i * 2 + 2 < length a \<and> lessItem (a ! (i * 2 + 2)) (a ! (i * 2 + 1)) then i * 2 + 2 else i * 2 + 1)"

lemma min_child:
  assumes "i * 2 + 1 < length a"
  shows "min_child a i < length a" "0 < min_child a i" "parent (min_child a i) = i"
    and "j < length a \<Longrightarrow> 0 < j \<Longrightarrow> parent j = i \<Longrightarrow> item_key (a ! min_child a i) \<le> item_key (a ! j)"
  using assms child_cases [of j i] parent_child [of i]
  by (auto simp: min_child_def lessItem_key)

lemma sift_down_min_child:
  "sift_down a (length a) i =
     (if i * 2 + 1 < length a \<and> lessItem (a ! min_child a i) (a ! i)
      then sift_down (list_swap a i (min_child a i)) (length a) (min_child a i) else a)"
  by (subst sift_down.simps) (auto simp: Let_def min_child_def)

lemma sift_down_heap: "heap_down a i \<Longrightarrow> pq_heap (sift_down a (length a) i)"
proof (induction "length a - i" arbitrary: a i rule: less_induct)
  case less
  let ?c = "min_child a i"
  show ?case
  proof (cases "i * 2 + 1 < length a \<and> lessItem (a ! ?c) (a ! i)")
    case True
    note c = min_child [OF conjunct1 [OF True]]
    from less.prems True c have down: "heap_down (list_swap a i ?c) ?c"
      by (intro heap_down_swap) auto
    have "i < ?c" using c(2,3) parent_less [of ?c] by simp
    with c(1) less.hyps [of "list_swap a i ?c" ?c] down
    have "pq_heap (sift_down (list_swap a i ?c) (length a) ?c)" by auto
    with True show ?thesis by (subst sift_down_min_child) simp
  next
    case False
    have "item_key (a ! parent j) \<le> item_key (a ! j)" if j: "j < length a" "0 < j" for j
    proof (cases "parent j = i")
      case True
      with j have "i * 2 + 1 < length a" using child_cases [of j i] by auto
      with False min_child(4) [of i a j] j True show ?thesis
        by (auto simp: not_lessItem_key intro: order_trans)
    next
      case False
      with less.prems j show ?thesis by (auto simp: heap_down_def)
    qed
    then have "pq_heap a" by (simp add: pq_heap_def)
    with False show ?thesis by (subst sift_down_min_child) auto
  qed
qed

subsection \<open>The operations\<close>

lemma pq_push_mset: "mset (pq_push p it) = add_mset it (mset p)"
  by (simp add: pq_push_def Let_def)

lemma length_pq_push [simp]: "length (pq_push p it) = Suc (length p)"
  by (simp add: pq_push_def Let_def)

lemma pq_push_heap [queue_inv]: "pq_heap p \<Longrightarrow> pq_heap (pq_push p it)"
proof -
  assume h: "pq_heap p"
  have "heap_up (p @ [it]) (length p)"
    unfolding heap_up_def
  proof (intro conjI allI impI)
    fix j assume j: "j < length (p @ [it])" "0 < j" "j \<noteq> length p"
    then have "j < length p" "parent j < length p" using parent_bound [of j "length p"] by auto
    with j h show "item_key ((p @ [it]) ! parent j) \<le> item_key ((p @ [it]) ! j)"
      by (simp add: pq_heap_def nth_append)
  next
    fix j assume "j < length (p @ [it])" "0 < j" "parent j = length p"
    then have False using parent_bound [of j "length p"] by simp
    then show "item_key ((p @ [it]) ! parent (length p)) \<le> item_key ((p @ [it]) ! j)" ..
  qed simp
  then show ?thesis by (simp add: pq_push_def Let_def sift_up_heap)
qed

lemma pq_heap_root:
  assumes h: "pq_heap p" and "i < length p"
  shows "item_key (p ! 0) \<le> item_key (p ! i)"
  using assms(2)
proof (induction i rule: less_induct)
  case (less i)
  show ?case
  proof (cases "i = 0")
    case False
    then have "parent i < i" by (simp add: parent_less)
    with less h False have "item_key (p ! 0) \<le> item_key (p ! parent i)"
      and "item_key (p ! parent i) \<le> item_key (p ! i)"
      by (auto simp: pq_heap_def)
    then show ?thesis by (rule order_trans)
  qed simp
qed

lemma pq_pop_None: "pq_pop p = None \<longleftrightarrow> p = []"
  by (simp add: pq_pop_def Let_def)

lemma pq_pop_first: "pq_pop p = Some (x, q) \<Longrightarrow> x = p ! 0"
  by (auto simp: pq_pop_def Let_def split: if_splits)

lemma pq_pop_length: "pq_pop p = Some (x, q) \<Longrightarrow> length p = Suc (length q)"
  by (cases p) (auto simp: pq_pop_def Let_def split: if_splits)

lemma pq_pop_mset: "pq_pop p = Some (x, q) \<Longrightarrow> mset p = add_mset x (mset q)"
proof -
  assume pop: "pq_pop p = Some (x, q)"
  then have ne: "p \<noteq> []" by (auto simp: pq_pop_def)
  show ?thesis
  proof (cases "length p = 1")
    case True
    with pop show ?thesis by (auto simp: pq_pop_def Let_def length_Suc_conv)
  next
    case False
    with ne obtain h t l where p: "p = h # t @ [l]"
      by (metis One_nat_def append_butlast_last_id length_Cons list.exhaust list.size(3))
    with pop show ?thesis by (auto simp: pq_pop_def Let_def)
  qed
qed

lemma pq_pop_heap [queue_inv]: "pq_heap p \<Longrightarrow> pq_pop p = Some (x, q) \<Longrightarrow> pq_heap q"
proof -
  assume h: "pq_heap p" and pop: "pq_pop p = Some (x, q)"
  define a where "a = (take (length p - 1) p)[0 := last p]"
  from pop have ne: "p \<noteq> []" by (auto simp: pq_pop_def)
  note pop_len = pq_pop_length [OF pop]
  show ?thesis
  proof (cases "length p = 1")
    case True
    with pop_len show ?thesis by (simp add: pq_heap_def)
  next
    case False
    with ne have len: "length a = length p - 1" "0 < length a"
      by (auto simp: a_def) (metis One_nat_def length_0_conv Suc_lessI length_greater_0_conv)
    then have nth: "a ! j = (if j = 0 then last p else p ! j)" if "j < length a" for j
      using that by (auto simp: a_def)
    have "heap_down a 0"
      unfolding heap_down_def
    proof (intro conjI allI impI)
      fix j assume j: "j < length a" "0 < j" "parent j \<noteq> 0"
      then have "parent j < length a" using parent_less [of j] by simp
      with j h len nth show "item_key (a ! parent j) \<le> item_key (a ! j)"
        by (auto simp: pq_heap_def)
    qed (use len in auto)
    then have "pq_heap (sift_down a (length a) 0)" by (rule sift_down_heap)
    moreover have "q = sift_down a (length a) 0"
      using pop len ne by (auto simp: pq_pop_def Let_def a_def last_conv_nth)
    ultimately show ?thesis by simp
  qed
qed

lemma pq_pop_least:
  assumes "pq_heap p" and "pq_pop p = Some (x, q)" and "y \<in> set p"
  shows "\<not> lessItem y x"
  using assms pq_heap_root [of p] pq_pop_first [of p x q]
  by (auto simp: not_lessItem_key in_set_conv_nth)

end
