(* ===== verification/Queue_Interfaces.thy ===== *)
theory Queue_Interfaces
  imports FW_Prelude
begin

text \<open>
  The contracts of the queues, as locales.  The pool holds three queues and only ever pushes and
  pops, so what it may rely on is stated once here and proved once for any provider:

  \<^item> \<open>job_container\<close>: an invariant and the multiset of what is inside; a push adds its
    argument exactly when it reports success, a pop removes exactly what it returns.  Client
    lemma: over any sequence of requests nothing is lost and nothing is invented.
  \<^item> \<open>fifo_container\<close>: the contents are a list, pushed at the end and popped at the front.
    Client lemma: what comes out is, in order, what went in.
  \<^item> \<open>bounded_fifo\<close>: a push succeeds exactly when the queue is open and not full.
  \<^item> \<open>prio_container\<close>: a pop returns a least due element, and fails only when nothing is due.
    Client lemmas: a drain delivers all due elements, in order.

  The bounded FIFO and the ring interpret \<open>bounded_fifo\<close>, the priority queue \<open>prio_container\<close>.
\<close>

datatype 'a qop = QPush 'a | QPop

fun queue_run ::
  "('a \<Rightarrow> 'q \<Rightarrow> bool \<times> 'q) \<Rightarrow> ('q \<Rightarrow> 'a option \<times> 'q) \<Rightarrow> 'a qop list \<Rightarrow> 'q \<Rightarrow> 'a list \<times> 'a list \<times> 'q"
where
  "queue_run push pop [] q = ([], [], q)"
| "queue_run push pop (QPush x # ops) q =
     (case push x q of (ok, q') \<Rightarrow>
        case queue_run push pop ops q' of (acc, out, r) \<Rightarrow> (if ok then x # acc else acc, out, r))"
| "queue_run push pop (QPop # ops) q =
     (case pop q of (res, q') \<Rightarrow>
        case queue_run push pop ops q' of (acc, out, r) \<Rightarrow>
          (acc, (case res of None \<Rightarrow> out | Some x \<Rightarrow> x # out), r))"

text \<open>Popping \<open>n\<close> times.\<close>

fun drain :: "('q \<Rightarrow> 'a option \<times> 'q) \<Rightarrow> nat \<Rightarrow> 'q \<Rightarrow> 'a list \<times> 'q" where
  "drain pop 0 q = ([], q)"
| "drain pop (Suc n) q =
     (case pop q of
        (None, q') \<Rightarrow> drain pop n q'
      | (Some x, q') \<Rightarrow> (case drain pop n q' of (out, r) \<Rightarrow> (x # out, r)))"

locale job_container =
  fixes inv :: "'q \<Rightarrow> bool"
    and elems :: "'q \<Rightarrow> 'a multiset"
    and push :: "'a \<Rightarrow> 'q \<Rightarrow> bool \<times> 'q"
    and pop :: "'q \<Rightarrow> 'a option \<times> 'q"
  assumes push_inv: "inv q \<Longrightarrow> push x q = (ok, q') \<Longrightarrow> inv q'"
    and push_elems: "inv q \<Longrightarrow> push x q = (ok, q') \<Longrightarrow> elems q' = elems q + (if ok then {#x#} else {#})"
    and pop_inv: "inv q \<Longrightarrow> pop q = (res, q') \<Longrightarrow> inv q'"
    and pop_elems: "inv q \<Longrightarrow> pop q = (res, q') \<Longrightarrow>
      elems q = elems q' + (case res of None \<Rightarrow> {#} | Some x \<Rightarrow> {#x#})"
begin

lemma run_conserves:
  "inv q \<Longrightarrow> queue_run push pop ops q = (acc, out, r) \<Longrightarrow>
   inv r \<and> elems q + mset acc = elems r + mset out"
proof (induction ops arbitrary: q acc out r)
  case Nil
  then show ?case by simp
next
  case (Cons op ops)
  show ?case
  proof (cases op)
    case (QPush x)
    obtain ok q' where p: "push x q = (ok, q')" by fastforce
    obtain acc' out' r' where rest: "queue_run push pop ops q' = (acc', out', r')"
      using prod_cases3 by blast
    from push_inv [OF Cons.prems(1) p] have "inv r' \<and> elems q' + mset acc' = elems r' + mset out'"
      using rest by (rule Cons.IH)
    with push_elems [OF Cons.prems(1) p] p rest Cons.prems(2) QPush show ?thesis
      by (auto split: if_splits)
  next
    case QPop
    obtain res q' where p: "pop q = (res, q')" by fastforce
    obtain acc' out' r' where rest: "queue_run push pop ops q' = (acc', out', r')"
      using prod_cases3 by blast
    from pop_inv [OF Cons.prems(1) p] have "inv r' \<and> elems q' + mset acc' = elems r' + mset out'"
      using rest by (rule Cons.IH)
    with pop_elems [OF Cons.prems(1) p] p rest Cons.prems(2) QPop show ?thesis
      by (auto split: option.splits)
  qed
qed

lemma drain_conserves:
  "inv q \<Longrightarrow> drain pop n q = (out, r) \<Longrightarrow> inv r \<and> elems q = elems r + mset out"
proof (induction n arbitrary: q out r)
  case 0
  then show ?case by simp
next
  case (Suc n)
  obtain res q' where p: "pop q = (res, q')" by fastforce
  obtain out' r' where rest: "drain pop n q' = (out', r')" by fastforce
  from Suc.IH [OF pop_inv [OF Suc.prems(1) p] rest] pop_elems [OF Suc.prems(1) p] p rest Suc.prems(2)
  show ?case by (auto split: option.splits)
qed

end

locale fifo_container =
  fixes inv :: "'q \<Rightarrow> bool"
    and contents :: "'q \<Rightarrow> 'a list"
    and push :: "'a \<Rightarrow> 'q \<Rightarrow> bool \<times> 'q"
    and pop :: "'q \<Rightarrow> 'a option \<times> 'q"
  assumes fifo_push_inv: "inv q \<Longrightarrow> push x q = (ok, q') \<Longrightarrow> inv q'"
    and fifo_push: "inv q \<Longrightarrow> push x q = (ok, q') \<Longrightarrow>
      contents q' = contents q @ (if ok then [x] else [])"
    and fifo_pop_inv: "inv q \<Longrightarrow> pop q = (res, q') \<Longrightarrow> inv q'"
    and fifo_pop: "inv q \<Longrightarrow> pop q = (res, q') \<Longrightarrow>
      contents q = (case res of None \<Rightarrow> [] | Some x \<Rightarrow> [x]) @ contents q' \<and>
      (res = None \<longleftrightarrow> contents q = [])"

sublocale fifo_container \<subseteq> job_container inv "\<lambda>q. mset (contents q)" push pop
proof unfold_locales
  fix q x ok q' assume "inv q" "push x q = (ok, q')"
  then show "inv q'" and "mset (contents q') = mset (contents q) + (if ok then {#x#} else {#})"
    using fifo_push fifo_push_inv by auto
next
  fix q res q' assume "inv q" "pop q = (res, q')"
  then show "inv q'" and "mset (contents q) = mset (contents q') + (case res of None \<Rightarrow> {#} | Some x \<Rightarrow> {#x#})"
    using fifo_pop fifo_pop_inv by (auto split: option.split)
qed

context fifo_container begin

lemma run_fifo:
  "inv q \<Longrightarrow> queue_run push pop ops q = (acc, out, r) \<Longrightarrow>
   contents q @ acc = out @ contents r"
proof (induction ops arbitrary: q acc out r)
  case Nil
  then show ?case by simp
next
  case (Cons op ops)
  show ?case
  proof (cases op)
    case (QPush x)
    obtain ok q' where p: "push x q = (ok, q')" by fastforce
    obtain acc' out' r' where rest: "queue_run push pop ops q' = (acc', out', r')"
      using prod_cases3 by blast
    from Cons.IH [OF fifo_push_inv [OF Cons.prems(1) p] rest] fifo_push [OF Cons.prems(1) p]
      p rest Cons.prems(2) QPush
    show ?thesis by (auto split: if_splits)
  next
    case QPop
    obtain res q' where p: "pop q = (res, q')" by fastforce
    obtain acc' out' r' where rest: "queue_run push pop ops q' = (acc', out', r')"
      using prod_cases3 by blast
    note ih = Cons.IH [OF fifo_pop_inv [OF Cons.prems(1) p] rest]
    show ?thesis
    proof (cases res)
      case None
      with fifo_pop [OF Cons.prems(1) p] have "contents q = contents q'" by simp
      with ih None p rest Cons.prems(2) QPop show ?thesis by simp
    next
      case (Some x)
      with fifo_pop [OF Cons.prems(1) p] have "contents q = x # contents q'" by simp
      with ih Some p rest Cons.prems(2) QPop show ?thesis by auto
    qed
  qed
qed

lemma drain_all:
  "inv q \<Longrightarrow> length (contents q) \<le> n \<Longrightarrow> drain pop n q = (out, r) \<Longrightarrow>
   out = contents q \<and> contents r = []"
proof (induction n arbitrary: q out r)
  case 0
  then show ?case by simp
next
  case (Suc n)
  obtain res q' where p: "pop q = (res, q')" by fastforce
  obtain out' r' where rest: "drain pop n q' = (out', r')" by fastforce
  note pp = fifo_pop [OF Suc.prems(1) p] and ih = Suc.IH [OF fifo_pop_inv [OF Suc.prems(1) p] _ rest]
  show ?case
  proof (cases res)
    case None
    with pp have "contents q = []" "contents q' = []" by auto
    with ih None p rest Suc.prems(3) show ?thesis by simp
  next
    case (Some x)
    with pp have "contents q = x # contents q'" by simp
    with ih Some p rest Suc.prems show ?thesis by auto
  qed
qed

end

locale bounded_fifo = fifo_container inv contents push pop
  for inv :: "'q \<Rightarrow> bool" and contents :: "'q \<Rightarrow> 'a list"
    and push :: "'a \<Rightarrow> 'q \<Rightarrow> bool \<times> 'q" and pop :: "'q \<Rightarrow> 'a option \<times> 'q" +
  fixes cap :: "'q \<Rightarrow> nat" and closed :: "'q \<Rightarrow> bool"
  assumes bound: "inv q \<Longrightarrow> length (contents q) \<le> cap q"
    and accept: "inv q \<Longrightarrow> push x q = (ok, q') \<Longrightarrow> ok \<longleftrightarrow> \<not> closed q \<and> length (contents q) < cap q"
    and push_frame: "push x q = (ok, q') \<Longrightarrow> cap q' = cap q \<and> closed q' = closed q"
    and pop_frame: "pop q = (res, q') \<Longrightarrow> cap q' = cap q \<and> closed q' = closed q"
begin

lemma push_full: "inv q \<Longrightarrow> length (contents q) = cap q \<Longrightarrow> \<not> fst (push x q)"
  using accept [of q x] by (metis less_irrefl prod.collapse)

lemma push_after_pop:
  assumes "inv q" and "\<not> closed q" and "pop q = (Some y, q')"
  shows "fst (push x q')"
proof -
  have "length (contents q') < length (contents q)" using fifo_pop [OF assms(1,3)] by auto
  with bound [OF assms(1)] accept [OF fifo_pop_inv [OF assms(1,3)], of x]
    pop_frame [OF assms(3)] assms(2)
  show ?thesis by (metis order_less_le_trans prod.collapse)
qed

end

locale prio_container = job_container inv elems push pop
  for inv :: "'q \<Rightarrow> bool" and elems :: "'q \<Rightarrow> 'a multiset"
    and push :: "'a \<Rightarrow> 'q \<Rightarrow> bool \<times> 'q" and pop :: "'q \<Rightarrow> 'a option \<times> 'q" +
  fixes less :: "'a \<Rightarrow> 'a \<Rightarrow> bool" and due :: "'a \<Rightarrow> bool"
  assumes pop_least: "inv q \<Longrightarrow> pop q = (Some x, q') \<Longrightarrow> y \<in># elems q \<Longrightarrow> \<not> less y x"
    and pop_due: "inv q \<Longrightarrow> pop q = (Some x, q') \<Longrightarrow> due x"
    and pop_none: "inv q \<Longrightarrow> pop q = (None, q') \<Longrightarrow> y \<in># elems q \<Longrightarrow> \<not> due y"
begin

lemma drain_sorted:
  "inv q \<Longrightarrow> drain pop n q = (out, r) \<Longrightarrow> sorted_wrt (\<lambda>a b. \<not> less b a) out"
proof (induction n arbitrary: q out r)
  case 0
  then show ?case by simp
next
  case (Suc n)
  obtain res q' where p: "pop q = (res, q')" by fastforce
  obtain out' r' where rest: "drain pop n q' = (out', r')" by fastforce
  note i' = pop_inv [OF Suc.prems(1) p]
  have sub: "set out' \<subseteq> set_mset (elems q)"
    using drain_conserves [OF i' rest] pop_elems [OF Suc.prems(1) p]
    by (auto split: option.splits)
  show ?case
  proof (cases res)
    case None
    with Suc.IH [OF i' rest] p rest Suc.prems(2) show ?thesis by simp
  next
    case (Some x)
    have "\<forall>y \<in> set out'. \<not> less y x"
      using sub pop_least [of q x q'] Suc.prems(1) p Some by blast
    with Suc.IH [OF i' rest] p rest Some Suc.prems(2) show ?thesis by auto
  qed
qed

lemma drain_none: "inv q \<Longrightarrow> (\<And>y. y \<in># elems q \<Longrightarrow> \<not> due y) \<Longrightarrow> drain pop n q = (out, r) \<Longrightarrow> out = []"
proof (induction n arbitrary: q out r)
  case 0
  then show ?case by simp
next
  case (Suc n)
  obtain res q' where p: "pop q = (res, q')" by fastforce
  have none: "res = None"
    using pop_due [OF Suc.prems(1)] pop_elems [OF Suc.prems(1) p] p Suc.prems(2)
    by (cases res) auto
  moreover have "elems q' = elems q" using none pop_elems [OF Suc.prems(1) p] by simp
  ultimately show ?case
    using Suc.IH [OF pop_inv [OF Suc.prems(1) p]] Suc.prems p by auto
qed

lemma drain_complete:
  "inv q \<Longrightarrow> size (elems q) \<le> n \<Longrightarrow> drain pop n q = (out, r) \<Longrightarrow>
   mset out = filter_mset due (elems q)"
proof (induction n arbitrary: q out r)
  case 0
  then show ?case by simp
next
  case (Suc n)
  obtain res q' where p: "pop q = (res, q')" by fastforce
  obtain out' r' where rest: "drain pop n q' = (out', r')" by fastforce
  note i' = pop_inv [OF Suc.prems(1) p] and e = pop_elems [OF Suc.prems(1) p]
  show ?case
  proof (cases res)
    case None
    have nd: "\<And>y. y \<in># elems q \<Longrightarrow> \<not> due y" using pop_none Suc.prems(1) p None by blast
    then have "filter_mset due (elems q) = {#}" by (simp add: filter_mset_eq_mempty_iff)
    moreover have "out = []" by (rule drain_none [OF Suc.prems(1) nd Suc.prems(3)])
    ultimately show ?thesis by simp
  next
    case (Some x)
    with e Suc.prems(2) have "size (elems q') \<le> n" by simp
    from Suc.IH [OF i' this rest] e Some p rest Suc.prems pop_due [of q x q']
    show ?thesis by auto
  qed
qed

end

end
