(* ===== verification/Priority_Queue.thy ===== *)
theory Priority_Queue
  imports Priority_Heap Queue_Interfaces
begin

text \<open>
  \<open>PriorityQueue\<close> of \<open>queue/priority.go\<close> over the array heap.  The record holds the
  slice, the capacity, the closed flag and whether the one-element channel \<open>wake\<close> holds a
  token; the condition variable has no state of its own.  A result \<open>(item, true)\<close> is
  \<open>Some item\<close>, a result \<open>(zero, false)\<close> is \<open>None\<close>.

  \<open>Pop\<close> and \<open>PopTimeout\<close> give the mutex up while they wait.  They take a list of rounds,
  one for every time they go around their loop: the clock readings of that round, whether the
  \<open>select\<close> took the branch of \<open>wake\<close>, and what the other goroutines did to the queue while
  the mutex was free.  A call that has not returned when the rounds are used up is \<open>None\<close>.
\<close>

record 'a pqueue =
  pq_items :: "'a item list"
  pq_cap :: int
  pq_closed :: bool
  pq_wake :: bool

definition NewPriorityQueue :: "int \<Rightarrow> 'a pqueue" where
  "NewPriorityQueue capacity = \<lparr>pq_items = [], pq_cap = capacity, pq_closed = False, pq_wake = False\<rparr>"

definition PQ_Len :: "'a pqueue \<Rightarrow> int" where
  "PQ_Len q = int (length (pq_items q))"

definition PQ_Cap :: "'a pqueue \<Rightarrow> int" where
  "PQ_Cap q = pq_cap q"

definition PQ_Closed :: "'a pqueue \<Rightarrow> bool" where
  "PQ_Closed q = pq_closed q"

definition PQ_signalLocked :: "'a pqueue \<Rightarrow> 'a pqueue" where
  "PQ_signalLocked q = q\<lparr>pq_wake := True\<rparr>"

definition PQ_Close :: "'a pqueue \<Rightarrow> 'a pqueue" where
  "PQ_Close q = PQ_signalLocked (q\<lparr>pq_closed := True\<rparr>)"

definition PQ_Push :: "'a item \<Rightarrow> 'a pqueue \<Rightarrow> bool \<times> 'a pqueue" where
  "PQ_Push it q =
     (if pq_closed q then (False, q)
      else if pq_cap q > 0 \<and> int (length (pq_items q)) \<ge> pq_cap q then (False, q)
      else (True, PQ_signalLocked (q\<lparr>pq_items := pq_push (pq_items q) it\<rparr>)))"

text \<open>The popped item is thrown away; the heap is not empty there, so \<open>pop\<close> does not panic.\<close>

definition PQ_DropOldestPush :: "'a item \<Rightarrow> 'a pqueue \<Rightarrow> bool \<times> 'a pqueue" where
  "PQ_DropOldestPush it q =
     (if pq_closed q then (False, q)
      else let q1 = (if pq_cap q > 0 \<and> int (length (pq_items q)) \<ge> pq_cap q
                     then (case pq_pop (pq_items q) of None \<Rightarrow> q | Some (_, rest) \<Rightarrow> q\<lparr>pq_items := rest\<rparr>)
                     else q)
           in (True, PQ_signalLocked (q1\<lparr>pq_items := pq_push (pq_items q1) it\<rparr>)))"

definition PQ_take :: "'a pqueue \<Rightarrow> 'a item option \<times> 'a pqueue" where
  "PQ_take q = (case pq_pop (pq_items q) of None \<Rightarrow> (None, q) | Some (it, rest) \<Rightarrow> (Some it, q\<lparr>pq_items := rest\<rparr>))"

definition PQ_TryPop :: "time \<Rightarrow> 'a pqueue \<Rightarrow> 'a item option \<times> 'a pqueue" where
  "PQ_TryPop now q =
     (if pq_items q = [] \<or> it_RunAt (pq_items q ! 0) > now then (None, q) else PQ_take q)"

record 'a pq_round =
  rd_now :: time
  rd_now2 :: time
  rd_woken :: bool
  rd_others :: "'a pqueue \<Rightarrow> 'a pqueue"

text \<open>One wait on the timer and on \<open>wake\<close>, the mutex being free.\<close>

definition pq_wait :: "'a pq_round \<Rightarrow> 'a pqueue \<Rightarrow> 'a pqueue" where
  "pq_wait e q = (let q' = rd_others e q in if rd_woken e then q'\<lparr>pq_wake := False\<rparr> else q')"

fun PQ_Pop :: "'a pq_round list \<Rightarrow> 'a pqueue \<Rightarrow> ('a item option \<times> 'a pqueue) option" where
  "PQ_Pop [] q = None"
| "PQ_Pop (e # es) q =
     (if pq_items q = [] \<and> \<not> pq_closed q then PQ_Pop es (rd_others e q)
      else if pq_items q = [] \<and> pq_closed q then Some (None, q)
      else let first = pq_items q ! 0; wait = it_RunAt first - rd_now e
           in if wait \<le> 0 then Some (PQ_take q) else PQ_Pop es (pq_wait e q))"

fun PQ_PopTimeout_loop :: "'a pq_round list \<Rightarrow> time \<Rightarrow> 'a pqueue \<Rightarrow> ('a item option \<times> 'a pqueue) option" where
  "PQ_PopTimeout_loop [] deadline q = None"
| "PQ_PopTimeout_loop (e # es) deadline q =
     (if pq_items q = [] \<and> \<not> pq_closed q then
        (let remaining = deadline - rd_now e
         in if remaining \<le> 0 then Some (None, q) else PQ_PopTimeout_loop es deadline (pq_wait e q))
      else if pq_items q = [] \<and> pq_closed q then Some (None, q)
      else let first = pq_items q ! 0;
               wait = it_RunAt first - rd_now e;
               remaining = deadline - rd_now2 e
           in if remaining \<le> 0 then Some (None, q)
              else if wait \<le> 0 then Some (PQ_take q)
              else PQ_PopTimeout_loop es deadline (pq_wait e q))"

definition PQ_PopTimeout :: "'a pq_round list \<Rightarrow> time \<Rightarrow> duration \<Rightarrow> 'a pqueue \<Rightarrow> ('a item option \<times> 'a pqueue) option" where
  "PQ_PopTimeout es now timeout q = PQ_PopTimeout_loop es (now + timeout) q"

subsection \<open>The invariant\<close>

definition pq_inv :: "'a pqueue \<Rightarrow> bool" where
  "pq_inv q \<longleftrightarrow> pq_heap (pq_items q) \<and> (pq_cap q > 0 \<longrightarrow> int (length (pq_items q)) \<le> pq_cap q)"

definition pq_elems :: "'a pqueue \<Rightarrow> 'a item multiset" where
  "pq_elems q = mset (pq_items q)"

declare PQ_signalLocked_def [queue_defs] PQ_Push_def [queue_defs] PQ_DropOldestPush_def [queue_defs]
  PQ_take_def [queue_defs] PQ_TryPop_def [queue_defs] PQ_Close_def [queue_defs]

lemma pq_inv_New [queue_inv]: "pq_inv (NewPriorityQueue n)"
  by (simp add: pq_inv_def NewPriorityQueue_def pq_heap_def)

lemma PQ_Close_inv [queue_inv]: "pq_inv q \<Longrightarrow> pq_inv (PQ_Close q)"
  by (simp add: pq_inv_def queue_defs)

lemma PQ_Push_inv [queue_inv]: "pq_inv q \<Longrightarrow> PQ_Push it q = (ok, q') \<Longrightarrow> pq_inv q'"
  by (auto simp: pq_inv_def queue_defs queue_inv split: if_splits)

lemma PQ_DropOldestPush_inv [queue_inv]:
  assumes i: "pq_inv q" and d: "PQ_DropOldestPush it q = (ok, q')"
  shows "pq_inv q'"
proof (cases "\<not> pq_closed q \<and> pq_cap q > 0 \<and> int (length (pq_items q)) \<ge> pq_cap q")
  case True
  then have "pq_items q \<noteq> []" by auto
  then obtain x rest where pop: "pq_pop (pq_items q) = Some (x, rest)"
    using pq_pop_None [of "pq_items q"] by (cases "pq_pop (pq_items q)") auto
  have "pq_heap rest" using i pop pq_pop_heap by (auto simp: pq_inv_def)
  moreover have "int (length rest) < pq_cap q"
    using i True pq_pop_length [OF pop] by (auto simp: pq_inv_def)
  moreover have "q' = PQ_signalLocked (q\<lparr>pq_items := pq_push rest it\<rparr>)"
    using d True pop by (simp add: PQ_DropOldestPush_def)
  ultimately show ?thesis by (auto simp: pq_inv_def PQ_signalLocked_def intro: queue_inv)
next
  case False
  then have "q' = q \<or> (q' = PQ_signalLocked (q\<lparr>pq_items := pq_push (pq_items q) it\<rparr>) \<and>
      (pq_cap q > 0 \<longrightarrow> int (length (pq_items q)) < pq_cap q))"
    using d by (auto simp: PQ_DropOldestPush_def split: if_splits)
  with i show ?thesis by (auto simp: pq_inv_def PQ_signalLocked_def intro: queue_inv)
qed

lemma PQ_take_inv [queue_inv]: "pq_inv q \<Longrightarrow> PQ_take q = (res, q') \<Longrightarrow> pq_inv q'"
  by (auto simp: pq_inv_def queue_defs dest: pq_pop_length pq_pop_heap split: option.splits)

lemma PQ_TryPop_inv [queue_inv]: "pq_inv q \<Longrightarrow> PQ_TryPop now q = (res, q') \<Longrightarrow> pq_inv q'"
  by (auto simp: PQ_TryPop_def intro: PQ_take_inv split: if_splits)

lemma PQ_Push_elems:
  "PQ_Push it q = (ok, q') \<Longrightarrow> pq_elems q' = pq_elems q + (if ok then {#it#} else {#})"
  by (auto simp: pq_elems_def queue_defs pq_push_mset split: if_splits)

lemma PQ_take_elems:
  "PQ_take q = (res, q') \<Longrightarrow> pq_elems q = pq_elems q' + (case res of None \<Rightarrow> {#} | Some x \<Rightarrow> {#x#})"
  by (auto simp: pq_elems_def queue_defs dest: pq_pop_mset split: option.splits)

lemma PQ_TryPop_elems:
  "PQ_TryPop now q = (res, q') \<Longrightarrow> pq_elems q = pq_elems q' + (case res of None \<Rightarrow> {#} | Some x \<Rightarrow> {#x#})"
  by (auto simp: PQ_TryPop_def dest: PQ_take_elems split: if_splits)

lemma PQ_take_least:
  "pq_inv q \<Longrightarrow> PQ_take q = (Some x, q') \<Longrightarrow> y \<in># pq_elems q \<Longrightarrow> \<not> lessItem y x"
  by (auto simp: pq_inv_def pq_elems_def queue_defs dest: pq_pop_least split: option.splits)

lemma PQ_TryPop_take: "PQ_TryPop now q = (Some x, q') \<Longrightarrow> PQ_take q = (Some x, q')"
  by (auto simp: PQ_TryPop_def split: if_splits)

lemma PQ_TryPop_due: "PQ_TryPop now q = (Some x, q') \<Longrightarrow> it_RunAt x \<le> now"
  by (auto simp: PQ_TryPop_def PQ_take_def dest!: pq_pop_first split: if_splits option.splits)

lemma PQ_TryPop_None:
  assumes "pq_inv q" and "PQ_TryPop now q = (None, q')" and "y \<in># pq_elems q"
  shows "\<not> it_RunAt y \<le> now"
proof -
  from assms(2,3) have "pq_items q \<noteq> []" and late: "it_RunAt (pq_items q ! 0) > now"
    by (auto simp: queue_defs pq_elems_def pq_pop_None split: if_splits option.splits)
  from assms(1,3) have "item_key (pq_items q ! 0) \<le> item_key y"
    by (auto simp: pq_inv_def pq_elems_def in_set_conv_nth intro: pq_heap_root)
  with late show ?thesis by (auto simp: item_key_def less_eq_prod_def)
qed

interpretation pqi: prio_container pq_inv pq_elems PQ_Push "PQ_TryPop now" lessItem "\<lambda>x. it_RunAt x \<le> now"
  for now
proof unfold_locales
qed (auto intro: PQ_Push_inv PQ_TryPop_inv dest: PQ_Push_elems PQ_TryPop_elems
    PQ_take_least [OF _ PQ_TryPop_take] PQ_TryPop_due PQ_TryPop_None)

subsection \<open>Waiting for an item\<close>

definition rounds_ok :: "'a pq_round list \<Rightarrow> bool" where
  "rounds_ok es \<longleftrightarrow> (\<forall>e \<in> set es. \<forall>q. pq_inv q \<longrightarrow> pq_inv (rd_others e q))"

lemma rounds_ok_Cons: "rounds_ok (e # es) \<Longrightarrow> pq_inv q \<Longrightarrow> pq_inv (rd_others e q) \<and> pq_inv (pq_wait e q)"
  by (auto simp: rounds_ok_def pq_wait_def pq_inv_def Let_def)

lemma PQ_PopTimeout_loop_spec:
  "PQ_PopTimeout_loop es deadline q = Some (res, q') \<Longrightarrow> pq_inv q \<Longrightarrow> rounds_ok es \<Longrightarrow>
   \<exists>e \<in> set es. \<exists>q1. pq_inv q1 \<and>
     (case res of
        Some x \<Rightarrow> PQ_TryPop (rd_now e) q1 = (Some x, q') \<and> rd_now2 e < deadline
      | None \<Rightarrow> q' = q1 \<and> (pq_closed q1 \<and> pq_items q1 = [] \<or> deadline \<le> rd_now e \<or> deadline \<le> rd_now2 e))"
proof (induction es arbitrary: q)
  case Nil
  then show ?case by simp
next
  case (Cons e es)
  have next_q: "pq_inv (pq_wait e q)" and ok: "rounds_ok es"
    using Cons.prems rounds_ok_Cons by (auto simp: rounds_ok_def)
  have rec: ?case if "PQ_PopTimeout_loop es deadline (pq_wait e q) = Some (res, q')"
    using Cons.IH [OF that next_q ok] by (metis list.set_intros(2))
  show ?case
  proof (cases "pq_items q = []")
    case True
    show ?thesis
    proof (cases "pq_closed q \<or> deadline \<le> rd_now e")
      case True
      with Cons.prems(1) \<open>pq_items q = []\<close> have "res = None" "q' = q" by (auto simp: Let_def split: if_splits)
      with True \<open>pq_items q = []\<close> Cons.prems(2) show ?thesis by auto
    next
      case False
      with Cons.prems(1) \<open>pq_items q = []\<close> rec show ?thesis by (simp add: Let_def)
    qed
  next
    case False
    note ne = this
    show ?thesis
    proof (cases "deadline \<le> rd_now2 e")
      case True
      with Cons.prems(1) ne have "res = None" "q' = q" by (auto simp: Let_def)
      with True Cons.prems(2) show ?thesis by auto
    next
      case False
      show ?thesis
      proof (cases "it_RunAt (pq_items q ! 0) \<le> rd_now e")
        case True
        with ne False Cons.prems have take: "PQ_take q = (res, q')" by (simp add: Let_def)
        moreover obtain x where "res = Some x"
          using take ne by (auto simp: PQ_take_def pq_pop_None split: option.splits)
        ultimately show ?thesis
          using ne False True Cons.prems(2) by (auto simp: PQ_TryPop_def)
      next
        case later: False
        with ne False Cons.prems rec show ?thesis by (simp add: Let_def)
      qed
    qed
  qed
qed

lemma PQ_PopTimeout_loop_returns:
  "e \<in> set es \<Longrightarrow> deadline \<le> rd_now e \<Longrightarrow> deadline \<le> rd_now2 e \<Longrightarrow>
   \<exists>r. PQ_PopTimeout_loop es deadline q = Some r"
  by (induction es deadline q rule: PQ_PopTimeout_loop.induct) (auto simp: Let_def)

subsection \<open>Properties\<close>

text \<open>Concrete items for the witnesses.\<close>

definition ex_item :: "'a \<Rightarrow> int \<Rightarrow> 64 word \<Rightarrow> time \<Rightarrow> 'a item" where
  "ex_item v p s t = \<lparr>it_Value = v, it_Priority = p, it_Seq = s, it_RunAt = t\<rparr>"

definition ex_queue :: "nat pqueue" where
  "ex_queue = \<lparr>pq_items = [ex_item 1 10 3 5, ex_item 2 0 1 5, ex_item 3 0 2 900], pq_cap = 3,
     pq_closed = False, pq_wake = False\<rparr>"

lemma ex_queue_inv: "pq_inv ex_queue"
  by (auto simp: pq_inv_def ex_queue_def ex_item_def pq_heap_def parent_def item_key_def less_Suc_eq
      nth_Cons' less_eq_prod_def)

text \<open>C12. Draining the priority queue at a time \<open>now\<close> delivers exactly the items that are
  due, ordered by run time, then by higher priority, then by submission number; every item that
  is not yet due stays.  In particular a due item never waits behind a delayed one.\<close>

theorem PQ_drain_order:
  assumes "pq_inv q" and "length (pq_items q) \<le> n" and "drain (PQ_TryPop now) n q = (out, r)"
  shows "sorted_wrt (\<lambda>a b. \<not> lessItem b a) out \<and>
    mset out = filter_mset (\<lambda>x. it_RunAt x \<le> now) (pq_elems q) \<and>
    pq_elems r = filter_mset (\<lambda>x. \<not> it_RunAt x \<le> now) (pq_elems q)"
proof (intro conjI)
  show "sorted_wrt (\<lambda>a b. \<not> lessItem b a) out"
    by (rule pqi.drain_sorted [OF assms(1,3)])
  show due: "mset out = filter_mset (\<lambda>x. it_RunAt x \<le> now) (pq_elems q)"
    using assms(2) by (intro pqi.drain_complete [OF assms(1) _ assms(3)]) (simp add: pq_elems_def)
  have "pq_elems q = pq_elems r + mset out"
    using pqi.drain_conserves [OF assms(1,3)] by simp
  with due multiset_partition [of "pq_elems q" "\<lambda>x. it_RunAt x \<le> now"]
  show "pq_elems r = filter_mset (\<lambda>x. \<not> it_RunAt x \<le> now) (pq_elems q)"
    by (metis add.commute add_left_cancel)
qed

theorem PQ_drain_order_witness:
  "map it_Value (fst (drain (PQ_TryPop 10) 3 ex_queue)) = [1, 2] \<and>
   pq_elems (snd (drain (PQ_TryPop 10) 3 ex_queue)) =
     filter_mset (\<lambda>x. \<not> it_RunAt x \<le> 10) (pq_elems ex_queue)"
proof
  show "map it_Value (fst (drain (PQ_TryPop 10) 3 ex_queue)) = [1, 2]"
    by code_simp
  show "pq_elems (snd (drain (PQ_TryPop 10) 3 ex_queue)) =
     filter_mset (\<lambda>x. \<not> it_RunAt x \<le> 10) (pq_elems ex_queue)"
    using PQ_drain_order [OF ex_queue_inv, where n = 3 and now = 10]
    by (simp add: ex_queue_def prod_eq_iff)
qed

text \<open>A push into a full queue under the drop-oldest policy succeeds, keeps the invariant and
  the bound, and makes room by throwing away one least item: the one that would have run next,
  whatever its submission number.  Everything else stays.\<close>

theorem PQ_DropOldestPush_evicts_next:
  assumes "pq_inv q" and "\<not> pq_closed q" and "pq_cap q > 0" and "int (length (pq_items q)) = pq_cap q"
    and "PQ_DropOldestPush it q = (ok, q')"
  shows "ok \<and> pq_inv q' \<and> int (length (pq_items q')) = pq_cap q \<and>
    (\<exists>x \<in># pq_elems q. (\<forall>y \<in># pq_elems q. \<not> lessItem y x) \<and>
       pq_elems q' = add_mset it (pq_elems q - {#x#}))"
proof -
  have "pq_items q \<noteq> []" using assms(3,4) by auto
  then obtain x rest where pop: "pq_pop (pq_items q) = Some (x, rest)"
    using pq_pop_None [of "pq_items q"] by (cases "pq_pop (pq_items q)") auto
  with assms(2-5) have "ok" and q': "q' = PQ_signalLocked (q\<lparr>pq_items := pq_push rest it\<rparr>)"
    by (auto simp: PQ_DropOldestPush_def)
  moreover have "\<forall>y \<in># pq_elems q. \<not> lessItem y x"
    using assms(1) pq_pop_least [OF _ pop] by (auto simp: pq_inv_def pq_elems_def)
  ultimately show ?thesis
    using pq_pop_mset [OF pop] pq_pop_length [OF pop] assms(4) PQ_DropOldestPush_inv [OF assms(1,5)]
    by (auto simp: pq_elems_def PQ_signalLocked_def pq_push_mset)
qed

theorem PQ_DropOldestPush_evicts_next_witness:
  "PQ_DropOldestPush (ex_item 4 0 4 7) ex_queue =
     (True, snd (PQ_DropOldestPush (ex_item 4 0 4 7) ex_queue)) \<and>
   (\<exists>x \<in># pq_elems ex_queue. pq_elems (snd (PQ_DropOldestPush (ex_item 4 0 4 7) ex_queue)) =
      add_mset (ex_item 4 0 4 7) (pq_elems ex_queue - {#x#}))"
  using PQ_DropOldestPush_evicts_next [OF ex_queue_inv, of "ex_item 4 0 4 7"]
  by (auto simp: ex_queue_def prod_eq_iff)

text \<open>C18. \<open>PopTimeout\<close> is linearizable and it returns.  Whatever the other goroutines do to the
  queue between its attempts (as long as they keep the invariant), a returned item is what an
  atomic \<open>TryPop\<close> returns at one of its rounds, strictly before the deadline; it returns empty-handed
  only from a closed empty queue or after the deadline; and one round at or after the deadline is
  enough for it to return.\<close>

theorem PQ_PopTimeout_correct:
  assumes "pq_inv q" and "rounds_ok es"
    and "e \<in> set es" and "now + timeout \<le> rd_now e" and "now + timeout \<le> rd_now2 e"
  shows "\<exists>res q'. PQ_PopTimeout es now timeout q = Some (res, q') \<and>
    (\<exists>f \<in> set es. \<exists>q1. pq_inv q1 \<and>
      (case res of
         Some x \<Rightarrow> PQ_TryPop (rd_now f) q1 = (Some x, q') \<and> rd_now2 f < now + timeout
       | None \<Rightarrow> q' = q1 \<and> (pq_closed q1 \<and> pq_items q1 = [] \<or>
           now + timeout \<le> rd_now f \<or> now + timeout \<le> rd_now2 f)))"
proof -
  obtain res q' where "PQ_PopTimeout_loop es (now + timeout) q = Some (res, q')"
    using PQ_PopTimeout_loop_returns [OF assms(3-5)] by fastforce
  with PQ_PopTimeout_loop_spec [OF this assms(1,2)] show ?thesis
    by (auto simp: PQ_PopTimeout_def)
qed

definition ex_rounds :: "nat pq_round list" where
  "ex_rounds =
     [\<lparr>rd_now = 0, rd_now2 = 0, rd_woken = True, rd_others = (\<lambda>q. snd (PQ_Push (ex_item 7 0 9 2) q))\<rparr>,
      \<lparr>rd_now = 3, rd_now2 = 3, rd_woken = False, rd_others = (\<lambda>q. q)\<rparr>,
      \<lparr>rd_now = 20, rd_now2 = 20, rd_woken = False, rd_others = (\<lambda>q. q)\<rparr>]"

lemma ex_rounds_ok: "rounds_ok ex_rounds"
  by (auto simp: rounds_ok_def ex_rounds_def intro: PQ_Push_inv [OF _ prod.collapse [symmetric]])

theorem PQ_PopTimeout_correct_witness:
  "map_option (\<lambda>(res, q'). map_option it_Value res) (PQ_PopTimeout ex_rounds 0 10 (NewPriorityQueue 4)) = Some (Some 7) \<and>
   (\<exists>res q'. PQ_PopTimeout ex_rounds 0 10 (NewPriorityQueue 4) = Some (res, q'))"
proof
  show "map_option (\<lambda>(res, q'). map_option it_Value res) (PQ_PopTimeout ex_rounds 0 10 (NewPriorityQueue 4)) = Some (Some 7)"
    by code_simp
  show "\<exists>res q'. PQ_PopTimeout ex_rounds 0 10 (NewPriorityQueue 4) = Some (res, q')"
    using PQ_PopTimeout_correct [OF pq_inv_New ex_rounds_ok, of "ex_rounds ! 2" 0 10 4]
    by (auto simp: ex_rounds_def)
qed

end
