(* ===== verification/Fifo_Queue.thy ===== *)
theory Fifo_Queue
  imports Queue_Interfaces
begin

text \<open>
  \<open>FIFO\<close> of \<open>queue/fifo.go\<close>: a fixed circular buffer with head and tail indices, a length
  and a closed flag.  The zero value of the type parameter, which freed cells are set to, is the
  field \<open>fq_zero\<close>.  A result \<open>(v, true)\<close> is \<open>Some v\<close>, a result \<open>(zero, false)\<close> is \<open>None\<close>.
  \<open>fifo_contents\<close> is the queue the buffer stands for, and \<open>fifo_inv\<close> says how the
  fields agree, that every cell outside the window holds the zero value included.

  The blocking calls take what the other goroutines did at each wait (and, for
  \<open>PopTimeout\<close>, the clock reading of the round).
\<close>

record 'a fifo =
  fq_buf :: "'a list"
  fq_head :: nat
  fq_tail :: nat
  fq_len :: nat
  fq_closed :: bool
  fq_zero :: 'a

definition NewFIFO :: "'a \<Rightarrow> int \<Rightarrow> 'a fifo" where
  "NewFIFO z capacity =
     (let capacity = (if capacity \<le> 0 then 1 else capacity)
      in \<lparr>fq_buf = replicate (nat capacity) z, fq_head = 0, fq_tail = 0, fq_len = 0,
          fq_closed = False, fq_zero = z\<rparr>)"

definition FIFO_Len :: "'a fifo \<Rightarrow> int" where
  "FIFO_Len q = int (fq_len q)"

definition FIFO_Cap :: "'a fifo \<Rightarrow> int" where
  "FIFO_Cap q = int (length (fq_buf q))"

definition FIFO_Close :: "'a fifo \<Rightarrow> 'a fifo" where
  "FIFO_Close q = q\<lparr>fq_closed := True\<rparr>"

text \<open>The store into the buffer and the step of the tail, the same lines in \<open>TryPush\<close> and
  \<open>Push\<close>.\<close>

definition fifo_store :: "'a \<Rightarrow> 'a fifo \<Rightarrow> 'a fifo" where
  "fifo_store v q =
     (let buf = (fq_buf q)[fq_tail q := v];
          tail = fq_tail q + 1;
          tail = (if tail = length (fq_buf q) then 0 else tail)
      in q\<lparr>fq_buf := buf, fq_tail := tail, fq_len := fq_len q + 1\<rparr>)"

definition FIFO_TryPush :: "'a \<Rightarrow> 'a fifo \<Rightarrow> bool \<times> 'a fifo" where
  "FIFO_TryPush v q =
     (if fq_closed q \<or> fq_len q = length (fq_buf q) then (False, q)
      else (True, fifo_store v q))"

fun FIFO_Push :: "('a fifo \<Rightarrow> 'a fifo) list \<Rightarrow> 'a \<Rightarrow> 'a fifo \<Rightarrow> (bool \<times> 'a fifo) option" where
  "FIFO_Push [] v q =
     (if fq_len q = length (fq_buf q) \<and> \<not> fq_closed q then None
      else if fq_closed q then Some (False, q)
      else Some (True, fifo_store v q))"
| "FIFO_Push (others # es) v q =
     (if fq_len q = length (fq_buf q) \<and> \<not> fq_closed q then FIFO_Push es v (others q)
      else if fq_closed q then Some (False, q)
      else Some (True, fifo_store v q))"

definition FIFO_popLocked :: "'a fifo \<Rightarrow> 'a \<times> 'a fifo" where
  "FIFO_popLocked q =
     (let v = fq_buf q ! fq_head q;
          buf = (fq_buf q)[fq_head q := fq_zero q];
          head = fq_head q + 1;
          head = (if head = length (fq_buf q) then 0 else head)
      in (v, q\<lparr>fq_buf := buf, fq_head := head, fq_len := fq_len q - 1\<rparr>))"

definition FIFO_TryPop :: "'a fifo \<Rightarrow> 'a option \<times> 'a fifo" where
  "FIFO_TryPop q =
     (if fq_len q = 0 then (None, q)
      else case FIFO_popLocked q of (v, q') \<Rightarrow> (Some v, q'))"

fun FIFO_Pop :: "('a fifo \<Rightarrow> 'a fifo) list \<Rightarrow> 'a fifo \<Rightarrow> ('a option \<times> 'a fifo) option" where
  "FIFO_Pop [] q =
     (if fq_len q = 0 \<and> \<not> fq_closed q then None
      else if fq_len q = 0 \<and> fq_closed q then Some (None, q)
      else case FIFO_popLocked q of (v, q') \<Rightarrow> Some (Some v, q'))"
| "FIFO_Pop (others # es) q =
     (if fq_len q = 0 \<and> \<not> fq_closed q then FIFO_Pop es (others q)
      else if fq_len q = 0 \<and> fq_closed q then Some (None, q)
      else case FIFO_popLocked q of (v, q') \<Rightarrow> Some (Some v, q'))"

definition minDuration :: "duration \<Rightarrow> duration \<Rightarrow> duration" where
  "minDuration a b = (if a < b then a else b)"

text \<open>A round of \<open>PopTimeout\<close> is the clock reading at its top and what the others do while
  this goroutine sleeps; the length of the sleep is \<open>minDuration remaining Millisecond\<close>, which
  the others may use, so it is passed to them.\<close>

fun FIFO_PopTimeout_loop ::
  "(time \<times> (duration \<Rightarrow> 'a fifo \<Rightarrow> 'a fifo)) list \<Rightarrow> time \<Rightarrow> 'a fifo \<Rightarrow> ('a option \<times> 'a fifo) option"
where
  "FIFO_PopTimeout_loop [] deadline q =
     (if fq_len q = 0 \<and> \<not> fq_closed q then None
      else if fq_len q = 0 \<and> fq_closed q then Some (None, q)
      else case FIFO_popLocked q of (v, q') \<Rightarrow> Some (Some v, q'))"
| "FIFO_PopTimeout_loop ((now, others) # es) deadline q =
     (if fq_len q = 0 \<and> \<not> fq_closed q then
        (let remaining = deadline - now
         in if remaining \<le> 0 then Some (None, q)
            else FIFO_PopTimeout_loop es deadline (others (minDuration remaining Millisecond) q))
      else if fq_len q = 0 \<and> fq_closed q then Some (None, q)
      else case FIFO_popLocked q of (v, q') \<Rightarrow> Some (Some v, q'))"

definition FIFO_PopTimeout ::
  "(time \<times> (duration \<Rightarrow> 'a fifo \<Rightarrow> 'a fifo)) list \<Rightarrow> time \<Rightarrow> duration \<Rightarrow> 'a fifo \<Rightarrow> ('a option \<times> 'a fifo) option"
where
  "FIFO_PopTimeout es now d q =
     (if d \<le> 0 then Some (FIFO_TryPop q) else FIFO_PopTimeout_loop es (now + d) q)"

subsection \<open>Abstraction and invariant\<close>

definition fifo_contents :: "'a fifo \<Rightarrow> 'a list" where
  "fifo_contents q = map (\<lambda>i. fq_buf q ! ((fq_head q + i) mod length (fq_buf q))) [0..<fq_len q]"

definition fifo_inv :: "'a fifo \<Rightarrow> bool" where
  "fifo_inv q \<longleftrightarrow>
     fq_buf q \<noteq> [] \<and> fq_head q < length (fq_buf q) \<and> fq_len q \<le> length (fq_buf q) \<and>
     fq_tail q = (fq_head q + fq_len q) mod length (fq_buf q) \<and>
     (\<forall>i. fq_len q \<le> i \<longrightarrow> i < length (fq_buf q) \<longrightarrow>
        fq_buf q ! ((fq_head q + i) mod length (fq_buf q)) = fq_zero q)"

lemma length_fifo_contents [simp]: "length (fifo_contents q) = fq_len q"
  by (simp add: fifo_contents_def)

lemma fifo_contents_Nil [simp]: "fifo_contents q = [] \<longleftrightarrow> fq_len q = 0"
  by (metis length_0_conv length_fifo_contents)

lemma fifo_store_frame [simp]:
  "length (fq_buf (fifo_store v q)) = length (fq_buf q)"
  "fq_closed (fifo_store v q) = fq_closed q"
  by (simp_all add: fifo_store_def Let_def)

lemma fifo_store:
  assumes i: "fifo_inv q" and room: "fq_len q < length (fq_buf q)"
  shows "fifo_inv (fifo_store v q)" and "fifo_contents (fifo_store v q) = fifo_contents q @ [v]"
proof -
  let ?n = "length (fq_buf q)"
  have h: "fq_head q < ?n" and t: "fq_tail q = (fq_head q + fq_len q) mod ?n"
    using i by (auto simp: fifo_inv_def)
  have tl: "fq_tail q < ?n" unfolding t by (rule mod_less_divisor) (use h in linarith)
  have cell: "fq_buf (fifo_store v q) ! ((fq_head q + j) mod ?n) =
      (if j = fq_len q then v else fq_buf q ! ((fq_head q + j) mod ?n))" if "j < ?n" for j
    using that room h t tl by (auto simp: fifo_store_def Let_def nth_list_update mod_wrap_inj)
  have fields: "fq_head (fifo_store v q) = fq_head q" "fq_len (fifo_store v q) = Suc (fq_len q)"
    "fq_zero (fifo_store v q) = fq_zero q"
    by (simp_all add: fifo_store_def Let_def)
  have "fq_tail (fifo_store v q) = (fq_tail q + 1) mod ?n"
    using tl by (auto simp: fifo_store_def Let_def)
  also have "\<dots> = (fq_head q + Suc (fq_len q)) mod ?n"
    unfolding t by (simp add: mod_simps)
  finally have tail: "fq_tail (fifo_store v q) = (fq_head q + Suc (fq_len q)) mod ?n" .
  have z: "fq_buf q ! ((fq_head q + j) mod ?n) = fq_zero q" if "fq_len q \<le> j" "j < ?n" for j
    using i that by (simp add: fifo_inv_def)
  have ne: "fq_buf (fifo_store v q) \<noteq> []"
    using room fifo_store_frame(1) [of v q] by (metis list.size(3) not_less_zero)
  show "fifo_inv (fifo_store v q)"
    unfolding fifo_inv_def fields fifo_store_frame tail
    using ne room h cell z by auto
  show "fifo_contents (fifo_store v q) = fifo_contents q @ [v]"
    unfolding fifo_contents_def fields fifo_store_frame
    using room cell by auto
qed

lemma FIFO_popLocked_frame:
  "FIFO_popLocked q = (v, q') \<Longrightarrow> length (fq_buf q') = length (fq_buf q) \<and> fq_closed q' = fq_closed q"
  by (auto simp: FIFO_popLocked_def Let_def)

lemma FIFO_popLocked:
  assumes i: "fifo_inv q" and ne: "0 < fq_len q" and pop: "FIFO_popLocked q = (v, q')"
  shows "fifo_inv q'" and "fifo_contents q = v # fifo_contents q'"
proof -
  let ?n = "length (fq_buf q)"
  have h: "fq_head q < ?n" and t: "fq_tail q = (fq_head q + fq_len q) mod ?n" and l: "fq_len q \<le> ?n"
    using i by (auto simp: fifo_inv_def)
  have q': "v = fq_buf q ! fq_head q" "fq_head q' = (fq_head q + 1) mod ?n" "fq_len q' = fq_len q - 1"
    "fq_zero q' = fq_zero q" "fq_tail q' = fq_tail q" "length (fq_buf q') = ?n"
    "fq_buf q' = (fq_buf q)[fq_head q := fq_zero q]"
    using pop h by (auto simp: FIFO_popLocked_def Let_def)
  have index: "(fq_head q' + j) mod ?n = (fq_head q + Suc j) mod ?n" for j
    unfolding q' by (simp add: mod_simps)
  have cell: "fq_buf q' ! ((fq_head q' + j) mod ?n) =
      (if Suc j = ?n then fq_zero q else fq_buf q ! ((fq_head q + Suc j) mod ?n))" if "j < ?n" for j
    using that h unfolding index q'(7) by (auto simp: nth_list_update mod_wrap simp del: add_Suc_right)
  show "fifo_inv q'"
    unfolding fifo_inv_def q'(3-6)
  proof (intro conjI allI impI)
    show "fq_tail q = (fq_head q' + (fq_len q - 1)) mod ?n"
      unfolding index t using ne by simp
    show "fq_head q' < ?n" unfolding q'(2) by (rule mod_less_divisor) (use h in linarith)
    show "fq_buf q' \<noteq> []" using h q'(6) by auto
    show "fq_len q - 1 \<le> ?n" using l by simp
  next
    fix j assume j: "fq_len q - 1 \<le> j" "j < ?n"
    then have "fq_len q \<le> Suc j" using ne by simp
    then have "fq_buf q ! ((fq_head q + Suc j) mod ?n) = fq_zero q" if "Suc j < ?n"
      using i that unfolding fifo_inv_def by blast
    with cell [of j] j show "fq_buf q' ! ((fq_head q' + j) mod ?n) = fq_zero q"
      by (cases "Suc j = ?n") auto
  qed
  have "fifo_contents q' = map (\<lambda>j. fq_buf q ! ((fq_head q + Suc j) mod ?n)) [0..<fq_len q - 1]"
    unfolding fifo_contents_def q'(3,6) using cell l by auto
  moreover have "[0..<fq_len q] = 0 # map Suc [0..<fq_len q - 1]"
    using ne by (simp add: map_Suc_upt upt_conv_Cons)
  ultimately show "fifo_contents q = v # fifo_contents q'"
    using h q'(1) by (simp add: fifo_contents_def)
qed

declare FIFO_TryPush_def [queue_defs] FIFO_TryPop_def [queue_defs] FIFO_Close_def [queue_defs]

lemma fifo_inv_New: "fifo_inv (NewFIFO z n)" "fifo_contents (NewFIFO z n) = []"
  by (auto simp: NewFIFO_def fifo_inv_def fifo_contents_def)

lemma FIFO_Close_keeps [simp]:
  "fifo_inv (FIFO_Close q) = fifo_inv q" "fifo_contents (FIFO_Close q) = fifo_contents q"
  by (simp_all add: fifo_inv_def fifo_contents_def queue_defs)

interpretation fq: bounded_fifo fifo_inv fifo_contents FIFO_TryPush FIFO_TryPop
  "\<lambda>q. length (fq_buf q)" fq_closed
proof unfold_locales
  fix q :: "'a fifo" and x ok q'
  assume i: "fifo_inv q" and p: "FIFO_TryPush x q = (ok, q')"
  have "fq_len q \<le> length (fq_buf q)" using i by (simp add: fifo_inv_def)
  with i p show "fifo_inv q'" "fifo_contents q' = fifo_contents q @ (if ok then [x] else [])"
    "ok \<longleftrightarrow> \<not> fq_closed q \<and> length (fifo_contents q) < length (fq_buf q)"
    by (auto simp: queue_defs fifo_store split: if_splits)
next
  fix q :: "'a fifo" and res q'
  assume i: "fifo_inv q" and p: "FIFO_TryPop q = (res, q')"
  show "fifo_inv q'" and "fifo_contents q = (case res of None \<Rightarrow> [] | Some x \<Rightarrow> [x]) @ fifo_contents q' \<and>
      (res = None \<longleftrightarrow> fifo_contents q = [])"
    using p i FIFO_popLocked [OF i] by (auto simp: queue_defs split: if_splits prod.splits)
next
  fix q :: "'a fifo"
  assume "fifo_inv q" then show "length (fifo_contents q) \<le> length (fq_buf q)"
    by (simp add: fifo_inv_def)
next
  fix q :: "'a fifo" and x ok q'
  assume "FIFO_TryPush x q = (ok, q')"
  then show "length (fq_buf q') = length (fq_buf q) \<and> fq_closed q' = fq_closed q"
    by (auto simp: queue_defs split: if_splits)
next
  fix q :: "'a fifo" and res q'
  assume "FIFO_TryPop q = (res, q')"
  then show "length (fq_buf q') = length (fq_buf q) \<and> fq_closed q' = fq_closed q"
    by (auto simp: queue_defs dest: FIFO_popLocked_frame split: if_splits prod.splits)
qed

subsection \<open>The blocking calls\<close>

text \<open>What the others do while the mutex is free keeps the invariant.\<close>

definition others_ok :: "('a fifo \<Rightarrow> 'a fifo) \<Rightarrow> bool" where
  "others_ok f \<longleftrightarrow> (\<forall>q. fifo_inv q \<longrightarrow> fifo_inv (f q))"

definition sleep_rounds_ok :: "(time \<times> (duration \<Rightarrow> 'a fifo \<Rightarrow> 'a fifo)) list \<Rightarrow> bool" where
  "sleep_rounds_ok es \<longleftrightarrow> (\<forall>(now, others) \<in> set es. \<forall>d. 0 < d \<longrightarrow> d \<le> Millisecond \<longrightarrow> others_ok (others d))"

lemma sleep_rounds_ok_Cons:
  "sleep_rounds_ok ((now, others) # es) \<longleftrightarrow>
     (\<forall>d. 0 < d \<longrightarrow> d \<le> Millisecond \<longrightarrow> others_ok (others d)) \<and> sleep_rounds_ok es"
  by (auto simp: sleep_rounds_ok_def)

lemma FIFO_TryPop_closed_or_nonempty:
  "\<not> (fq_len q = 0 \<and> \<not> fq_closed q) \<Longrightarrow>
   (if fq_len q = 0 \<and> fq_closed q then Some (None, q)
    else case FIFO_popLocked q of (v, q') \<Rightarrow> Some (Some v, q')) = Some (FIFO_TryPop q)"
  by (auto simp: FIFO_TryPop_def split: prod.split)

lemma FIFO_PopTimeout_loop_spec:
  "FIFO_PopTimeout_loop es deadline q = Some (res, q') \<Longrightarrow> fifo_inv q \<Longrightarrow> sleep_rounds_ok es \<Longrightarrow>
   \<exists>q1. fifo_inv q1 \<and> FIFO_TryPop q1 = (res, q') \<and>
     (res = None \<longrightarrow> fq_closed q1 \<or> (\<exists>(now, others) \<in> set es. deadline \<le> now))"
proof (induction es deadline q rule: FIFO_PopTimeout_loop.induct)
  case (1 deadline q)
  then show ?case
    by (cases "fq_len q = 0 \<and> \<not> fq_closed q")
      (auto simp: FIFO_TryPop_closed_or_nonempty queue_defs split: if_splits prod.splits)
next
  case (2 now others es deadline q)
  show ?case
  proof (cases "fq_len q = 0 \<and> \<not> fq_closed q")
    case False
    then have "FIFO_TryPop q = (res, q')" "res = None \<longrightarrow> fq_closed q"
      using "2.prems"(1) by (auto simp: queue_defs split: if_splits prod.splits)
    with "2.prems"(2) show ?thesis by blast
  next
    case True
    show ?thesis
    proof (cases "deadline \<le> now")
      case late: True
      with True "2.prems" show ?thesis by (auto simp: queue_defs)
    next
      case early: False
      let ?q = "others (minDuration (deadline - now) Millisecond) q"
      have "fifo_inv ?q"
        using "2.prems"(2,3) early by (auto simp: sleep_rounds_ok_Cons others_ok_def minDuration_def)
      with "2.IH" [OF True refl] True early "2.prems" show ?thesis
        by (auto simp: sleep_rounds_ok_Cons)
    qed
  qed
qed

lemma FIFO_PopTimeout_loop_returns:
  "(now, others) \<in> set es \<Longrightarrow> deadline \<le> now \<Longrightarrow> \<exists>r. FIFO_PopTimeout_loop es deadline q = Some r"
  by (induction es deadline q rule: FIFO_PopTimeout_loop.induct)
    (auto simp: Let_def split: prod.split)

lemma FIFO_Push_spec:
  "FIFO_Push es v q = Some (ok, q') \<Longrightarrow> fifo_inv q \<Longrightarrow> list_all others_ok es \<Longrightarrow>
   \<exists>q1. fifo_inv q1 \<and> FIFO_TryPush v q1 = (ok, q') \<and> (\<not> ok \<longrightarrow> fq_closed q1)"
proof (induction es v q rule: FIFO_Push.induct)
  case (1 v q)
  then show ?case by (auto simp: queue_defs split: if_splits)
next
  case (2 others es v q)
  show ?case
  proof (cases "fq_len q = length (fq_buf q) \<and> \<not> fq_closed q")
    case True
    with 2 show ?thesis by (auto simp: others_ok_def)
  next
    case False
    with "2.prems" show ?thesis by (auto simp: queue_defs split: if_splits)
  qed
qed

subsection \<open>Properties\<close>

text \<open>C16. The circular buffer is a queue.  For every capacity and every sequence of \<open>TryPush\<close>
  and \<open>TryPop\<close> requests on a new \<open>FIFO\<close>, the values handed out followed by those still inside
  are exactly the accepted values in the order they were pushed; the indices stay in range, the
  length stays within the capacity and every freed cell is cleared.\<close>

theorem FIFO_order:
  "case queue_run FIFO_TryPush FIFO_TryPop ops (NewFIFO z n) of
     (acc, out, r) \<Rightarrow> acc = out @ fifo_contents r \<and> fifo_inv r"
proof -
  obtain acc out r where run: "queue_run FIFO_TryPush FIFO_TryPop ops (NewFIFO z n) = (acc, out, r)"
    using prod_cases3 by blast
  with fq.run_fifo [OF fifo_inv_New(1) run] fq.run_conserves [OF fifo_inv_New(1) run]
  show ?thesis by (simp add: fifo_inv_New)
qed

text \<open>Closing a \<open>FIFO\<close> refuses every later push but loses nothing: draining the closed queue
  still hands out everything it held, in order, and leaves it empty.\<close>

theorem FIFO_Close_drains:
  assumes "fifo_inv q" and "fq_len q \<le> n" and "drain FIFO_TryPop n (FIFO_Close q) = (out, r)"
  shows "out = fifo_contents q \<and> fifo_contents r = [] \<and>
    (\<forall>v. FIFO_TryPush v (FIFO_Close q) = (False, FIFO_Close q))"
proof -
  have i: "fifo_inv (FIFO_Close q)" using assms(1) by simp
  have l: "length (fifo_contents (FIFO_Close q)) \<le> n"
    using assms(2) by simp
  have "\<forall>v. FIFO_TryPush v (FIFO_Close q) = (False, FIFO_Close q)"
    by (simp add: FIFO_TryPush_def FIFO_Close_def)
  with fq.drain_all [OF i l assms(3)] show ?thesis by simp
qed

definition ex_fifo :: "nat fifo" where
  "ex_fifo = snd (FIFO_TryPush 8 (snd (FIFO_TryPop (snd (FIFO_TryPush 7 (snd (FIFO_TryPush 6 (NewFIFO 0 2))))))))"

lemma ex_fifo_inv: "fifo_inv ex_fifo"
  unfolding ex_fifo_def
  by (rule fq.fifo_push_inv [OF _ prod.collapse [symmetric]], rule fq.fifo_pop_inv [OF _ prod.collapse [symmetric]],
      rule fq.fifo_push_inv [OF _ prod.collapse [symmetric]], rule fq.fifo_push_inv [OF _ prod.collapse [symmetric]],
      rule fifo_inv_New(1))

theorem FIFO_Close_drains_witness:
  "fst (drain FIFO_TryPop 2 (FIFO_Close ex_fifo)) = [7, 8] \<and>
   fst (drain FIFO_TryPop 2 (FIFO_Close ex_fifo)) = fifo_contents ex_fifo"
proof
  show "fst (drain FIFO_TryPop 2 (FIFO_Close ex_fifo)) = [7, 8]" by code_simp
  have "fq_len ex_fifo \<le> 2" by code_simp
  from FIFO_Close_drains [OF ex_fifo_inv this prod.collapse [symmetric]]
  show "fst (drain FIFO_TryPop 2 (FIFO_Close ex_fifo)) = fifo_contents ex_fifo" by blast
qed

text \<open>\<open>PopTimeout\<close> of the \<open>FIFO\<close> returns once a round reads the clock at or after the deadline,
  and whatever the others do meanwhile its result is the result of an atomic \<open>TryPop\<close>; it comes
  back empty-handed only from a closed queue or after the deadline.\<close>

theorem FIFO_PopTimeout_correct:
  assumes "fifo_inv q" and "sleep_rounds_ok es" and "0 < d"
    and "(t, others) \<in> set es" and "now + d \<le> t"
  shows "\<exists>res q'. FIFO_PopTimeout es now d q = Some (res, q') \<and>
    (\<exists>q1. fifo_inv q1 \<and> FIFO_TryPop q1 = (res, q') \<and>
      (res = None \<longrightarrow> fq_closed q1 \<or> (\<exists>(t, others) \<in> set es. now + d \<le> t)))"
proof -
  obtain res q' where r: "FIFO_PopTimeout_loop es (now + d) q = Some (res, q')"
    using FIFO_PopTimeout_loop_returns [OF assms(4,5)] by fastforce
  show ?thesis
    using FIFO_PopTimeout_loop_spec [OF r assms(1,2)] r assms(3) by (simp add: FIFO_PopTimeout_def)
qed

definition ex_sleeps :: "(time \<times> (duration \<Rightarrow> nat fifo \<Rightarrow> nat fifo)) list" where
  "ex_sleeps = [(0, \<lambda>d q. q), (1, \<lambda>d q. snd (FIFO_TryPush 5 q)), (99, \<lambda>d q. q)]"

lemma ex_sleeps_ok: "sleep_rounds_ok ex_sleeps"
  by (auto simp: ex_sleeps_def sleep_rounds_ok_def others_ok_def
      intro: fq.fifo_push_inv [OF _ prod.collapse [symmetric]])

theorem FIFO_PopTimeout_correct_witness:
  "map_option fst (FIFO_PopTimeout ex_sleeps 0 20 (NewFIFO 0 2)) = Some (Some 5) \<and>
   (\<exists>res q' q1. FIFO_PopTimeout ex_sleeps 0 20 (NewFIFO 0 2) = Some (res, q') \<and> FIFO_TryPop q1 = (res, q'))"
proof
  show "map_option fst (FIFO_PopTimeout ex_sleeps 0 20 (NewFIFO 0 2)) = Some (Some 5)" by code_simp
  show "\<exists>res q' q1. FIFO_PopTimeout ex_sleeps 0 20 (NewFIFO 0 2) = Some (res, q') \<and> FIFO_TryPop q1 = (res, q')"
    using FIFO_PopTimeout_correct [OF fifo_inv_New(1) ex_sleeps_ok, of 20 99 "\<lambda>d q. q" 0 0 2]
    by (auto simp: ex_sleeps_def)
qed

end
