(* ===== verification/Ring_Queue.thy ===== *)
theory Ring_Queue
  imports Queue_Interfaces
begin

text \<open>
  \<open>Ring\<close> of \<open>queue/ring.go\<close>: a bounded buffer whose cells carry sequence numbers.  All
  counters are unsigned 64-bit words that wrap around, the cell of a position is the position
  masked, and the comparison of sequence numbers is the signed reading of their wrapped
  difference, as in the code.

  This theory is about one goroutine at a time: the atomic loads and compare-and-swap of an
  operation see no other operation in between.  The retry loops are partial functions, \<open>None\<close>
  being a loop that spins for ever.  A result \<open>(v, true)\<close> is \<open>Some v\<close>.
\<close>

unbundle bit_operations_syntax

record 'a ringCell =
  rc_seq :: "64 word"
  rc_val :: 'a

record 'a ring =
  rg_mask :: "64 word"
  rg_cells :: "'a ringCell list"
  rg_head :: "64 word"
  rg_tail :: "64 word"
  rg_zero :: 'a

partial_function (option) ring_size :: "64 word \<Rightarrow> 64 word \<Rightarrow> 64 word option" where
  "ring_size sz n = (if n < sz then ring_size sz (push_bit 1 n) else Some n)"

text \<open>\<open>make\<close> panics for a length beyond \<open>max_len\<close>, the greatest length of a slice of such cells: it is an
  \<open>int\<close>, so below \<open>2 ^ 63\<close>, and how much less depends on the size of a cell and on the machine.\<close>

datatype 'a new_ring = RingMade "'a ring" | RingPanics

definition NewRing :: "nat \<Rightarrow> 'a \<Rightarrow> 64 word \<Rightarrow> 'a new_ring option" where
  "NewRing max_len z sz =
     (let sz = (if sz < 2 then 2 else sz)
      in case ring_size sz 1 of
           None \<Rightarrow> None
         | Some n \<Rightarrow> Some
             (if unat n > max_len then RingPanics
              else RingMade \<lparr>rg_mask = n - 1,
                rg_cells = map (\<lambda>i. \<lparr>rc_seq = of_nat i, rc_val = z\<rparr>) [0..<unat n],
                rg_head = 0, rg_tail = 0, rg_zero = z\<rparr>))"

definition Ring_Cap :: "'a ring \<Rightarrow> 64 word" where
  "Ring_Cap r = of_nat (length (rg_cells r))"

definition Ring_Len :: "'a ring \<Rightarrow> 64 word" where
  "Ring_Len r = rg_tail r - rg_head r"

definition ring_cell :: "'a ring \<Rightarrow> 64 word \<Rightarrow> nat" where
  "ring_cell r pos = unat (pos AND rg_mask r)"

text \<open>The loop of \<open>TryPush\<close>: \<open>Some (Some pos)\<close> when the tail was moved from \<open>pos\<close>,
  \<open>Some None\<close> when the ring is full.\<close>

partial_function (option) ring_push_loop :: "'a ring \<Rightarrow> 64 word \<Rightarrow> 64 word option option" where
  "ring_push_loop r pos =
     (let seq = rc_seq (rg_cells r ! ring_cell r pos);
          dif = sint (seq - pos)
      in if dif = 0 then (if rg_tail r = pos then Some (Some pos) else ring_push_loop r pos)
         else if dif < 0 then Some None
         else ring_push_loop r (rg_tail r))"

definition Ring_TryPush :: "'a \<Rightarrow> 'a ring \<Rightarrow> (bool \<times> 'a ring) option" where
  "Ring_TryPush v r =
     (case ring_push_loop r (rg_tail r) of
        None \<Rightarrow> None
      | Some None \<Rightarrow> Some (False, r)
      | Some (Some pos) \<Rightarrow>
          Some (True, r\<lparr>rg_tail := pos + 1,
            rg_cells := (rg_cells r)[ring_cell r pos := \<lparr>rc_seq = pos + 1, rc_val = v\<rparr>]\<rparr>))"

partial_function (option) ring_pop_loop :: "'a ring \<Rightarrow> 64 word \<Rightarrow> 64 word option option" where
  "ring_pop_loop r pos =
     (let seq = rc_seq (rg_cells r ! ring_cell r pos);
          dif = sint (seq - (pos + 1))
      in if dif = 0 then (if rg_head r = pos then Some (Some pos) else ring_pop_loop r pos)
         else if dif < 0 then Some None
         else ring_pop_loop r (rg_head r))"

definition Ring_TryPop :: "'a ring \<Rightarrow> ('a option \<times> 'a ring) option" where
  "Ring_TryPop r =
     (case ring_pop_loop r (rg_head r) of
        None \<Rightarrow> None
      | Some None \<Rightarrow> Some (None, r)
      | Some (Some pos) \<Rightarrow>
          Some (Some (rc_val (rg_cells r ! ring_cell r pos)),
            r\<lparr>rg_head := pos + 1,
              rg_cells := (rg_cells r)[ring_cell r pos :=
                \<lparr>rc_seq = pos + rg_mask r + 1, rc_val = rg_zero r\<rparr>]\<rparr>))"

declare ring_size.simps [code] ring_push_loop.simps [code] ring_pop_loop.simps [code]

subsection \<open>The size loop\<close>

lemma ring_size_zero_spins: "0 < sz \<Longrightarrow> ring_size sz 0 = None"
proof (rule ccontr)
  assume "0 < sz" and "ring_size sz 0 \<noteq> None"
  then obtain r where r: "ring_size sz 0 = Some r" by auto
  have "\<not> (0 < sz \<and> (0 :: 64 word) = 0)"
  proof (rule ring_size.raw_induct [where P = "\<lambda>sz n r. \<not> (0 < sz \<and> n = 0)", OF _ r])
    fix f :: "64 word \<Rightarrow> 64 word \<Rightarrow> 64 word option" and sz n r
    assume IH: "\<And>sz n r. f sz n = Some r \<Longrightarrow> \<not> (0 < sz \<and> n = 0)"
      and eq: "(if n < sz then f sz (push_bit 1 n) else Some n) = Some r"
    show "\<not> (0 < sz \<and> n = 0)" using eq IH [of sz 0] by auto
  qed
  with \<open>0 < sz\<close> show False by simp
qed

lemma unat_pow2: "k < 64 \<Longrightarrow> unat (2 ^ k :: 64 word) = 2 ^ k"
proof -
  assume "k < 64"
  then have "(2 :: nat) ^ k < 2 ^ 64" by (intro power_strict_increasing) auto
  moreover have "(2 ^ k :: 64 word) = of_nat (2 ^ k)" by simp
  ultimately show ?thesis
    by (simp only: unat_of_nat len_num1 len_bit0) (simp add: take_bit_nat_eq_self)
qed

lemma push_bit_pow2: "push_bit 1 (2 ^ k :: 64 word) = 2 ^ Suc k"
  by (simp add: push_bit_eq_mult mult.commute)

lemma ring_size_pow2:
  "k \<le> 63 \<Longrightarrow> (\<forall>j < k. 2 ^ j < unat sz) \<Longrightarrow> unat sz \<le> 2 ^ 63 \<Longrightarrow>
   \<exists>m \<le> 63. k \<le> m \<and> ring_size sz (2 ^ k) = Some (2 ^ m) \<and> unat sz \<le> 2 ^ m \<and> (\<forall>j < m. 2 ^ j < unat sz)"
proof (induction "63 - k" arbitrary: k)
  case 0
  then have "k = 63" by simp
  with 0 have "\<not> (2 ^ 63 :: 64 word) < sz" by (simp add: word_less_nat_alt)
  with \<open>k = 63\<close> 0 show ?case by (intro exI [of _ 63]) (simp add: ring_size.simps)
next
  case (Suc d)
  show ?case
  proof (cases "(2 ^ k :: 64 word) < sz")
    case True
    with Suc.hyps(2) have lt: "2 ^ k < unat sz" by (simp add: word_less_nat_alt unat_pow2)
    from True have step: "ring_size sz (2 ^ k) = ring_size sz (2 ^ Suc k)"
      by (subst ring_size.simps) (simp only: push_bit_pow2 if_True)
    have "\<forall>j < Suc k. 2 ^ j < unat sz" using lt Suc.prems(2) by (auto simp: less_Suc_eq)
    moreover have "d = 63 - Suc k" "Suc k \<le> 63" using Suc.hyps(2) by auto
    ultimately obtain m where "m \<le> 63" "Suc k \<le> m" "ring_size sz (2 ^ Suc k) = Some (2 ^ m)"
      "unat sz \<le> 2 ^ m" "\<forall>j < m. 2 ^ j < unat sz"
      using Suc.hyps(1) [of "Suc k"] Suc.prems(3) by blast
    with step show ?thesis by (intro exI [of _ m]) simp
  next
    case False
    with Suc.hyps(2) have "unat sz \<le> 2 ^ k" by (simp add: word_less_nat_alt unat_pow2 not_less)
    with False Suc.prems show ?thesis by (intro exI [of _ k]) (simp add: ring_size.simps)
  qed
qed

lemma ring_size_too_big:
  assumes "2 ^ 63 < unat sz"
  shows "k \<le> 63 \<Longrightarrow> ring_size sz (2 ^ k) = None"
proof (induction "63 - k" arbitrary: k)
  case 0
  then have k: "k = 63" by simp
  have lt: "(2 ^ 63 :: 64 word) < sz" "0 < sz" using assms by (auto simp: word_less_nat_alt)
  have zero: "push_bit 1 (2 ^ 63 :: 64 word) = 0" by simp
  have "ring_size sz (2 ^ 63) = ring_size sz 0"
    by (subst ring_size.simps) (simp only: lt zero if_True)
  with ring_size_zero_spins [OF lt(2)] show ?case unfolding k by simp
next
  case (Suc d)
  then have "2 ^ k \<le> (2 :: nat) ^ 63" by (intro power_increasing) auto
  with assms Suc.prems Suc.hyps(2) have lt: "(2 ^ k :: 64 word) < sz"
    by (simp add: word_less_nat_alt unat_pow2)
  have "ring_size sz (2 ^ Suc k) = None"
    using Suc.hyps by (intro Suc.hyps(1)) auto
  with lt show ?case by (subst ring_size.simps) (simp only: push_bit_pow2 if_True)
qed

subsection \<open>Positions and cells\<close>

lemma unat_and_pow2_mask: "k < 64 \<Longrightarrow> unat (w AND (2 ^ k - 1) :: 64 word) = unat w mod 2 ^ k"
proof -
  have "w AND (2 ^ k - 1) = take_bit k w" by (simp add: take_bit_eq_mask mask_eq_exp_minus_1)
  moreover have "unat (take_bit k w) = take_bit k (unat w)" by (rule unsigned_take_bit_eq)
  ultimately show ?thesis by (simp only: take_bit_eq_mod)
qed

lemma unat_add_mod_pow2: "k < 64 \<Longrightarrow> unat (h + of_nat i :: 64 word) mod 2 ^ k = (unat h mod 2 ^ k + i) mod 2 ^ k"
proof -
  assume k: "k < 64"
  then have dvd: "(2 :: nat) ^ k dvd 2 ^ 64" by (intro le_imp_power_dvd) simp
  have "unat (h + of_nat i :: 64 word) = (unat h + i) mod 2 ^ 64"
    by (simp add: unat_word_ariths unat_of_nat take_bit_eq_mod mod_simps)
  with dvd show ?thesis by (simp add: mod_mod_cancel mod_simps)
qed

text \<open>The abstraction: \<open>n = 2 ^ k\<close> cells, \<open>c\<close> of them filled, from the head on; a filled cell at
  position \<open>p\<close> has sequence number \<open>p + 1\<close>, a free one the position it waits for.\<close>

definition ring_contents :: "'a ring \<Rightarrow> 'a list" where
  "ring_contents r =
     map (\<lambda>i. rc_val (rg_cells r ! ring_cell r (rg_head r + of_nat i))) [0..<unat (rg_tail r - rg_head r)]"

definition ring_shape :: "nat \<Rightarrow> 'a ring \<Rightarrow> bool" where
  "ring_shape k r \<longleftrightarrow> 1 \<le> k \<and> k \<le> 63 \<and> rg_mask r = 2 ^ k - 1 \<and> length (rg_cells r) = 2 ^ k"

definition ring_cells_ok :: "nat \<Rightarrow> nat \<Rightarrow> 'a ring \<Rightarrow> bool" where
  "ring_cells_ok k c r \<longleftrightarrow> c \<le> 2 ^ k \<and> rg_tail r = rg_head r + of_nat c \<and>
     (\<forall>i < 2 ^ k. rc_seq (rg_cells r ! ring_cell r (rg_head r + of_nat i)) =
        rg_head r + of_nat i + (if i < c then 1 else 0))"

definition ring_inv :: "'a ring \<Rightarrow> bool" where
  "ring_inv r \<longleftrightarrow> (\<exists>k c. ring_shape k r \<and> ring_cells_ok k c r)"

lemma ring_head_seq:
  "ring_cells_ok k c r \<Longrightarrow> rc_seq (rg_cells r ! ring_cell r (rg_head r)) = rg_head r + (if 0 < c then 1 else 0)"
  unfolding ring_cells_ok_def by (elim conjE allE [where x = 0]) simp

lemma ring_cell_eq:
  "ring_shape k r \<Longrightarrow> ring_cell r (rg_head r + of_nat i) = (unat (rg_head r) mod 2 ^ k + i) mod 2 ^ k"
  by (simp add: ring_shape_def ring_cell_def unat_and_pow2_mask unat_add_mod_pow2)

lemma ring_cell_lt: "ring_shape k r \<Longrightarrow> ring_cell r (rg_head r + of_nat i) < length (rg_cells r)"
  by (simp add: ring_cell_eq) (simp add: ring_shape_def)

lemma ring_cell_inj:
  "ring_shape k r \<Longrightarrow> i < 2 ^ k \<Longrightarrow> j < 2 ^ k \<Longrightarrow>
   ring_cell r (rg_head r + of_nat i) = ring_cell r (rg_head r + of_nat j) \<longleftrightarrow> i = j"
  by (simp add: ring_cell_eq mod_wrap_inj)

lemma ring_cell_wrap: "ring_shape k r \<Longrightarrow> ring_cell r (rg_head r + of_nat (2 ^ k)) = ring_cell r (rg_head r)"
  using ring_cell_eq [of k r "2 ^ k"] ring_cell_eq [of k r 0] by simp

lemma pow2_le_63: "k \<le> 63 \<Longrightarrow> (2 :: nat) ^ k \<le> 2 ^ 63"
  by (intro power_increasing) auto

lemma ring_count: "ring_shape k r \<Longrightarrow> ring_cells_ok k c r \<Longrightarrow> unat (rg_tail r - rg_head r) = c"
proof -
  assume "ring_shape k r" "ring_cells_ok k c r"
  then have "rg_tail r - rg_head r = of_nat c" "c \<le> 2 ^ 63"
    using pow2_le_63 [of k] by (auto simp: ring_shape_def ring_cells_ok_def)
  then show ?thesis by (simp add: unat_of_nat take_bit_nat_eq_self)
qed

subsection \<open>One push, one pop\<close>

lemma sint_full: "1 \<le> k \<Longrightarrow> k \<le> 63 \<Longrightarrow> sint (1 - 2 ^ k :: 64 word) < 0"
proof -
  assume k: "1 \<le> k" "k \<le> 63"
  have "(2 :: int) ^ 1 \<le> 2 ^ k" by (rule power_increasing) (use k in simp_all)
  moreover have "(2 :: int) ^ k \<le> 2 ^ 63" by (rule power_increasing) (use k in simp_all)
  ultimately have r: "- (2 ^ 63) \<le> (1 - 2 ^ k :: int)" "(1 - 2 ^ k :: int) < 2 ^ 63" and neg: "(1 - 2 ^ k :: int) < 0"
    by auto
  have "(1 - 2 ^ k :: 64 word) = word_of_int (1 - 2 ^ k)" by simp
  then have "sint (1 - 2 ^ k :: 64 word) = signed_take_bit 63 (1 - 2 ^ k)"
    by (simp only: signed_of_int) simp
  with r neg show ?thesis by (simp add: signed_take_bit_int_eq_self)
qed

lemma ring_push_loop:
  assumes s: "ring_shape k r" and c: "ring_cells_ok k c r"
  shows "ring_push_loop r (rg_tail r) = Some (if c < 2 ^ k then Some (rg_tail r) else None)"
proof (cases "c < 2 ^ k")
  case True
  with c have "rc_seq (rg_cells r ! ring_cell r (rg_tail r)) = rg_tail r"
    by (simp add: ring_cells_ok_def)
  with True show ?thesis by (subst ring_push_loop.simps) simp
next
  case False
  with c have full: "c = 2 ^ k" by (simp add: ring_cells_ok_def)
  with c have t: "rg_tail r = rg_head r + of_nat (2 ^ k)" by (simp add: ring_cells_ok_def)
  have "rc_seq (rg_cells r ! ring_cell r (rg_head r)) = rg_head r + 1"
    using ring_head_seq [OF c] full by simp
  then have "rc_seq (rg_cells r ! ring_cell r (rg_tail r)) - rg_tail r = 1 - 2 ^ k"
    using ring_cell_wrap [OF s] t by simp
  with False sint_full [of k] s show ?thesis
    by (subst ring_push_loop.simps) (auto simp: Let_def ring_shape_def)
qed

lemma ring_pop_loop:
  assumes s: "ring_shape k r" and c: "ring_cells_ok k c r"
  shows "ring_pop_loop r (rg_head r) = Some (if 0 < c then Some (rg_head r) else None)"
proof -
  have d: "rc_seq (rg_cells r ! ring_cell r (rg_head r)) - (rg_head r + 1) = (if 0 < c then 0 else -1)"
    using ring_head_seq [OF c] by simp
  show ?thesis by (subst ring_pop_loop.simps, unfold Let_def d) simp
qed

lemma Ring_TryPush_total:
  assumes s: "ring_shape k r" and c: "ring_cells_ok k c r"
  shows "\<exists>r'. Ring_TryPush v r = Some (c < 2 ^ k, r') \<and> ring_shape k r' \<and>
    ring_cells_ok k (if c < 2 ^ k then Suc c else c) r' \<and>
    ring_contents r' = ring_contents r @ (if c < 2 ^ k then [v] else [])"
proof (cases "c < 2 ^ k")
  case False
  then show ?thesis using ring_push_loop [OF s c] s c by (simp add: Ring_TryPush_def)
next
  case True
  define r' where "r' = r\<lparr>rg_tail := rg_tail r + 1,
    rg_cells := (rg_cells r)[ring_cell r (rg_tail r) := \<lparr>rc_seq = rg_tail r + 1, rc_val = v\<rparr>]\<rparr>"
  have push: "Ring_TryPush v r = Some (True, r')"
    using ring_push_loop [OF s c] True by (simp add: Ring_TryPush_def r'_def)
  have s': "ring_shape k r'" using s by (simp add: ring_shape_def r'_def)
  have t: "rg_tail r = rg_head r + of_nat c" using c by (simp add: ring_cells_ok_def)
  have pos: "ring_cell r' p = ring_cell r p" for p by (simp add: ring_cell_def r'_def)
  have cell: "rg_cells r' ! ring_cell r (rg_head r + of_nat i) =
      (if i = c then \<lparr>rc_seq = rg_tail r + 1, rc_val = v\<rparr> else rg_cells r ! ring_cell r (rg_head r + of_nat i))"
    if "i < 2 ^ k" for i
    using that True ring_cell_lt [OF s] ring_cell_inj [OF s that True] t
    by (auto simp: r'_def nth_list_update)
  have c': "ring_cells_ok k (Suc c) r'"
    unfolding ring_cells_ok_def
  proof (intro conjI allI impI)
    show "Suc c \<le> 2 ^ k" using True by simp
    show "rg_tail r' = rg_head r' + of_nat (Suc c)" using t by (simp add: r'_def)
  next
    fix i :: nat assume i: "i < 2 ^ k"
    have "rc_seq (rg_cells r ! ring_cell r (rg_head r + of_nat i)) =
        rg_head r + of_nat i + (if i < c then 1 else 0)"
      using c i by (simp add: ring_cells_ok_def)
    with cell [OF i] t show "rc_seq (rg_cells r' ! ring_cell r' (rg_head r' + of_nat i)) =
        rg_head r' + of_nat i + (if i < Suc c then 1 else 0)"
      by (auto simp: pos less_Suc_eq) (auto simp: r'_def)
  qed
  have head: "rg_head r' = rg_head r" by (simp add: r'_def)
  have "ring_contents r' = map (\<lambda>i. rc_val (rg_cells r' ! ring_cell r (rg_head r + of_nat i))) [0..<Suc c]"
    unfolding ring_contents_def ring_count [OF s' c'] unfolding pos head by (rule refl)
  also have "\<dots> = map (\<lambda>i. rc_val (rg_cells r ! ring_cell r (rg_head r + of_nat i))) [0..<c] @ [v]"
    using cell True by auto
  finally have "ring_contents r' = ring_contents r @ [v]"
    unfolding ring_contents_def [of r] ring_count [OF s c] .
  with push s' c' True show ?thesis by auto
qed

lemma Ring_TryPop_total:
  assumes s: "ring_shape k r" and c: "ring_cells_ok k c r"
  shows "\<exists>res r'. Ring_TryPop r = Some (res, r') \<and> ring_shape k r' \<and> ring_cells_ok k (c - 1) r' \<and>
    (res = None \<longleftrightarrow> c = 0) \<and> ring_contents r = (case res of None \<Rightarrow> [] | Some x \<Rightarrow> [x]) @ ring_contents r'"
proof (cases "c = 0")
  case True
  then show ?thesis using ring_pop_loop [OF s c] s c by (simp add: Ring_TryPop_def)
next
  case False
  define r' where "r' = r\<lparr>rg_head := rg_head r + 1,
    rg_cells := (rg_cells r)[ring_cell r (rg_head r) := \<lparr>rc_seq = rg_head r + rg_mask r + 1, rc_val = rg_zero r\<rparr>]\<rparr>"
  have pop: "Ring_TryPop r = Some (Some (rc_val (rg_cells r ! ring_cell r (rg_head r))), r')"
    using ring_pop_loop [OF s c] False by (simp add: Ring_TryPop_def r'_def)
  have s': "ring_shape k r'" using s by (simp add: ring_shape_def r'_def)
  have mask: "rg_head r + rg_mask r + 1 = rg_head r + of_nat (2 ^ k)" using s by (simp add: ring_shape_def)
  have next_pos: "rg_head r' + of_nat i = rg_head r + of_nat (Suc i)" for i by (simp add: r'_def)
  have pos: "ring_cell r' p = ring_cell r p" for p by (simp add: ring_cell_def r'_def)
  have zero: "ring_cell r (rg_head r) = ring_cell r (rg_head r + of_nat 0)" by simp
  have cell: "rg_cells r' ! ring_cell r (rg_head r + of_nat (Suc i)) =
      (if Suc i = 2 ^ k then \<lparr>rc_seq = rg_head r + of_nat (2 ^ k), rc_val = rg_zero r\<rparr>
       else rg_cells r ! ring_cell r (rg_head r + of_nat (Suc i)))" if "i < 2 ^ k" for i
  proof (cases "Suc i = 2 ^ k")
    case True
    with ring_cell_wrap [OF s] ring_cell_lt [OF s, of 0] show ?thesis
      unfolding True by (simp add: r'_def mask [symmetric] del: of_nat_power)
  next
    case neq: False
    with that have "Suc i < 2 ^ k" by simp
    then have "ring_cell r (rg_head r + of_nat (Suc i)) \<noteq> ring_cell r (rg_head r)"
      using ring_cell_inj [OF s, of "Suc i" 0] by simp
    with neq show ?thesis by (simp add: r'_def)
  qed
  have c': "ring_cells_ok k (c - 1) r'"
    unfolding ring_cells_ok_def
  proof (intro conjI allI impI)
    have "c \<le> 2 ^ k" using c by (simp add: ring_cells_ok_def)
    then show "c - 1 \<le> 2 ^ k" by (rule order_trans [OF diff_le_self])
    show "rg_tail r' = rg_head r' + of_nat (c - 1)"
      unfolding next_pos using c False by (simp add: r'_def ring_cells_ok_def)
  next
    fix i :: nat assume i: "i < 2 ^ k"
    have "rc_seq (rg_cells r ! ring_cell r (rg_head r + of_nat (Suc i))) =
        rg_head r + of_nat (Suc i) + (if Suc i < c then 1 else 0)" if "Suc i < 2 ^ k"
      using c that unfolding ring_cells_ok_def by blast
    moreover have "\<not> Suc i < c" if "Suc i = 2 ^ k" using c that by (simp add: ring_cells_ok_def)
    ultimately show "rc_seq (rg_cells r' ! ring_cell r' (rg_head r' + of_nat i)) =
        rg_head r' + of_nat i + (if i < c - 1 then 1 else 0)"
      unfolding next_pos pos cell [OF i] using i by (cases "Suc i = 2 ^ k") auto
  qed
  have "[0..<c] = 0 # map Suc [0..<c - 1]" using False by (simp add: map_Suc_upt upt_conv_Cons)
  moreover have "ring_contents r' = map (\<lambda>i. rc_val (rg_cells r ! ring_cell r (rg_head r + of_nat (Suc i)))) [0..<c - 1]"
    unfolding ring_contents_def ring_count [OF s' c'] unfolding next_pos pos
    using cell c by (auto simp: ring_cells_ok_def)
  ultimately have "ring_contents r = rc_val (rg_cells r ! ring_cell r (rg_head r)) # ring_contents r'"
    unfolding ring_contents_def [of r] ring_count [OF s c] by simp
  with pop s' c' False show ?thesis by auto
qed

subsection \<open>The ring is a bounded queue\<close>

text \<open>The operations with their loops taken to return, which they do on every ring the
  invariant admits.\<close>

definition ring_push :: "'a \<Rightarrow> 'a ring \<Rightarrow> bool \<times> 'a ring" where
  "ring_push v r = (case Ring_TryPush v r of None \<Rightarrow> (False, r) | Some res \<Rightarrow> res)"

definition ring_pop :: "'a ring \<Rightarrow> 'a option \<times> 'a ring" where
  "ring_pop r = (case Ring_TryPop r of None \<Rightarrow> (None, r) | Some res \<Rightarrow> res)"

lemma ring_length: "ring_shape k r \<Longrightarrow> ring_cells_ok k c r \<Longrightarrow> length (ring_contents r) = c"
  by (simp add: ring_contents_def ring_count)

lemma ring_push:
  assumes i: "ring_inv r" and p: "ring_push v r = (ok, r')"
  shows "Ring_TryPush v r = Some (ok, r')" and "ring_inv r'"
    and "ring_contents r' = ring_contents r @ (if ok then [v] else [])"
    and "ok \<longleftrightarrow> length (ring_contents r) < length (rg_cells r)"
    and "length (rg_cells r') = length (rg_cells r)"
proof -
  obtain k c where s: "ring_shape k r" and c: "ring_cells_ok k c r" using i by (auto simp: ring_inv_def)
  obtain r'' where t: "Ring_TryPush v r = Some (c < 2 ^ k, r'')" "ring_shape k r''"
    "ring_cells_ok k (if c < 2 ^ k then Suc c else c) r''"
    "ring_contents r'' = ring_contents r @ (if c < 2 ^ k then [v] else [])"
    using Ring_TryPush_total [OF s c] by blast
  have eq: "ok = (c < 2 ^ k)" "r' = r''" using p t(1) by (auto simp: ring_push_def)
  show "Ring_TryPush v r = Some (ok, r')" using t(1) eq by simp
  show "ring_inv r'" using t(2,3) eq by (auto simp: ring_inv_def)
  show "ring_contents r' = ring_contents r @ (if ok then [v] else [])" using t(4) eq by simp
  show "ok \<longleftrightarrow> length (ring_contents r) < length (rg_cells r)"
    using ring_length [OF s c] s eq by (simp add: ring_shape_def)
  show "length (rg_cells r') = length (rg_cells r)" using s t(2) eq by (simp add: ring_shape_def)
qed

lemma ring_pop:
  assumes i: "ring_inv r" and p: "ring_pop r = (res, r')"
  shows "Ring_TryPop r = Some (res, r')" and "ring_inv r'"
    and "ring_contents r = (case res of None \<Rightarrow> [] | Some x \<Rightarrow> [x]) @ ring_contents r'"
    and "res = None \<longleftrightarrow> ring_contents r = []"
    and "length (rg_cells r') = length (rg_cells r)"
proof -
  obtain k c where s: "ring_shape k r" and c: "ring_cells_ok k c r" using i by (auto simp: ring_inv_def)
  obtain x r'' where t: "Ring_TryPop r = Some (x, r'')" "ring_shape k r''" "ring_cells_ok k (c - 1) r''"
    "x = None \<longleftrightarrow> c = 0" "ring_contents r = (case x of None \<Rightarrow> [] | Some x \<Rightarrow> [x]) @ ring_contents r''"
    using Ring_TryPop_total [OF s c] by blast
  have eq: "res = x" "r' = r''" using p t(1) by (auto simp: ring_pop_def)
  show "Ring_TryPop r = Some (res, r')" using t(1) eq by simp
  show "ring_inv r'" using t(2,3) eq by (auto simp: ring_inv_def)
  show "ring_contents r = (case res of None \<Rightarrow> [] | Some x \<Rightarrow> [x]) @ ring_contents r'" using t(5) eq by simp
  show "res = None \<longleftrightarrow> ring_contents r = []" using ring_length [OF s c] t(4) eq by auto
  show "length (rg_cells r') = length (rg_cells r)" using s t(2) eq by (simp add: ring_shape_def)
qed

lemma ring_frame:
  "ring_push v r = (ok, r') \<Longrightarrow> length (rg_cells r') = length (rg_cells r)"
  "ring_pop r = (res, r') \<Longrightarrow> length (rg_cells r') = length (rg_cells r)"
  by (auto simp: ring_push_def ring_pop_def Ring_TryPush_def Ring_TryPop_def split: option.splits)

interpretation rq: bounded_fifo ring_inv ring_contents ring_push ring_pop
  "\<lambda>r. length (rg_cells r)" "\<lambda>_. False"
proof unfold_locales
  fix r :: "'a ring" assume "ring_inv r"
  then obtain k c where "ring_shape k r" "ring_cells_ok k c r" by (auto simp: ring_inv_def)
  then show "length (ring_contents r) \<le> length (rg_cells r)"
    using ring_length [of k r c] by (simp add: ring_shape_def ring_cells_ok_def)
next
  fix r :: "'a ring" and x ok r'
  assume "ring_inv r" "ring_push x r = (ok, r')"
  note p = ring_push [OF this]
  show "ring_inv r'" by (rule p(2))
  show "ring_contents r' = ring_contents r @ (if ok then [x] else [])" by (rule p(3))
  show "ok \<longleftrightarrow> \<not> False \<and> length (ring_contents r) < length (rg_cells r)" using p(4) by simp
next
  fix r :: "'a ring" and res r'
  assume "ring_inv r" "ring_pop r = (res, r')"
  note p = ring_pop [OF this]
  show "ring_inv r'" by (rule p(2))
  show "ring_contents r = (case res of None \<Rightarrow> [] | Some x \<Rightarrow> [x]) @ ring_contents r' \<and>
      (res = None \<longleftrightarrow> ring_contents r = [])"
    using p(3,4) by blast
qed (simp_all add: ring_frame)

lemma NewRing_inv:
  assumes "unat sz \<le> 2 ^ 63"
  shows "\<exists>r m. NewRing max_len z sz = Some (if 2 ^ m \<le> max_len then RingMade r else RingPanics) \<and> 1 \<le> m \<and> m \<le> 63 \<and> ring_inv r \<and> ring_contents r = [] \<and>
    length (rg_cells r) = 2 ^ m \<and> max 2 (unat sz) \<le> 2 ^ m \<and> (\<forall>j < m. 2 ^ j < max 2 (unat sz))"
proof -
  define s where "s = (if sz < 2 then 2 else sz)"
  have us: "unat s = max 2 (unat sz)" by (auto simp: s_def word_less_nat_alt max_def)
  then obtain m where m: "m \<le> 63" "ring_size s (2 ^ 0) = Some (2 ^ m)" "unat s \<le> 2 ^ m" "\<forall>j < m. 2 ^ j < unat s"
    using ring_size_pow2 [of 0 s] assms by auto
  from m(3) us have m1: "1 \<le> m" by (cases m) auto
  define r where "r = \<lparr>rg_mask = 2 ^ m - 1,
      rg_cells = map (\<lambda>i. \<lparr>rc_seq = of_nat i, rc_val = z\<rparr>) [0..<unat (2 ^ m :: 64 word)],
      rg_head = 0, rg_tail = 0, rg_zero = z\<rparr>"
  have new: "NewRing max_len z sz = Some (if 2 ^ m \<le> max_len then RingMade r else RingPanics)"
    using m(1,2) by (simp add: NewRing_def s_def r_def unat_pow2 not_le)
  have len: "length (rg_cells r) = 2 ^ m" using m(1) by (simp add: r_def unat_pow2)
  have shape: "ring_shape m r" using m(1) m1 len by (simp add: ring_shape_def r_def)
  have "ring_cells_ok m 0 r"
    unfolding ring_cells_ok_def
  proof (intro conjI allI impI)
    fix i :: nat assume i: "i < 2 ^ m"
    have "ring_cell r (rg_head r + of_nat i) = i"
      unfolding ring_cell_eq [OF shape] using i by (simp add: r_def)
    with i m(1) show "rc_seq (rg_cells r ! ring_cell r (rg_head r + of_nat i)) =
        rg_head r + of_nat i + (if i < 0 then 1 else 0)"
      by (simp add: r_def unat_pow2)
  qed (simp_all add: r_def)
  with shape have "ring_inv r" "ring_contents r = []"
    using ring_length by (auto simp: ring_inv_def)
  with new m m1 len us show ?thesis by metis
qed

subsection \<open>Properties\<close>

text \<open>C19. \<open>NewRing\<close> rounds the request, and at least 2, up to the least power of two and returns an
  empty ring of that capacity if \<open>make\<close> accepts it; otherwise \<open>make\<close> panics, which it does for every
  request above \<open>2 ^ 62\<close>.  For a request above \<open>2 ^ 63\<close> the doubling overflows to zero and the call never
  returns.\<close>

theorem NewRing_capacity:
  assumes "max_len < 2 ^ 63"
  shows "if unat sz \<le> 2 ^ 63
   then \<exists>m. max 2 (unat sz) \<le> 2 ^ m \<and> (\<nexists>j. j < m \<and> max 2 (unat sz) \<le> 2 ^ j) \<and>
     (if 2 ^ m \<le> max_len
      then unat sz \<le> 2 ^ 62 \<and> (\<exists>r. NewRing max_len z sz = Some (RingMade r) \<and> ring_inv r \<and> ring_contents r = [] \<and> length (rg_cells r) = 2 ^ m)
      else NewRing max_len z sz = Some RingPanics)
   else NewRing max_len z sz = None"
proof (cases "unat sz \<le> 2 ^ 63")
  case True
  obtain r m where r: "NewRing max_len z sz = Some (if 2 ^ m \<le> max_len then RingMade r else RingPanics)" "ring_inv r"
    "ring_contents r = []" "length (rg_cells r) = 2 ^ m" "max 2 (unat sz) \<le> 2 ^ m" "\<forall>j < m. 2 ^ j < max 2 (unat sz)"
    using NewRing_inv [OF True, of max_len z] by blast
  have "unat sz \<le> 2 ^ 62" if "2 ^ m \<le> max_len"
  proof -
    have "(2 :: nat) ^ m < 2 ^ 63" using that assms by (rule le_less_trans)
    then have "m < 63" by (rule power_less_imp_less_exp [rotated]) simp
    then have "(2 :: nat) ^ m \<le> 2 ^ 62" by (intro power_increasing) simp_all
    with r(5) show ?thesis by linarith
  qed
  moreover have "\<nexists>j. j < m \<and> max 2 (unat sz) \<le> 2 ^ j" using r(6) by (meson not_le)
  ultimately show ?thesis using True r(5) unfolding r(1) if_P [OF True] by (intro exI [of _ m]) (use r(2-4) in auto)
next
  case False
  then have "\<not> sz < 2" by (simp add: word_less_nat_alt)
  moreover have "ring_size sz 1 = None" using ring_size_too_big [of sz 0] False by simp
  ultimately show ?thesis using False by (simp add: NewRing_def)
qed

theorem NewRing_capacity_witness:
  "map_option (\<lambda>n. case n of RingMade r \<Rightarrow> length (rg_cells r) | RingPanics \<Rightarrow> 0) (NewRing 1000 (0 :: nat) 5) = Some 8 \<and>
   NewRing 1000 (0 :: nat) (2 ^ 63) = Some RingPanics"
proof
  obtain m where m: "5 \<le> (2 :: nat) ^ m" "\<nexists>j. j < m \<and> (5 :: nat) \<le> 2 ^ j"
    "if 2 ^ m \<le> (1000 :: nat) then \<exists>r. NewRing 1000 (0 :: nat) 5 = Some (RingMade r) \<and> length (rg_cells r) = 2 ^ m
     else NewRing 1000 (0 :: nat) 5 = Some RingPanics"
    using NewRing_capacity [of 1000 5 "0 :: nat"] by simp metis
  have "\<not> 3 < m" using m(2) by (auto dest!: spec [of _ 3])
  then have "m = 0 \<or> m = 1 \<or> m = 2 \<or> m = 3" by linarith
  with m(1,3) show "map_option (\<lambda>n. case n of RingMade r \<Rightarrow> length (rg_cells r) | RingPanics \<Rightarrow> 0) (NewRing 1000 (0 :: nat) 5) = Some 8"
    by auto
  have u: "unat (2 ^ 63 :: 64 word) = 2 ^ 63" by (rule unat_pow2) simp
  show "NewRing 1000 (0 :: nat) (2 ^ 63) = Some RingPanics"
    using NewRing_capacity [of 1000 "2 ^ 63" "0 :: nat"] unfolding u by (auto split: if_splits)
qed

text \<open>C17. On every ring the invariant admits, wherever its 64-bit counters stand, and so also across
  their wrap-around, \<open>TryPush\<close> and \<open>TryPop\<close> return, a push is refused exactly when all cells are
  filled, and over any sequence of requests what comes out is, in order, what was inside followed by
  what was accepted.\<close>

theorem Ring_order:
  assumes "ring_inv r"
  shows "Ring_TryPush v r = Some (ring_push v r) \<and> Ring_TryPop r = Some (ring_pop r) \<and>
    (fst (ring_push v r) \<longleftrightarrow> length (ring_contents r) < length (rg_cells r)) \<and>
    (case queue_run ring_push ring_pop ops r of (acc, out, r') \<Rightarrow>
       ring_contents r @ acc = out @ ring_contents r' \<and> ring_inv r' \<and>
       length (ring_contents r') \<le> length (rg_cells r'))"
proof -
  obtain acc out r' where run: "queue_run ring_push ring_pop ops r = (acc, out, r')"
    using prod_cases3 by blast
  have i: "ring_inv r'" using rq.run_conserves [OF assms run] by simp
  have "Ring_TryPush v r = Some (ring_push v r)"
    using ring_push(1) [OF assms, of v] by (cases "ring_push v r") simp
  moreover have "Ring_TryPop r = Some (ring_pop r)"
    using ring_pop(1) [OF assms] by (cases "ring_pop r") simp
  moreover have "fst (ring_push v r) \<longleftrightarrow> length (ring_contents r) < length (rg_cells r)"
    by (rule ring_push(4) [OF assms prod.collapse [symmetric]])
  ultimately show ?thesis using i run rq.run_fifo [OF assms run] rq.bound [OF i] by simp
qed

text \<open>A ring of two cells whose counters stand just below the wrap-around.\<close>

definition ex_ring :: "nat ring" where
  "ex_ring = \<lparr>rg_mask = 1, rg_cells = [\<lparr>rc_seq = 0, rc_val = 0\<rparr>, \<lparr>rc_seq = -1, rc_val = 0\<rparr>],
     rg_head = -1, rg_tail = -1, rg_zero = 0\<rparr>"

lemma ex_ring_inv: "ring_inv ex_ring"
proof -
  have "ring_shape 1 ex_ring" by (simp add: ring_shape_def ex_ring_def)
  moreover have "ring_cells_ok 1 0 ex_ring"
    by (auto simp: ring_cells_ok_def ring_cell_def ex_ring_def less_2_cases_iff)
  ultimately show ?thesis by (auto simp: ring_inv_def)
qed

definition ex_ring_ops :: "nat qop list" where
  "ex_ring_ops = [QPush 5, QPush 6, QPush 7, QPop, QPush 8, QPop, QPop, QPop]"

theorem Ring_order_witness:
  "fst (snd (queue_run ring_push ring_pop ex_ring_ops ex_ring)) = [5, 6, 8] \<and>
   (case queue_run ring_push ring_pop ex_ring_ops ex_ring of
      (acc, out, r') \<Rightarrow> ring_contents ex_ring @ acc = out @ ring_contents r')"
proof
  show "fst (snd (queue_run ring_push ring_pop ex_ring_ops ex_ring)) = [5, 6, 8]"
    by code_simp
  show "case queue_run ring_push ring_pop ex_ring_ops ex_ring of
      (acc, out, r') \<Rightarrow> ring_contents ex_ring @ acc = out @ ring_contents r'"
    using Ring_order [OF ex_ring_inv, of 0 ex_ring_ops] by (simp split: prod.splits)
qed

end
