(* ===== verification/Go_Float.thy ===== *)
theory Go_Float
  imports FW_Prelude Complex_Main
begin

text \<open>
  \<open>float64\<close> arithmetic.  A value is a rational, an infinity or not-a-number; the sign of zero is
  not kept, which nothing here can observe.  A result is rounded to 53 significant bits, to the
  nearest and on a tie to the even one, with the exponent range of the format (subnormal numbers
  included); from \<open>2 ^ 1024\<close> on it is an infinity.

  The conversion to \<open>int64\<close> truncates.  What it gives for a value out of range depends on the
  implementation (Go's specification says so), so it is the parameter \<open>oob\<close>.
\<close>

datatype f64 = Fin rat | PosInf | NegInf | NaN

function binade :: "rat \<Rightarrow> int" where
  "binade x = (if x \<ge> 2 then 1 + binade (x / 2) else if 0 < x \<and> x < 1 then binade (2 * x) - 1 else 0)"
  by pat_completeness auto
termination
proof (relation "measure (\<lambda>x. if x \<ge> 2 then nat \<lceil>x\<rceil> else if 0 < x \<and> x < 1 then nat \<lceil>1 / x\<rceil> else 0)")
  fix x :: rat assume x: "2 \<le> x"
  have "\<lceil>x / 2\<rceil> < \<lceil>x\<rceil>"
  proof -
    have "x / 2 + 1 \<le> x" using x by simp
    then have "\<lceil>x / 2 + 1\<rceil> \<le> \<lceil>x\<rceil>" by (rule ceiling_mono)
    then show ?thesis by simp
  qed
  with x show "(x / 2, x) \<in> measure (\<lambda>x. if x \<ge> 2 then nat \<lceil>x\<rceil> else if 0 < x \<and> x < 1 then nat \<lceil>1 / x\<rceil> else 0)"
    by auto
next
  fix x :: rat assume "\<not> 2 \<le> x" and x: "0 < x \<and> x < 1"
  have "\<lceil>1 / (2 * x)\<rceil> < \<lceil>1 / x\<rceil>" if "2 * x < 1"
  proof -
    have "1 / (2 * x) + 1 \<le> 1 / x" using x that by (simp add: field_simps)
    then have "\<lceil>1 / (2 * x) + 1\<rceil> \<le> \<lceil>1 / x\<rceil>" by (rule ceiling_mono)
    then show ?thesis by simp
  qed
  with x show "(2 * x, x) \<in> measure (\<lambda>x. if x \<ge> 2 then nat \<lceil>x\<rceil> else if 0 < x \<and> x < 1 then nat \<lceil>1 / x\<rceil> else 0)"
    by auto
qed simp

declare binade.simps [simp del]

definition round_even :: "rat \<Rightarrow> int" where
  "round_even y =
     (let f = \<lfloor>y\<rfloor>; d = y - of_int f
      in if d < 1 / 2 then f else if d > 1 / 2 then f + 1 else if even f then f else f + 1)"

definition ulp :: "rat \<Rightarrow> rat" where
  "ulp x = 2 powi (max (binade \<bar>x\<bar> - 52) (- 1074))"

definition f64_rat :: "rat \<Rightarrow> rat" where
  "f64_rat x = of_int (round_even (x / ulp x)) * ulp x"

definition f64_round :: "rat \<Rightarrow> f64" where
  "f64_round x =
     (let r = f64_rat x
      in if r \<ge> 2 ^ 1024 then PosInf else if r \<le> - (2 ^ 1024) then NegInf else Fin r)"

definition f64_of_int :: "int \<Rightarrow> f64" where
  "f64_of_int n = f64_round (of_int n)"

fun f64_neg :: "f64 \<Rightarrow> f64" where
  "f64_neg (Fin x) = Fin (- x)"
| "f64_neg PosInf = NegInf"
| "f64_neg NegInf = PosInf"
| "f64_neg NaN = NaN"

fun f64_add :: "f64 \<Rightarrow> f64 \<Rightarrow> f64" where
  "f64_add (Fin x) (Fin y) = f64_round (x + y)"
| "f64_add NaN _ = NaN"
| "f64_add _ NaN = NaN"
| "f64_add PosInf NegInf = NaN"
| "f64_add NegInf PosInf = NaN"
| "f64_add PosInf _ = PosInf"
| "f64_add _ PosInf = PosInf"
| "f64_add NegInf _ = NegInf"
| "f64_add _ NegInf = NegInf"

definition f64_sub :: "f64 \<Rightarrow> f64 \<Rightarrow> f64" where
  "f64_sub a b = f64_add a (f64_neg b)"

fun f64_sign :: "f64 \<Rightarrow> int" where
  "f64_sign (Fin x) = (if x > 0 then 1 else if x < 0 then -1 else 0)"
| "f64_sign PosInf = 1"
| "f64_sign NegInf = -1"
| "f64_sign NaN = 0"

definition f64_inf :: "int \<Rightarrow> f64" where
  "f64_inf s = (if s > 0 then PosInf else if s < 0 then NegInf else NaN)"

fun f64_mul :: "f64 \<Rightarrow> f64 \<Rightarrow> f64" where
  "f64_mul (Fin x) (Fin y) = f64_round (x * y)"
| "f64_mul NaN _ = NaN"
| "f64_mul _ NaN = NaN"
| "f64_mul a b = f64_inf (f64_sign a * f64_sign b)"

text \<open>Division by zero (of positive sign, the only zero the code divides by) gives the infinity of
  the dividend's sign.\<close>

fun f64_div :: "f64 \<Rightarrow> f64 \<Rightarrow> f64" where
  "f64_div (Fin x) (Fin y) = (if y = 0 then f64_inf (f64_sign (Fin x)) else f64_round (x / y))"
| "f64_div NaN _ = NaN"
| "f64_div _ NaN = NaN"
| "f64_div (Fin x) _ = Fin 0"
| "f64_div a (Fin y) = f64_inf (f64_sign a * (if y < 0 then -1 else 1))"
| "f64_div _ _ = NaN"

fun f64_less :: "f64 \<Rightarrow> f64 \<Rightarrow> bool" where
  "f64_less (Fin x) (Fin y) = (x < y)"
| "f64_less NaN _ = False"
| "f64_less _ NaN = False"
| "f64_less PosInf _ = False"
| "f64_less _ NegInf = False"
| "f64_less _ _ = True"

fun f64_eq :: "f64 \<Rightarrow> f64 \<Rightarrow> bool" where
  "f64_eq NaN _ = False"
| "f64_eq _ NaN = False"
| "f64_eq a b = (a = b)"

definition f64_leq :: "f64 \<Rightarrow> f64 \<Rightarrow> bool" where
  "f64_leq a b = (f64_less a b \<or> f64_eq a b)"

definition rat_trunc :: "rat \<Rightarrow> int" where
  "rat_trunc x = (if x \<ge> 0 then \<lfloor>x\<rfloor> else \<lceil>x\<rceil>)"

definition f64_to_int64 :: "(f64 \<Rightarrow> int) \<Rightarrow> f64 \<Rightarrow> int" where
  "f64_to_int64 oob a =
     (case a of
        Fin x \<Rightarrow> (let t = rat_trunc x in if - (2 ^ 63) \<le> t \<and> t < 2 ^ 63 then t else oob a)
      | _ \<Rightarrow> oob a)"

subsection \<open>Rounding to an integer\<close>

lemma round_even_bounds: "y - 1 / 2 \<le> of_int (round_even y)" "of_int (round_even y) \<le> y + 1 / 2"
proof -
  define f :: rat where "f = of_int \<lfloor>y\<rfloor>"
  have f: "f \<le> y" "y < f + 1" unfolding f_def by linarith+
  have r: "of_int (round_even y) =
      (if y - f < 1 / 2 then f else if y - f > 1 / 2 then f + 1 else if even \<lfloor>y\<rfloor> then f else f + 1)"
    by (simp add: round_even_def Let_def f_def)
  show "y - 1 / 2 \<le> of_int (round_even y)" "of_int (round_even y) \<le> y + 1 / 2"
    unfolding r using f by (simp_all split: if_splits)
qed

lemma round_even_of_int [simp]: "round_even (of_int n) = n"
  by (simp add: round_even_def)

lemma round_even_mono: "x \<le> y \<Longrightarrow> round_even x \<le> round_even y"
proof (cases "\<lfloor>x\<rfloor> = \<lfloor>y\<rfloor>")
  case True
  assume "x \<le> y"
  with True show ?thesis by (auto simp: round_even_def Let_def)
next
  case False
  assume "x \<le> y"
  with False have "\<lfloor>x\<rfloor> + 1 \<le> \<lfloor>y\<rfloor>" using floor_mono [of x y] by linarith
  moreover have "round_even x \<le> \<lfloor>x\<rfloor> + 1" "\<lfloor>y\<rfloor> \<le> round_even y"
    by (auto simp: round_even_def Let_def)
  ultimately show ?thesis by linarith
qed

lemma round_even_neg: "round_even (- y) = - round_even y"
proof (cases "y \<in> \<int>")
  case True
  then obtain n where "y = of_int n" by (auto elim: Ints_cases)
  then show ?thesis by (metis of_int_minus round_even_of_int)
next
  case False
  then have "\<lfloor>- y\<rfloor> = - \<lfloor>y\<rfloor> - 1"
    by (metis ceiling_altdef ceiling_def floor_of_int frac_eq_0_iff frac_def minus_diff_eq diff_minus_eq_add
        add.inverse_inverse Ints_of_int uminus_add_conv_diff)
  then show ?thesis by (auto simp: round_even_def Let_def)
qed

subsection \<open>The binade of a positive number\<close>

lemma binade_bounds: "0 < x \<Longrightarrow> 2 powi binade x \<le> x \<and> x < 2 powi (binade x + 1)"
proof (induction x rule: binade.induct)
  case (1 x)
  show ?case
  proof (cases "x \<ge> 2")
    case True
    have b: "binade x = 1 + binade (x / 2)" using True by (subst binade.simps) simp
    have "2 powi binade (x / 2) \<le> x / 2 \<and> x / 2 < 2 powi (binade (x / 2) + 1)"
      using 1 True by simp
    moreover have "(2::rat) powi (1 + binade (x / 2)) = 2 * 2 powi binade (x / 2)"
      "(2::rat) powi (1 + binade (x / 2) + 1) = 2 * 2 powi (binade (x / 2) + 1)"
      by (simp_all add: power_int_add)
    ultimately show ?thesis unfolding b by linarith
  next
    case False
    show ?thesis
    proof (cases "x < 1")
      case True
      with False 1(3) have b: "binade x = binade (2 * x) - 1" by (subst binade.simps) simp
      have "2 powi binade (2 * x) \<le> 2 * x \<and> 2 * x < 2 powi (binade (2 * x) + 1)"
        using 1 True False by simp
      moreover have "(2::rat) powi binade (2 * x) = 2 * 2 powi (binade (2 * x) - 1)"
        "(2::rat) powi (binade (2 * x) + 1) = 2 * 2 powi (binade (2 * x) - 1 + 1)"
        by (simp_all add: power_int_add power_int_diff)
      ultimately show ?thesis unfolding b by linarith
    next
      case False2: False
      with False have "binade x = 0" by (subst binade.simps) simp
      with False False2 show ?thesis by simp
    qed
  qed
qed

lemma binade_le:
  assumes "0 < x" "x < 2 ^ n" shows "binade x \<le> int n - 1"
proof (rule ccontr)
  assume "\<not> binade x \<le> int n - 1"
  then have "(2::rat) powi int n \<le> 2 powi binade x" by (intro power_int_increasing) auto
  with binade_bounds [OF assms(1)] assms(2) show False by (simp add: power_int_def)
qed

subsection \<open>Exact values\<close>

text \<open>An integer of at most 53 significant bits below \<open>2 ^ 1024\<close> is represented exactly.\<close>

lemma f64_rat_exact:
  assumes m: "0 < m" "m < 2 ^ 53"
  shows "f64_rat (of_int m * 2 ^ k) = of_int m * 2 ^ k"
proof -
  define x :: rat where "x = of_int m * 2 ^ k"
  have "(of_int m :: rat) < of_int (2 ^ 53)" using m(2) by (simp only: of_int_less_iff)
  then have mlt: "(of_int m :: rat) < 2 ^ 53" by (simp only: of_int_power of_int_numeral)
  have "x < 2 ^ 53 * 2 ^ k"
    unfolding x_def using mlt by (rule mult_strict_right_mono) simp
  then have lt: "x < 2 ^ (53 + k)" by (simp add: power_add)
  have pos: "0 < x" using m by (simp add: x_def)
  define e where "e = max (binade x - 52) (- 1074)"
  have "e \<le> int k" using binade_le [OF pos lt] by (simp add: e_def)
  then obtain j where j: "int k = e + int j" by (metis zle_iff_zadd)
  have u: "ulp x = 2 powi e" using pos by (simp add: ulp_def e_def)
  have "(2::rat) ^ k = 2 powi (int k)" by simp
  also have "\<dots> = 2 powi e * 2 powi (int j)" unfolding j by (simp add: power_int_add)
  finally have x: "x = of_int (m * 2 ^ j) * ulp x" unfolding u by (simp add: x_def)
  have "x / ulp x = of_int (m * 2 ^ j)"
    by (subst x, rule nonzero_mult_div_cancel_right) (simp add: u)
  then have "f64_rat x = of_int (m * 2 ^ j) * ulp x" by (simp only: f64_rat_def round_even_of_int)
  also have "\<dots> = x" using x by simp
  finally show ?thesis by (simp add: x_def)
qed

lemma f64_round_exact:
  assumes "0 < m" "m < 2 ^ 53" "m * 2 ^ k < 2 ^ 1024"
  shows "f64_round (of_int (m * 2 ^ k)) = Fin (of_int (m * 2 ^ k))"
proof -
  have r: "f64_rat (of_int (m * 2 ^ k)) = of_int (m * 2 ^ k)"
    using f64_rat_exact [OF assms(1,2), of k] by simp
  have "(of_int (m * 2 ^ k) :: rat) < of_int (2 ^ 1024)"
    using assms(3) by (simp only: of_int_less_iff)
  moreover have "(of_int 0 :: rat) < of_int (m * 2 ^ k)"
    using assms(1) by (simp only: of_int_less_iff) simp
  ultimately show ?thesis unfolding f64_round_def r Let_def
    by (simp only: of_int_power of_int_numeral of_int_0 not_le if_not_P)
qed

lemma f64_of_int_exact: "0 < m \<Longrightarrow> m < 2 ^ 53 \<Longrightarrow> f64_of_int m = Fin (of_int m)"
  using f64_round_exact [of m 0] by (simp add: f64_of_int_def)

end
