(* ===== verification/Backoff.thy ===== *)
theory Backoff
  imports Go_Float
begin

text \<open>
  Retry delays: \<open>backoff.go\<close>.  A backoff policy is one of the two types of the package or a
  type of the application, named by a number whose \<open>Delay\<close> method is the parameter \<open>ub\<close>.

  Two things of the Go implementation are parameters: \<open>oob\<close>, the conversion to \<open>int64\<close> of a
  \<open>float64\<close> it cannot represent, and \<open>rnd\<close>, one draw of \<open>rand.Int63n\<close>; that
  \<open>rnd n\<close> lies in \<open>[0, n)\<close> for positive \<open>n\<close> is its documented law.
\<close>

datatype backoff =
    ConstantBackoff duration
  | ExponentialBackoff (bo_Initial: duration) (bo_Max: duration) (bo_Factor: f64) (bo_Jitter: bool)
  | UserBackoff nat

text \<open>The comparison of two interface values with \<open>==\<close>.\<close>

fun backoff_eq :: "backoff option \<Rightarrow> backoff option \<Rightarrow> bool" where
  "backoff_eq None None = True"
| "backoff_eq (Some (ConstantBackoff d)) (Some (ConstantBackoff d')) = (d = d')"
| "backoff_eq (Some (ExponentialBackoff i m f j)) (Some (ExponentialBackoff i' m' f' j')) =
     (i = i' \<and> m = m' \<and> f64_eq f f' \<and> j = j')"
| "backoff_eq (Some (UserBackoff u)) (Some (UserBackoff v)) = (u = v)"
| "backoff_eq _ _ = False"

text \<open>The loop \<open>for i := 1; i < attempt; i++ { d *= factor }\<close> and the value it ends with.\<close>

fun backoff_loop :: "nat \<Rightarrow> f64 \<Rightarrow> f64 \<Rightarrow> f64" where
  "backoff_loop 0 factor d = d"
| "backoff_loop (Suc n) factor d = backoff_loop n factor (f64_mul d factor)"

definition exp_raw :: "backoff \<Rightarrow> int \<Rightarrow> f64" where
  "exp_raw b attempt =
     (let attempt = (if attempt \<le> 1 then 1 else attempt);
          initial = (if bo_Initial b \<le> 0 then 10 * Millisecond else bo_Initial b);
          factor = (if f64_leq (bo_Factor b) (Fin 1) then Fin 2 else bo_Factor b)
      in backoff_loop (nat (attempt - 1)) factor (f64_of_int initial))"

definition jittered :: "(int \<Rightarrow> int) \<Rightarrow> duration \<Rightarrow> duration" where
  "jittered rnd out = rnd (out div 2 + 1) + out div 2"

fun Delay :: "(f64 \<Rightarrow> int) \<Rightarrow> (int \<Rightarrow> int) \<Rightarrow> (nat \<Rightarrow> int \<Rightarrow> duration) \<Rightarrow> backoff \<Rightarrow> int \<Rightarrow> duration" where
  "Delay oob rnd ub (ConstantBackoff d) attempt = d"
| "Delay oob rnd ub (UserBackoff u) attempt = ub u attempt"
| "Delay oob rnd ub (ExponentialBackoff Init Cap Factor Jitter) attempt =
     (let out = f64_to_int64 oob (exp_raw (ExponentialBackoff Init Cap Factor Jitter) attempt);
          out = (if Cap > 0 \<and> out > Cap then Cap else out)
      in if Jitter \<and> out > 0 then jittered rnd out else out)"

subsection \<open>The cap and the jitter\<close>

lemma jittered_bounds:
  assumes "\<And>n. 0 < n \<Longrightarrow> 0 \<le> rnd n \<and> rnd n < n" and "0 < out"
  shows "out div 2 \<le> jittered rnd out" and "jittered rnd out \<le> out"
proof -
  have "0 < out div 2 + 1" using assms(2) by linarith
  from assms(1) [OF this] have "0 \<le> rnd (out div 2 + 1)" "rnd (out div 2 + 1) < out div 2 + 1" by auto
  then show "out div 2 \<le> jittered rnd out" "jittered rnd out \<le> out"
    unfolding jittered_def by linarith+
qed

text \<open>Whatever the policy's fields, the attempt and the float arithmetic give, an exponential
  delay never exceeds a positive \<open>Max\<close>, and jitter only shortens the capped delay, to no
  less than half of it; a capped delay that is not positive is returned as it is.\<close>

theorem Delay_cap:
  assumes rnd: "\<And>n. 0 < n \<Longrightarrow> 0 \<le> rnd n \<and> rnd n < n" and m: "0 < M"
  shows "let b = ExponentialBackoff I M F J; out = min M (f64_to_int64 oob (exp_raw b attempt))
    in Delay oob rnd ub b attempt \<le> out \<and> out \<le> M \<and>
      (if J \<and> 0 < out then out div 2 \<le> Delay oob rnd ub b attempt else Delay oob rnd ub b attempt = out)"
proof -
  define out where "out = min M (f64_to_int64 oob (exp_raw (ExponentialBackoff I M F J) attempt))"
  have "Delay oob rnd ub (ExponentialBackoff I M F J) attempt = (if J \<and> 0 < out then jittered rnd out else out)"
    using m by (auto simp: out_def Let_def min_def)
  moreover have "out \<le> M" by (simp add: out_def)
  ultimately show ?thesis using jittered_bounds [OF rnd, of out] unfolding Let_def out_def [symmetric] by auto
qed

theorem Delay_cap_witness:
  "Delay (\<lambda>_. 0) (\<lambda>_. 0) (\<lambda>_ _. 0) (ExponentialBackoff (10 * Millisecond) Second (Fin 2) True) 3 \<le> Second"
  using Delay_cap [where rnd = "\<lambda>_. 0" and M = Second and oob = "\<lambda>_. 0" and ub = "\<lambda>_ _. 0"
      and I = "10 * Millisecond" and F = "Fin 2" and J = True and attempt = 3] by (simp add: Let_def)

subsection \<open>Doubling\<close>

lemma backoff_loop_double:
  assumes "0 < m" "m < 2 ^ 53"
  shows "m * 2 ^ (k + n) < 2 ^ 1024 \<Longrightarrow>
    backoff_loop n (Fin 2) (Fin (of_int (m * 2 ^ k))) = Fin (of_int (m * 2 ^ (k + n)))"
proof (induction n arbitrary: k)
  case 0
  then show ?case by simp
next
  case (Suc n)
  have "m * 2 ^ Suc k \<le> m * 2 ^ (k + Suc n)" using assms(1) by (simp add: mult_left_mono)
  with Suc.prems have lt: "m * 2 ^ Suc k < 2 ^ 1024" by linarith
  have "f64_mul (Fin (of_int (m * 2 ^ k))) (Fin 2) = f64_round (of_int (m * 2 ^ Suc k))"
    by (simp add: mult.commute mult.left_commute)
  also have "\<dots> = Fin (of_int (m * 2 ^ Suc k))" by (rule f64_round_exact [OF assms lt])
  finally have "backoff_loop (Suc n) (Fin 2) (Fin (of_int (m * 2 ^ k))) =
      backoff_loop n (Fin 2) (Fin (of_int (m * 2 ^ Suc k)))" by (simp only: backoff_loop.simps)
  also have "\<dots> = Fin (of_int (m * 2 ^ (Suc k + n)))"
    using Suc.prems by (intro Suc.IH) simp
  finally show ?case by simp
qed

lemma exp_raw_double:
  assumes "0 < I" "I < 2 ^ 53" "1 \<le> attempt" "I * 2 ^ nat (attempt - 1) < 2 ^ 1024"
  shows "exp_raw (ExponentialBackoff I M (Fin 2) J) attempt = Fin (of_int (I * 2 ^ nat (attempt - 1)))"
proof -
  have "\<not> f64_leq (Fin 2) (Fin 1)" by (simp add: f64_leq_def)
  with assms backoff_loop_double [of I 0 "nat (attempt - 1)"] show ?thesis
    by (simp add: exp_raw_def f64_of_int_exact Let_def)
qed

lemma rat_trunc_of_int [simp]: "rat_trunc (of_int n) = n"
  by (simp add: rat_trunc_def)

text \<open>C23. With the factor 2 of the default policy and an initial delay below \<open>2 ^ 53\<close>
  nanoseconds the float arithmetic is exact: attempt \<open>n\<close> waits \<open>Initial * 2 ^ (n - 1)\<close>,
  capped at \<open>Max\<close>, as long as the uncapped delay fits in a \<open>time.Duration\<close>.\<close>

theorem Delay_doubles:
  assumes "0 < I" "I < 2 ^ 53" "1 \<le> attempt" "I * 2 ^ nat (attempt - 1) < 2 ^ 63"
  shows "Delay oob rnd ub (ExponentialBackoff I M (Fin 2) False) attempt =
    (if M > 0 then min M (I * 2 ^ nat (attempt - 1)) else I * 2 ^ nat (attempt - 1))"
proof -
  let ?d = "I * 2 ^ nat (attempt - 1)"
  have "(2::int) ^ 63 < 2 ^ 1024" by simp
  with assms(4) have "?d < 2 ^ 1024" by (rule less_trans)
  moreover have "0 < ?d" using assms(1) by simp
  ultimately have "f64_to_int64 oob (exp_raw (ExponentialBackoff I M (Fin 2) False) attempt) = ?d"
    using exp_raw_double [OF assms(1-3)] assms(4) by (simp only: f64_to_int64_def f64.case rat_trunc_of_int Let_def) simp
  then show ?thesis by (simp add: min_def Let_def)
qed

theorem Delay_doubles_witness:
  "Delay (\<lambda>_. 0) (\<lambda>_. 0) (\<lambda>_ _. 0) (ExponentialBackoff 25000000 Second (Fin 2) False) 6 = 800000000 \<and>
   Delay (\<lambda>_. 0) (\<lambda>_. 0) (\<lambda>_ _. 0) (ExponentialBackoff 25000000 Second (Fin 2) False) 7 = Second"
  using Delay_doubles [of 25000000 6 "\<lambda>_. 0" "\<lambda>_. 0" "\<lambda>_ _. 0" Second]
    Delay_doubles [of 25000000 7 "\<lambda>_. 0" "\<lambda>_. 0" "\<lambda>_ _. 0" Second] by simp

text \<open>C24. Past that range the cap is lost: where the conversion of a too large float gives the most
  negative \<open>int64\<close> (as on amd64), a policy with factor 2 returns that negative delay, whatever
  its \<open>Max\<close> and jitter, for every attempt from the first overflow to the end of the
  exponent range; the retry is due at once instead of after \<open>Max\<close>.\<close>

theorem Delay_overflow:
  assumes "0 < I" "I < 2 ^ 53" "1 \<le> attempt"
    and "2 ^ 63 \<le> I * 2 ^ nat (attempt - 1)" "I * 2 ^ nat (attempt - 1) < 2 ^ 1024"
  shows "Delay (\<lambda>_. - (2 ^ 63)) rnd ub (ExponentialBackoff I M (Fin 2) J) attempt = - (2 ^ 63)"
proof -
  have "f64_to_int64 (\<lambda>_. - (2 ^ 63)) (exp_raw (ExponentialBackoff I M (Fin 2) J) attempt) = - (2 ^ 63)"
    using exp_raw_double [OF assms(1-3,5)] assms(4)
    by (simp only: f64_to_int64_def f64.case rat_trunc_of_int Let_def) simp
  then show ?thesis by simp
qed

theorem Delay_overflow_witness:
  "Delay (\<lambda>_. - (2 ^ 63)) (\<lambda>_. 0) (\<lambda>_ _. 0) (ExponentialBackoff 25000000 Second (Fin 2) True) 40 = - (2 ^ 63)"
  by (rule Delay_overflow) simp_all

end
