(* ===== verification/Go_Errors.thy ===== *)
theory Go_Errors
  imports FW_Prelude
begin

text \<open>
  Error values: \<open>errors.go\<close>, \<open>retry.go\<close> and what the code uses of the packages
  \<open>errors\<close>, \<open>fmt\<close> and \<open>context\<close>.  The sentinels are constructors of their own; \<open>Wrapf\<close> is
  \<open>fmt.Errorf("%w...", e)\<close>, \<open>Errorf\<close> an error without a cause, \<open>Joined\<close> the result of
  \<open>errors.Join\<close>, \<open>UserError\<close> an error type of the application with what its \<open>Unwrap\<close>
  gives.  An \<open>error\<close> that may be \<open>nil\<close> is an option.  \<open>errors.As\<close> walks the tree of causes
  in pre-order; the model of it asks for the first error that satisfies a predicate.
\<close>

datatype err =
    ErrClosed | ErrTerminated | ErrPaused | ErrQueueFull | ErrTimeout | ErrCancelled
  | ErrDuplicate | ErrRateLimited | ErrInvalidConfig | ErrPermanent
  | CtxCanceled | CtxDeadlineExceeded
  | Wrapf err string
  | Errorf string
  | PermanentError "err option"
  | RetryableError "err option"
  | Joined "err list"
  | UserError string "err list"

fun Error_text :: "err \<Rightarrow> string" where
  "Error_text ErrClosed = ''fastworker: pool closed''"
| "Error_text ErrTerminated = ''fastworker: pool terminated''"
| "Error_text ErrPaused = ''fastworker: pool paused''"
| "Error_text ErrQueueFull = ''fastworker: queue full''"
| "Error_text ErrTimeout = ''fastworker: timeout''"
| "Error_text ErrCancelled = ''fastworker: cancelled''"
| "Error_text ErrDuplicate = ''fastworker: duplicate job''"
| "Error_text ErrRateLimited = ''fastworker: rate limited''"
| "Error_text ErrInvalidConfig = ''fastworker: invalid config''"
| "Error_text ErrPermanent = ''fastworker: permanent error''"
| "Error_text CtxCanceled = ''context canceled''"
| "Error_text CtxDeadlineExceeded = ''context deadline exceeded''"
| "Error_text (Wrapf e s) = Error_text e @ s"
| "Error_text (Errorf s) = s"
| "Error_text (PermanentError None) = Error_text ErrPermanent"
| "Error_text (PermanentError (Some e)) = Error_text e"
| "Error_text (RetryableError None) = ''retryable''"
| "Error_text (RetryableError (Some e)) = Error_text e"
| "Error_text (Joined []) = []"
| "Error_text (Joined [e]) = Error_text e"
| "Error_text (Joined (e # f # es)) = Error_text e @ CHR 0x0A # Error_text (Joined (f # es))"
| "Error_text (UserError s es) = s"

text \<open>What \<open>Unwrap\<close> gives, and the walk of \<open>errors.As\<close>.\<close>

fun Unwrap :: "err \<Rightarrow> err list" where
  "Unwrap (Wrapf e s) = [e]"
| "Unwrap (PermanentError (Some e)) = [e]"
| "Unwrap (RetryableError (Some e)) = [e]"
| "Unwrap (Joined es) = es"
| "Unwrap (UserError s es) = es"
| "Unwrap _ = []"

lemma Unwrap_size: "c \<in> set (Unwrap e) \<Longrightarrow> size c < size e"
  by (cases e rule: Unwrap.cases) (auto simp: size_list_estimation' less_Suc_eq_le intro: size_list_estimation')

function errors_As :: "(err \<Rightarrow> bool) \<Rightarrow> err \<Rightarrow> bool" where
  "errors_As p e = (p e \<or> (\<exists>c \<in> set (Unwrap e). errors_As p c))"
  by pat_completeness auto
termination
  by (relation "measure (\<lambda>(p, e). size e)") (auto simp: Unwrap_size)

declare errors_As.simps [simp del]

fun is_PermanentError :: "err \<Rightarrow> bool" where
  "is_PermanentError (PermanentError _) = True"
| "is_PermanentError _ = False"

fun is_RetryableError :: "err \<Rightarrow> bool" where
  "is_RetryableError (RetryableError _) = True"
| "is_RetryableError _ = False"

definition Permanent :: "err option \<Rightarrow> err option" where
  "Permanent e = (case e of None \<Rightarrow> None | Some _ \<Rightarrow> Some (PermanentError e))"

definition IsPermanent :: "err option \<Rightarrow> bool" where
  "IsPermanent e = (case e of None \<Rightarrow> False | Some x \<Rightarrow> errors_As is_PermanentError x)"

definition Retryable :: "err option \<Rightarrow> err option" where
  "Retryable e = (case e of None \<Rightarrow> None | Some _ \<Rightarrow> Some (RetryableError e))"

definition IsRetryable :: "err option \<Rightarrow> bool" where
  "IsRetryable e = (case e of None \<Rightarrow> False | Some x \<Rightarrow> errors_As is_RetryableError x)"

subsection \<open>The chain of causes\<close>

inductive caused_by :: "err \<Rightarrow> err \<Rightarrow> bool" where
  self: "caused_by e e"
| cause: "c \<in> set (Unwrap e) \<Longrightarrow> caused_by c d \<Longrightarrow> caused_by e d"

lemma errors_As_iff: "errors_As p e \<longleftrightarrow> (\<exists>d. caused_by e d \<and> p d)"
proof
  show "errors_As p e \<Longrightarrow> \<exists>d. caused_by e d \<and> p d"
  proof (induction p e rule: errors_As.induct)
    case (1 p e)
    then show ?case
      by (subst (asm) (2) errors_As.simps) (auto intro: caused_by.intros)
  qed
next
  assume "\<exists>d. caused_by e d \<and> p d"
  then obtain d where "caused_by e d" "p d" by auto
  then show "errors_As p e"
  proof (induction rule: caused_by.induct)
    case (self e)
    then show ?case by (simp add: errors_As.simps [of p e])
  next
    case (cause c e d)
    then show ?case by (subst errors_As.simps) auto
  qed
qed

text \<open>An error counts as permanent exactly when some error in its tree of causes is a
  \<open>PermanentError\<close>, however deeply \<open>fmt.Errorf\<close>, \<open>Retryable\<close>, \<open>errors.Join\<close> or the
  application wrapped it; in particular \<open>Permanent\<close> of an error is permanent, also when it is
  marked retryable on top, and \<open>nil\<close> stays \<open>nil\<close>.\<close>

theorem IsPermanent_iff:
  "(IsPermanent e \<longleftrightarrow> (\<exists>x d. e = Some x \<and> caused_by x (PermanentError d))) \<and>
   (IsPermanent (Permanent e) \<longleftrightarrow> e \<noteq> None) \<and>
   (IsPermanent (Retryable (Permanent e)) \<longleftrightarrow> e \<noteq> None) \<and>
   (IsRetryable (Retryable e) \<longleftrightarrow> e \<noteq> None)"
proof -
  have perm: "is_PermanentError d \<longleftrightarrow> (\<exists>c. d = PermanentError c)" for d
    by (cases d) auto
  have step: "errors_As p e = (p e \<or> (\<exists>c \<in> set (Unwrap e). errors_As p c))" for p e
    by (rule errors_As.simps)
  have 1: "IsPermanent e \<longleftrightarrow> (\<exists>x d. e = Some x \<and> caused_by x (PermanentError d))"
    by (auto simp: IsPermanent_def errors_As_iff perm split: option.splits)
  have 2: "IsPermanent (Permanent e) \<longleftrightarrow> e \<noteq> None"
    by (auto simp: IsPermanent_def Permanent_def step [of _ "PermanentError _"] split: option.splits)
  have 3: "IsPermanent (Retryable (Permanent e)) \<longleftrightarrow> e \<noteq> None"
    by (auto simp: IsPermanent_def Permanent_def Retryable_def step [of _ "RetryableError _"]
        step [of _ "PermanentError _"] split: option.splits)
  have 4: "IsRetryable (Retryable e) \<longleftrightarrow> e \<noteq> None"
    by (auto simp: IsRetryable_def Retryable_def step [of _ "RetryableError _"] split: option.splits)
  from 1 2 3 4 show ?thesis by blast
qed

end
