(* ===== verification/Job_Model.thy ===== *)
theory Job_Model
  imports Backoff Go_Errors "HOL-Library.AList"
begin

text \<open>
  The data of a job: \<open>job.go\<close>, \<open>callback.go\<close>, \<open>progress.go\<close> and the queue policies and
  default options of \<open>usability.go\<close>.

  A \<open>map[string]string\<close> is an association list with distinct keys, so that its length can be
  asked; nil and empty are the same list, which the code does not tell apart.  A callback is its
  identity and the list of its fields that are not nil.  A job is what names it: a value of the
  application, the closure of a \<open>SubmitResult\<close> with its future, or what a middleware made of
  a job; \<open>nil\<close> is \<open>None\<close>.  Pointers to jobs and futures are numbers, a context is the
  pool's or one derived from it.
\<close>

type_synonym metadata = "(string \<times> string) list"

abbreviation (input) PriorityLow :: int where "PriorityLow \<equiv> -10"
abbreviation (input) PriorityNormal :: int where "PriorityNormal \<equiv> 0"
abbreviation (input) PriorityHigh :: int where "PriorityHigh \<equiv> 10"
abbreviation (input) PriorityCritical :: int where "PriorityCritical \<equiv> 100"

datatype cb_field =
    OnQueued | OnStart | OnSuccess | OnError | OnRetry | OnDeadLetter | OnCancel | OnPanic
  | OnProgress | OnFinally

record callback =
  cb_id :: nat
  cb_fields :: "cb_field list"

record JobOptions =
  o_ID :: string
  o_Queue :: string
  o_Priority :: int
  o_Delay :: duration
  o_RunAt :: time
  o_Timeout :: duration
  o_MaxAttempts :: int
  o_Backoff :: "backoff option"
  o_Metadata :: metadata
  o_IdempotencyKey :: string
  o_ConcurrencyKey :: string
  o_MaxConcurrentPerKey :: int
  o_RateLimitKey :: string
  o_Result :: "nat option"
  o_Callback :: "callback option"
  o_LifecycleMetadata :: metadata

definition no_options :: JobOptions where
  "no_options = \<lparr>o_ID = '''', o_Queue = '''', o_Priority = 0, o_Delay = 0, o_RunAt = 0, o_Timeout = 0,
     o_MaxAttempts = 0, o_Backoff = None, o_Metadata = [], o_IdempotencyKey = '''',
     o_ConcurrencyKey = '''', o_MaxConcurrentPerKey = 0, o_RateLimitKey = '''', o_Result = None,
     o_Callback = None, o_LifecycleMetadata = []\<rparr>"

definition firstOptions :: "JobOptions list \<Rightarrow> JobOptions" where
  "firstOptions opts = (case opts of [] \<Rightarrow> no_options | o1 # _ \<Rightarrow> o1)"

record QueuePolicy =
  qp_Name :: string
  qp_Priority :: int
  qp_Timeout :: duration
  qp_MaxAttempts :: int
  qp_Backoff :: "backoff option"
  qp_RateLimitKey :: string
  qp_ConcurrencyKey :: string
  qp_MaxConcurrentPerKey :: int
  qp_Metadata :: metadata

definition no_policy :: QueuePolicy where
  "no_policy = \<lparr>qp_Name = '''', qp_Priority = 0, qp_Timeout = 0, qp_MaxAttempts = 0, qp_Backoff = None,
     qp_RateLimitKey = '''', qp_ConcurrencyKey = '''', qp_MaxConcurrentPerKey = 0, qp_Metadata = []\<rparr>"

datatype JobState =
  JobQueued | JobRunning | JobSucceeded | JobFailed | JobRetrying | JobDeadLettered | JobCancelled

fun JobState_String :: "JobState \<Rightarrow> string" where
  "JobState_String JobQueued = ''queued''"
| "JobState_String JobRunning = ''running''"
| "JobState_String JobSucceeded = ''succeeded''"
| "JobState_String JobFailed = ''failed''"
| "JobState_String JobRetrying = ''retrying''"
| "JobState_String JobDeadLettered = ''dead_lettered''"
| "JobState_String JobCancelled = ''cancelled''"

record progress =
  pr_Percent :: int
  pr_Message :: string

record JobInfo =
  ji_ID :: string
  ji_Queue :: string
  ji_State :: string
  ji_Priority :: int
  ji_Attempts :: int
  ji_MaxAttempts :: int
  ji_CreatedAt :: time
  ji_RunAt :: time
  ji_StartedAt :: time
  ji_FinishedAt :: time
  ji_LastError :: string
  ji_Metadata :: metadata
  ji_Progress :: progress

datatype job = UserJob nat | ResultJob nat nat | WrappedJob nat job

datatype gctx = PoolCtx | JobCtx nat

record queuedJob =
  qj_seq :: "64 word"
  qj_job :: "job option"
  qj_opts :: JobOptions
  qj_createdAt :: time
  qj_runAt :: time
  qj_startedAt :: time
  qj_finishedAt :: time
  qj_attempt :: int
  qj_future :: "nat option"
  qj_ctx :: "gctx option"
  qj_cancel :: "nat option"
  qj_state :: JobState
  qj_lastErr :: "string option"
  qj_rateReadyAt :: time
  qj_progress :: "progress option"
  qj_pool :: bool

definition zero_job :: queuedJob where
  "zero_job = \<lparr>qj_seq = 0, qj_job = None, qj_opts = no_options, qj_createdAt = 0, qj_runAt = 0,
     qj_startedAt = 0, qj_finishedAt = 0, qj_attempt = 0, qj_future = None, qj_ctx = None,
     qj_cancel = None, qj_state = JobQueued, qj_lastErr = None, qj_rateReadyAt = 0,
     qj_progress = None, qj_pool = False\<rparr>"

definition cloneMetadata :: "metadata \<Rightarrow> metadata" where
  "cloneMetadata md = (if md = [] then [] else fold (\<lambda>(k, v) out. AList.update k v out) md [])"

definition info :: "queuedJob \<Rightarrow> JobInfo" where
  "info q =
     (let errText = (case qj_lastErr q of None \<Rightarrow> '''' | Some s \<Rightarrow> s);
          pr = (case qj_progress q of None \<Rightarrow> \<lparr>pr_Percent = 0, pr_Message = ''''\<rparr> | Some x \<Rightarrow> x)
      in \<lparr>ji_ID = o_ID (qj_opts q), ji_Queue = o_Queue (qj_opts q), ji_State = JobState_String (qj_state q),
          ji_Priority = o_Priority (qj_opts q), ji_Attempts = qj_attempt q,
          ji_MaxAttempts = o_MaxAttempts (qj_opts q), ji_CreatedAt = qj_createdAt q, ji_RunAt = qj_runAt q,
          ji_StartedAt = qj_startedAt q, ji_FinishedAt = qj_finishedAt q, ji_LastError = errText,
          ji_Metadata = cloneMetadata (o_Metadata (qj_opts q)), ji_Progress = pr\<rparr>)"

text \<open>The clamp of \<open>ReportProgress\<close>.\<close>

definition clampPercent :: "int \<Rightarrow> int" where
  "clampPercent percent =
     (let percent = (if percent < 0 then 0 else percent) in if percent > 100 then 100 else percent)"

text \<open>\<open>Chain\<close>: the loop runs from the last middleware to the first.\<close>

definition Chain :: "nat list \<Rightarrow> job \<Rightarrow> job" where
  "Chain m j = foldr WrappedJob m j"

subsection \<open>Defaults\<close>

definition mergeMetadata :: "metadata \<Rightarrow> metadata \<Rightarrow> metadata" where
  "mergeMetadata base over =
     (if base = [] then over
      else fold (\<lambda>(k, v) out. AList.update k v out) over
             (fold (\<lambda>(k, v) out. AList.update k v out) base []))"

definition mergeJobOptions :: "JobOptions \<Rightarrow> JobOptions \<Rightarrow> JobOptions" where
  "mergeJobOptions opt d = opt\<lparr>
     o_ID := (if o_ID opt = '''' then o_ID d else o_ID opt),
     o_Queue := (if o_Queue opt = '''' then o_Queue d else o_Queue opt),
     o_Priority := (if o_Priority opt = PriorityNormal then o_Priority d else o_Priority opt),
     o_Delay := (if o_Delay opt \<le> 0 then o_Delay d else o_Delay opt),
     o_RunAt := (if IsZero (o_RunAt opt) then o_RunAt d else o_RunAt opt),
     o_Timeout := (if o_Timeout opt \<le> 0 then o_Timeout d else o_Timeout opt),
     o_MaxAttempts := (if o_MaxAttempts opt \<le> 0 then o_MaxAttempts d else o_MaxAttempts opt),
     o_Backoff := (if o_Backoff opt = None then o_Backoff d else o_Backoff opt),
     o_IdempotencyKey := (if o_IdempotencyKey opt = '''' then o_IdempotencyKey d else o_IdempotencyKey opt),
     o_ConcurrencyKey := (if o_ConcurrencyKey opt = '''' then o_ConcurrencyKey d else o_ConcurrencyKey opt),
     o_MaxConcurrentPerKey := (if o_MaxConcurrentPerKey opt \<le> 0 then o_MaxConcurrentPerKey d else o_MaxConcurrentPerKey opt),
     o_RateLimitKey := (if o_RateLimitKey opt = '''' then o_RateLimitKey d else o_RateLimitKey opt),
     o_Callback := (if o_Callback opt = None then o_Callback d else o_Callback opt),
     o_Metadata := mergeMetadata (o_Metadata d) (o_Metadata opt)\<rparr>"

definition mergePolicy :: "JobOptions \<Rightarrow> QueuePolicy \<Rightarrow> JobOptions" where
  "mergePolicy opt qp = opt\<lparr>
     o_Priority := (if o_Priority opt = PriorityNormal then qp_Priority qp else o_Priority opt),
     o_Timeout := (if o_Timeout opt \<le> 0 then qp_Timeout qp else o_Timeout opt),
     o_MaxAttempts := (if o_MaxAttempts opt \<le> 0 then qp_MaxAttempts qp else o_MaxAttempts opt),
     o_Backoff := (if o_Backoff opt = None then qp_Backoff qp else o_Backoff opt),
     o_RateLimitKey := (if o_RateLimitKey opt = '''' then qp_RateLimitKey qp else o_RateLimitKey opt),
     o_ConcurrencyKey := (if o_ConcurrencyKey opt = '''' then qp_ConcurrencyKey qp else o_ConcurrencyKey opt),
     o_MaxConcurrentPerKey := (if o_MaxConcurrentPerKey opt \<le> 0 then qp_MaxConcurrentPerKey qp else o_MaxConcurrentPerKey opt),
     o_Metadata := mergeMetadata (qp_Metadata qp) (o_Metadata opt)\<rparr>"

definition applyDefaults ::
  "JobOptions \<Rightarrow> (string \<Rightarrow> QueuePolicy option) \<Rightarrow> (string \<Rightarrow> bool) \<Rightarrow> JobOptions \<Rightarrow> JobOptions" where
  "applyDefaults d queueDefaults pausedQueues opt0 =
     (let opt = mergeJobOptions opt0 d
      in if o_Queue opt \<noteq> '''' then
           (let qp = queueDefaults (o_Queue opt);
                paused = pausedQueues (o_Queue opt);
                opt = (case qp of Some q \<Rightarrow> mergePolicy opt q | None \<Rightarrow> opt)
            in if paused \<and> o_Delay opt \<le> 0 \<and> IsZero (o_RunAt opt)
               then opt\<lparr>o_Delay := 50 * Millisecond\<rparr> else opt)
         else opt)"

subsection \<open>Metadata as maps\<close>

lemma map_of_fold_update:
  "map_of (fold (\<lambda>(k, v) out. AList.update k v out) xs ys) = map_of ys ++ map_of (rev xs)"
  by (induction xs arbitrary: ys) (auto simp: update_conv')

lemma map_of_rev_distinct: "distinct (map fst xs) \<Longrightarrow> map_of (rev xs) = map_of xs"
proof (induction xs)
  case Nil
  then show ?case by simp
next
  case (Cons x xs)
  then have "map_of xs (fst x) = None" by (auto simp: map_of_eq_None_iff)
  with Cons show ?case by (cases x) (auto simp: map_add_def fun_eq_iff split: option.split)
qed

lemma distinct_fold_update:
  "distinct (map fst ys) \<Longrightarrow> distinct (map fst (fold (\<lambda>(k, v) out. AList.update k v out) xs ys))"
proof (induction xs arbitrary: ys)
  case Nil
  then show ?case by simp
next
  case (Cons x xs)
  obtain k v where x: "x = (k, v)" by fastforce
  have "distinct (map fst (AList.update k v ys))" using Cons.prems by (rule distinct_update)
  from Cons.IH [OF this] show ?case by (simp add: x)
qed

lemma mergeMetadata_map:
  "distinct (map fst base) \<Longrightarrow> distinct (map fst over) \<Longrightarrow>
   map_of (mergeMetadata base over) = map_of base ++ map_of over"
  by (auto simp: mergeMetadata_def map_of_fold_update map_of_rev_distinct)

lemma mergeMetadata_distinct:
  "distinct (map fst over) \<Longrightarrow> distinct (map fst (mergeMetadata base over))"
  by (auto simp: mergeMetadata_def intro!: distinct_fold_update)

lemma cloneMetadata_map: "distinct (map fst md) \<Longrightarrow> map_of (cloneMetadata md) = map_of md"
  by (auto simp: cloneMetadata_def map_of_fold_update map_of_rev_distinct)

subsection \<open>What the defaults do\<close>

text \<open>C20. Every option that \<open>applyDefaults\<close> gives a job is the first one that is set of: the options of
  the call, the pool's defaults, the policy of its queue.  The queue itself, the ID, the delay, the run
  time, the idempotency key and the callback come from the first two, which a policy does not have; a
  number counts as set when it is positive, the priority when it is not the normal one; metadata is the union with the same precedence.  A job of a
  paused queue that is due at once is delayed by 50 ms.\<close>

theorem applyDefaults_precedence:
  assumes "distinct (map fst (o_Metadata opt))" "distinct (map fst (o_Metadata d))"
    and "\<And>k q. qd k = Some q \<Longrightarrow> distinct (map fst (qp_Metadata q))"
  shows "let r = applyDefaults d qd paused opt;
       queue = (if o_Queue opt \<noteq> [] then o_Queue opt else o_Queue d);
       policy = (if queue = [] then None else qd queue);
       qp = (case policy of None \<Rightarrow> no_policy | Some q \<Rightarrow> q);
       delay = (if o_Delay opt > 0 then o_Delay opt else o_Delay d)
     in o_Queue r = queue \<and>
       o_ID r = (if o_ID opt \<noteq> [] then o_ID opt else o_ID d) \<and>
       o_RunAt r = (if o_RunAt opt \<noteq> 0 then o_RunAt opt else o_RunAt d) \<and>
       o_IdempotencyKey r = (if o_IdempotencyKey opt \<noteq> [] then o_IdempotencyKey opt else o_IdempotencyKey d) \<and>
       o_Callback r = (if o_Callback opt \<noteq> None then o_Callback opt else o_Callback d) \<and>
       o_Priority r = (if o_Priority opt \<noteq> 0 then o_Priority opt
         else if o_Priority d \<noteq> 0 then o_Priority d else qp_Priority qp) \<and>
       o_Timeout r = (if 0 < o_Timeout opt then o_Timeout opt
         else if 0 < o_Timeout d \<or> policy = None then o_Timeout d else qp_Timeout qp) \<and>
       o_MaxAttempts r = (if 0 < o_MaxAttempts opt then o_MaxAttempts opt
         else if 0 < o_MaxAttempts d \<or> policy = None then o_MaxAttempts d else qp_MaxAttempts qp) \<and>
       o_MaxConcurrentPerKey r = (if 0 < o_MaxConcurrentPerKey opt then o_MaxConcurrentPerKey opt
         else if 0 < o_MaxConcurrentPerKey d \<or> policy = None then o_MaxConcurrentPerKey d else qp_MaxConcurrentPerKey qp) \<and>
       o_Backoff r = (if o_Backoff opt \<noteq> None then o_Backoff opt
         else if o_Backoff d \<noteq> None then o_Backoff d else qp_Backoff qp) \<and>
       o_ConcurrencyKey r = (if o_ConcurrencyKey opt \<noteq> [] then o_ConcurrencyKey opt
         else if o_ConcurrencyKey d \<noteq> [] then o_ConcurrencyKey d else qp_ConcurrencyKey qp) \<and>
       o_RateLimitKey r = (if o_RateLimitKey opt \<noteq> [] then o_RateLimitKey opt
         else if o_RateLimitKey d \<noteq> [] then o_RateLimitKey d else qp_RateLimitKey qp) \<and>
       map_of (o_Metadata r) = map_of (qp_Metadata qp) ++ (map_of (o_Metadata d) ++ map_of (o_Metadata opt)) \<and>
       o_Delay r = (if queue \<noteq> [] \<and> paused queue \<and> delay \<le> 0 \<and> o_RunAt opt = 0 \<and> o_RunAt d = 0
         then 50 * Millisecond else delay)"
proof -
  let ?m = "mergeJobOptions opt d"
  let ?queue = "if o_Queue opt \<noteq> [] then o_Queue opt else o_Queue d"
  have queue: "o_Queue ?m = ?queue" by (simp add: mergeJobOptions_def)
  have md: "map_of (o_Metadata ?m) = map_of (o_Metadata d) ++ map_of (o_Metadata opt)"
    "distinct (map fst (o_Metadata ?m))"
    using assms by (simp_all add: mergeJobOptions_def mergeMetadata_map mergeMetadata_distinct)
  note defs = applyDefaults_def mergePolicy_def Let_def no_policy_def IsZero_def
  show ?thesis
  proof (cases "?queue = [] \<or> qd ?queue = None")
    case True
    then have r: "applyDefaults d qd paused opt = (if ?queue \<noteq> [] \<and> paused ?queue \<and> o_Delay ?m \<le> 0 \<and> o_RunAt ?m = 0
        then ?m\<lparr>o_Delay := 50 * Millisecond\<rparr> else ?m)"
      using queue by (cases "?queue = []") (simp_all only: defs option.case if_True if_False simp_thms)
    from True have q: "(if ?queue = [] then None else qd ?queue) = None" by (cases "?queue = []") simp_all
    show ?thesis unfolding Let_def q r option.case
      by (intro conjI) (simp_all add: md queue no_policy_def mergeMetadata_def, auto simp: mergeJobOptions_def IsZero_def)
  next
    case False
    then obtain qp where qp: "?queue \<noteq> []" "qd ?queue = Some qp" by auto
    then have r: "applyDefaults d qd paused opt = (let m = mergePolicy ?m qp in
        if paused ?queue \<and> o_Delay ?m \<le> 0 \<and> o_RunAt ?m = 0 then m\<lparr>o_Delay := 50 * Millisecond\<rparr> else m)"
      using queue by (simp add: applyDefaults_def Let_def IsZero_def mergePolicy_def)
    from qp have q: "(if ?queue = [] then None else qd ?queue) = Some qp" by simp
    have "map_of (o_Metadata (mergePolicy ?m qp)) = map_of (qp_Metadata qp) ++ (map_of (o_Metadata d) ++ map_of (o_Metadata opt))"
      by (simp add: mergePolicy_def mergeMetadata_map [OF assms(3) [OF qp(2)] md(2)] md(1))
    then show ?thesis unfolding Let_def q r option.case using qp(1)
      by (intro conjI) (simp_all add: queue, simp_all add: mergePolicy_def, auto simp: mergeJobOptions_def IsZero_def)
  qed
qed

theorem applyDefaults_precedence_witness:
  "let qd = (\<lambda>k. if k = ''mail'' then Some (no_policy\<lparr>qp_MaxAttempts := 3, qp_Priority := 10, qp_ConcurrencyKey := ''db''\<rparr>) else None);
     r = applyDefaults no_options qd (\<lambda>_. True) (no_options\<lparr>o_Queue := ''mail'', o_ConcurrencyKey := ''smtp''\<rparr>)
   in o_MaxAttempts r = 3 \<and> o_Priority r = 10 \<and> o_ConcurrencyKey r = ''smtp'' \<and> o_Delay r = 50 * Millisecond"
proof -
  let ?qd = "\<lambda>k. if k = ''mail'' then Some (no_policy\<lparr>qp_MaxAttempts := 3, qp_Priority := 10, qp_ConcurrencyKey := ''db''\<rparr>) else None"
  have "distinct (map fst (qp_Metadata q))" if "?qd k = Some q" for k q
    using that by (auto simp: no_policy_def split: if_splits)
  note this = applyDefaults_precedence [of "no_options\<lparr>o_Queue := ''mail'', o_ConcurrencyKey := ''smtp''\<rparr>" no_options ?qd "\<lambda>_. True", OF _ _ this]
  from this
  show ?thesis by (simp add: no_options_def no_policy_def Let_def)
qed

end
