(* ===== verification/Lifecycle.thy ===== *)
theory Lifecycle
  imports Job_Model
begin

text \<open>
  The event bus of \<open>lifecycle.go\<close>.  Handlers are named by numbers; what a handler's function
  does is a parameter: whether it panics on an event, and what it does to the bus itself (it may
  subscribe or unsubscribe).  \<open>emit\<close> takes its snapshot under the lock and then calls the
  handlers one after the other, or, in asynchronous mode, starts a goroutine for each, which are
  returned apart; their \<open>run\<close> is the same function.  A \<open>nil\<close> bus is \<open>None\<close>.
\<close>

type_synonym EventType = string

abbreviation (input) EventPoolCreated :: EventType where "EventPoolCreated \<equiv> ''pool.created''"
abbreviation (input) EventPoolStarting :: EventType where "EventPoolStarting \<equiv> ''pool.starting''"
abbreviation (input) EventPoolStarted :: EventType where "EventPoolStarted \<equiv> ''pool.started''"
abbreviation (input) EventPoolPausing :: EventType where "EventPoolPausing \<equiv> ''pool.pausing''"
abbreviation (input) EventPoolPaused :: EventType where "EventPoolPaused \<equiv> ''pool.paused''"
abbreviation (input) EventPoolResuming :: EventType where "EventPoolResuming \<equiv> ''pool.resuming''"
abbreviation (input) EventPoolResumed :: EventType where "EventPoolResumed \<equiv> ''pool.resumed''"
abbreviation (input) EventPoolStopping :: EventType where "EventPoolStopping \<equiv> ''pool.stopping''"
abbreviation (input) EventPoolStopped :: EventType where "EventPoolStopped \<equiv> ''pool.stopped''"
abbreviation (input) EventPoolTerminating :: EventType where "EventPoolTerminating \<equiv> ''pool.terminating''"
abbreviation (input) EventPoolTerminated :: EventType where "EventPoolTerminated \<equiv> ''pool.terminated''"
abbreviation (input) EventDrainStarted :: EventType where "EventDrainStarted \<equiv> ''drain.started''"
abbreviation (input) EventDrainCompleted :: EventType where "EventDrainCompleted \<equiv> ''drain.completed''"
abbreviation (input) EventQueuePaused :: EventType where "EventQueuePaused \<equiv> ''queue.paused''"
abbreviation (input) EventQueueResumed :: EventType where "EventQueueResumed \<equiv> ''queue.resumed''"
abbreviation (input) EventQueueFull :: EventType where "EventQueueFull \<equiv> ''queue.full''"
abbreviation (input) EventQueueSpill :: EventType where "EventQueueSpill \<equiv> ''queue.spill''"
abbreviation (input) EventWorkerStarting :: EventType where "EventWorkerStarting \<equiv> ''worker.starting''"
abbreviation (input) EventWorkerStarted :: EventType where "EventWorkerStarted \<equiv> ''worker.started''"
abbreviation (input) EventWorkerStopping :: EventType where "EventWorkerStopping \<equiv> ''worker.stopping''"
abbreviation (input) EventWorkerStopped :: EventType where "EventWorkerStopped \<equiv> ''worker.stopped''"
abbreviation (input) EventWorkerIdle :: EventType where "EventWorkerIdle \<equiv> ''worker.idle''"
abbreviation (input) EventJobSubmitting :: EventType where "EventJobSubmitting \<equiv> ''job.submitting''"
abbreviation (input) EventJobSubmitted :: EventType where "EventJobSubmitted \<equiv> ''job.submitted''"
abbreviation (input) EventJobAccepted :: EventType where "EventJobAccepted \<equiv> ''job.accepted''"
abbreviation (input) EventJobRejected :: EventType where "EventJobRejected \<equiv> ''job.rejected''"
abbreviation (input) EventJobQueued :: EventType where "EventJobQueued \<equiv> ''job.queued''"
abbreviation (input) EventJobDequeued :: EventType where "EventJobDequeued \<equiv> ''job.dequeued''"
abbreviation (input) EventJobStarting :: EventType where "EventJobStarting \<equiv> ''job.starting''"
abbreviation (input) EventJobStarted :: EventType where "EventJobStarted \<equiv> ''job.started''"
abbreviation (input) EventJobSucceeded :: EventType where "EventJobSucceeded \<equiv> ''job.succeeded''"
abbreviation (input) EventJobFailed :: EventType where "EventJobFailed \<equiv> ''job.failed''"
abbreviation (input) EventJobRetrying :: EventType where "EventJobRetrying \<equiv> ''job.retrying''"
abbreviation (input) EventJobRetried :: EventType where "EventJobRetried \<equiv> ''job.retried''"
abbreviation (input) EventJobDeadLettered :: EventType where "EventJobDeadLettered \<equiv> ''job.dead_lettered''"
abbreviation (input) EventJobCancelled :: EventType where "EventJobCancelled \<equiv> ''job.cancelled''"
abbreviation (input) EventJobProgress :: EventType where "EventJobProgress \<equiv> ''job.progress''"
abbreviation (input) EventJobPanic :: EventType where "EventJobPanic \<equiv> ''job.panic''"
abbreviation (input) EventJobTimeout :: EventType where "EventJobTimeout \<equiv> ''job.timeout''"
abbreviation (input) EventJobRateDelayed :: EventType where "EventJobRateDelayed \<equiv> ''job.rate_delayed''"
abbreviation (input) EventJobConcurrencyDelayed :: EventType where "EventJobConcurrencyDelayed \<equiv> ''job.concurrency_delayed''"
abbreviation (input) EventHookPanic :: EventType where "EventHookPanic \<equiv> ''hook.panic''"

record event =
  ev_Type :: EventType
  ev_Time :: time
  ev_Pool :: string
  ev_State :: string
  ev_Queue :: string
  ev_WorkerID :: int
  ev_Job :: "JobInfo option"
  ev_Options :: "JobOptions option"
  ev_Attempt :: int
  ev_Duration :: duration
  ev_Error :: "err option"
  ev_ErrorText :: string
  ev_Panic :: "nat option"
  ev_Message :: string

definition mk_event :: "EventType \<Rightarrow> event" where
  "mk_event t = \<lparr>ev_Type = t, ev_Time = 0, ev_Pool = '''', ev_State = '''', ev_Queue = '''', ev_WorkerID = 0,
     ev_Job = None, ev_Options = None, ev_Attempt = 0, ev_Duration = 0, ev_Error = None,
     ev_ErrorText = '''', ev_Panic = None, ev_Message = ''''\<rparr>"

record handlerEntry =
  he_id :: string
  he_fn :: nat

record lifecycle =
  lc_seq :: "64 word"
  lc_all :: "handlerEntry list"
  lc_typed :: "EventType \<Rightarrow> handlerEntry list"
  lc_async :: bool
  lc_recovered :: "64 word"

definition NewLifecycle :: lifecycle where
  "NewLifecycle = \<lparr>lc_seq = 0, lc_all = [], lc_typed = (\<lambda>_. []), lc_async = False, lc_recovered = 0\<rparr>"

definition SetAsync :: "bool \<Rightarrow> lifecycle \<Rightarrow> lifecycle" where
  "SetAsync v l = l\<lparr>lc_async := v\<rparr>"

definition RecoveredPanics :: "lifecycle option \<Rightarrow> 64 word" where
  "RecoveredPanics l = (case l of None \<Rightarrow> 0 | Some b \<Rightarrow> lc_recovered b)"

text \<open>\<open>On\<close> gives the identity the unsubscribe function closes over; a \<open>nil\<close> function is
  \<open>None\<close> and registers nothing.\<close>

definition lifecycle_On :: "nat option \<Rightarrow> EventType list \<Rightarrow> lifecycle \<Rightarrow> string option \<times> lifecycle" where
  "lifecycle_On fn types l =
     (case fn of
        None \<Rightarrow> (None, l)
      | Some f \<Rightarrow>
          let l = l\<lparr>lc_seq := lc_seq l + 1\<rparr>;
              hid = ''h-'' @ FormatUint (lc_seq l);
              e = \<lparr>he_id = hid, he_fn = f\<rparr>
          in (Some hid,
              if types = [] then l\<lparr>lc_all := lc_all l @ [e]\<rparr>
              else l\<lparr>lc_typed := fold (\<lambda>t m. m(t := m t @ [e])) types (lc_typed l)\<rparr>))"

fun removeEntry :: "handlerEntry list \<Rightarrow> string \<Rightarrow> handlerEntry list" where
  "removeEntry [] hid = []"
| "removeEntry (e # es) hid = (if he_id e \<noteq> hid then e # removeEntry es hid else removeEntry es hid)"

definition lifecycle_off :: "string \<Rightarrow> lifecycle \<Rightarrow> lifecycle" where
  "lifecycle_off hid l =
     l\<lparr>lc_all := removeEntry (lc_all l) hid, lc_typed := (\<lambda>t. removeEntry (lc_typed l t) hid)\<rparr>"

record handler_sem =
  hs_panics :: "nat \<Rightarrow> event \<Rightarrow> bool"
  hs_effect :: "nat \<Rightarrow> event \<Rightarrow> lifecycle \<Rightarrow> lifecycle"

text \<open>One \<open>run\<close>: the call and the deferred recovery.\<close>

definition run_handler :: "handler_sem \<Rightarrow> event \<Rightarrow> handlerEntry \<Rightarrow> lifecycle \<Rightarrow> lifecycle" where
  "run_handler hs ev h l =
     (let l = hs_effect hs (he_fn h) ev l
      in if hs_panics hs (he_fn h) ev then l\<lparr>lc_recovered := lc_recovered l + 1\<rparr> else l)"

text \<open>The loop over the snapshot: the bus afterwards, the handlers run here and those started as
  goroutines.  The flag \<open>async\<close> is read again for each.\<close>

fun run_handlers :: "handler_sem \<Rightarrow> event \<Rightarrow> handlerEntry list \<Rightarrow> lifecycle \<Rightarrow> lifecycle \<times> handlerEntry list \<times> handlerEntry list" where
  "run_handlers hs ev [] l = (l, [], [])"
| "run_handlers hs ev (h # rest) l =
     (if lc_async l then (case run_handlers hs ev rest l of (l', called, started) \<Rightarrow> (l', called, h # started))
      else case run_handlers hs ev rest (run_handler hs ev h l) of (l', called, started) \<Rightarrow> (l', h # called, started))"

definition lifecycle_emit ::
  "handler_sem \<Rightarrow> time \<Rightarrow> event \<Rightarrow> lifecycle \<Rightarrow> lifecycle \<times> event \<times> handlerEntry list \<times> handlerEntry list" where
  "lifecycle_emit hs now ev l =
     (let ev = (if IsZero (ev_Time ev) then ev\<lparr>ev_Time := now\<rparr> else ev);
          n = length (lc_all l) + length (lc_typed l (ev_Type ev))
      in if n = 0 then (l, ev, [], [])
         else let handlers = lc_all l @ lc_typed l (ev_Type ev)
              in case run_handlers hs ev handlers l of (l', called, started) \<Rightarrow> (l', ev, called, started))"

subsection \<open>Subscriptions\<close>

text \<open>The identities in use are those of numbers already drawn.\<close>

definition entries :: "lifecycle \<Rightarrow> handlerEntry set" where
  "entries l = set (lc_all l) \<union> (\<Union>t. set (lc_typed l t))"

definition lifecycle_inv :: "lifecycle \<Rightarrow> bool" where
  "lifecycle_inv l \<longleftrightarrow> (\<forall>e \<in> entries l. \<exists>n. he_id e = ''h-'' @ FormatUint n \<and> n \<le> lc_seq l)"

lemma removeEntry_filter: "removeEntry es hid = filter (\<lambda>e. he_id e \<noteq> hid) es"
  by (induction es) auto

lemma typed_fold:
  "fold (\<lambda>t m. m(t := m t @ [e])) types m t = m t @ replicate (count_list types t) e"
  by (induction types arbitrary: m) (auto simp: replicate_app_Cons_same)

lemma lifecycle_inv_New: "lifecycle_inv NewLifecycle"
  by (simp add: lifecycle_inv_def entries_def NewLifecycle_def)

lemma seq_up: "(s :: 64 word) \<noteq> -1 \<Longrightarrow> s < s + 1"
  by (metis inc_less_eq_self_iff_eq linorder_not_less)

lemma lifecycle_inv_On:
  assumes "lifecycle_inv l" "lc_seq l \<noteq> -1"
  shows "lifecycle_inv (snd (lifecycle_On fn types l))"
proof (cases fn)
  case (Some f)
  let ?e = "\<lparr>he_id = ''h-'' @ FormatUint (lc_seq l + 1), he_fn = f\<rparr>"
  have seq: "lc_seq (snd (lifecycle_On fn types l)) = lc_seq l + 1"
    by (simp add: lifecycle_On_def Some Let_def)
  have "entries (snd (lifecycle_On fn types l)) \<subseteq> insert ?e (entries l)"
    by (auto simp: lifecycle_On_def Some Let_def entries_def typed_fold split: if_splits)
  moreover have "\<exists>n. he_id e = ''h-'' @ FormatUint n \<and> n \<le> lc_seq l + 1" if "e \<in> insert ?e (entries l)" for e
  proof (cases "e = ?e")
    case True
    then show ?thesis by (intro exI [of _ "lc_seq l + 1"]) simp
  next
    case False
    with that assms(1) obtain n where "he_id e = ''h-'' @ FormatUint n" "n \<le> lc_seq l"
      by (auto simp: lifecycle_inv_def)
    with seq_up [OF assms(2)] show ?thesis by (intro exI [of _ n]) auto
  qed
  ultimately show ?thesis unfolding lifecycle_inv_def seq by blast
qed (use assms in \<open>simp add: lifecycle_On_def\<close>)

lemma fresh_id:
  assumes "lifecycle_inv l" "lc_seq l \<noteq> -1" "e \<in> entries l"
  shows "he_id e \<noteq> ''h-'' @ FormatUint (lc_seq l + 1)"
proof -
  obtain n where "he_id e = ''h-'' @ FormatUint n" "n \<le> lc_seq l"
    using assms by (auto simp: lifecycle_inv_def)
  with seq_up [OF assms(2)] show ?thesis by auto
qed

lemma removeEntry_fresh: "(\<And>e. e \<in> set es \<Longrightarrow> he_id e \<noteq> hid) \<Longrightarrow> removeEntry es hid = es"
  by (simp add: removeEntry_filter)

text \<open>Subscribing and then unsubscribing leaves every other subscription as it was, in its
  order, also those of the same function; in between, the new handler is in the snapshot of an
  event exactly as often as its type was listed (once for every event when none was).\<close>

theorem On_off:
  assumes inv: "lifecycle_inv l" and seq: "lc_seq l \<noteq> -1" and on: "lifecycle_On (Some f) types l = (Some hid, l')"
  shows "lc_all (lifecycle_off hid l') = lc_all l \<and> lc_typed (lifecycle_off hid l') = lc_typed l \<and>
    lifecycle_inv l' \<and>
    (\<forall>t. filter (\<lambda>e. he_id e = hid) (lc_all l' @ lc_typed l' t) =
      replicate (if types = [] then 1 else count_list types t) \<lparr>he_id = hid, he_fn = f\<rparr>)"
proof -
  have hid: "hid = ''h-'' @ FormatUint (lc_seq l + 1)" using on by (simp add: lifecycle_On_def Let_def)
  have ne: "he_id e \<noteq> hid" if "e \<in> set (lc_all l) \<or> e \<in> set (lc_typed l t)" for e t
    using fresh_id [OF inv seq, of e] that hid by (auto simp: entries_def)
  have l': "lc_all l' = lc_all l @ (if types = [] then [\<lparr>he_id = hid, he_fn = f\<rparr>] else [])"
    "lc_typed l' t = lc_typed l t @ replicate (count_list types t) \<lparr>he_id = hid, he_fn = f\<rparr>" for t
    using on by (auto simp: lifecycle_On_def Let_def typed_fold)
  have kept: "filter (\<lambda>e. he_id e \<noteq> hid) (lc_all l) = lc_all l" "filter (\<lambda>e. he_id e \<noteq> hid) (lc_typed l t) = lc_typed l t"
    "filter (\<lambda>e. he_id e = hid) (lc_all l) = []" "filter (\<lambda>e. he_id e = hid) (lc_typed l t) = []" for t
    using ne by (auto simp: filter_id_conv filter_empty_conv)
  have "lifecycle_inv l'" using lifecycle_inv_On [OF inv seq, of "Some f" types] on by simp
  then show ?thesis
    by (simp add: lifecycle_off_def removeEntry_filter l' kept)
qed

theorem On_off_witness:
  "lc_all (lifecycle_off ''h-1'' (snd (lifecycle_On (Some 7) [] NewLifecycle))) = []"
proof -
  have "lifecycle_On (Some 7) [] NewLifecycle = (Some ''h-1'', snd (lifecycle_On (Some 7) [] NewLifecycle))"
  proof (rule prod_eqI)
    have "digits 1 = ''1''" by code_simp
    then show "fst (lifecycle_On (Some 7) [] NewLifecycle) = fst (Some ''h-1'', snd (lifecycle_On (Some 7) [] NewLifecycle))"
      by (simp add: lifecycle_On_def NewLifecycle_def Let_def FormatUint_def)
  qed simp
  from On_off [OF lifecycle_inv_New _ this] show ?thesis by (simp add: NewLifecycle_def)
qed

subsection \<open>Emitting\<close>

lemma run_handlers_snapshot:
  "run_handlers hs ev es l = (l', called, started) \<Longrightarrow> mset es = mset called + mset started \<and>
   (\<not> lc_async l \<longrightarrow> (\<forall>f e l. lc_async (hs_effect hs f e l) = lc_async l) \<longrightarrow>
     called = es \<and> \<not> lc_async l')"
proof (induction es arbitrary: l l' called started)
  case Nil
  then show ?case by simp
next
  case (Cons h es)
  show ?case
  proof (cases "lc_async l")
    case True
    obtain r s where s: "run_handlers hs ev es l = (l', r, s)" "called = r" "started = h # s"
      using Cons.prems True by (auto split: prod.splits)
    from Cons.IH [OF s(1)] s True show ?thesis by simp
  next
    case False
    obtain r s where s: "run_handlers hs ev es (run_handler hs ev h l) = (l', r, s)" "called = h # r" "started = s"
      using Cons.prems False by (auto split: prod.splits)
    from Cons.IH [OF s(1)] s False show ?thesis by (simp add: run_handler_def Let_def)
  qed
qed

lemma run_handlers_recovered:
  assumes frame: "\<And>f e l. lc_async (hs_effect hs f e l) = lc_async l \<and> lc_recovered (hs_effect hs f e l) = lc_recovered l"
  shows "\<not> lc_async l \<Longrightarrow> run_handlers hs ev es l = (l', called, started) \<Longrightarrow>
    lc_recovered l' = lc_recovered l + of_nat (length (filter (\<lambda>h. hs_panics hs (he_fn h) ev) es))"
proof (induction es arbitrary: l called)
  case Nil
  then show ?case by simp
next
  case (Cons h es)
  obtain r where s: "run_handlers hs ev es (run_handler hs ev h l) = (l', r, started)"
    using Cons.prems by (auto split: prod.splits)
  have "\<not> lc_async (run_handler hs ev h l)" using Cons.prems(1) frame by (simp add: run_handler_def Let_def)
  from Cons.IH [OF this s] show ?case
    using frame by (auto simp: run_handler_def Let_def algebra_simps)
qed

text \<open>C22. \<open>emit\<close> reaches every handler subscribed to all events or to the event's type when the
  snapshot is taken, once per subscription, whatever handlers that run before it do: in
  synchronous mode they run in subscription order, a panic of one does not keep the next from
  running, and each panic is counted; handlers that subscribe or unsubscribe while the event is
  delivered do not change who receives it.  An event without a time gets the clock's.\<close>

theorem emit_reaches_all:
  assumes frame: "\<And>f e l. lc_async (hs_effect hs f e l) = lc_async l \<and> lc_recovered (hs_effect hs f e l) = lc_recovered l"
    and em: "lifecycle_emit hs now ev l = (l', ev', called, started)"
  shows "mset called + mset started = mset (lc_all l @ lc_typed l (ev_Type ev)) \<and>
    ev' = ev\<lparr>ev_Time := (if ev_Time ev = 0 then now else ev_Time ev)\<rparr> \<and>
    (\<not> lc_async l \<longrightarrow> called = lc_all l @ lc_typed l (ev_Type ev) \<and> started = [] \<and>
       lc_recovered l' = lc_recovered l + of_nat (length (filter (\<lambda>h. hs_panics hs (he_fn h) ev') called)))"
proof -
  let ?es = "lc_all l @ lc_typed l (ev_Type ev)"
  have ev': "ev' = ev\<lparr>ev_Time := (if ev_Time ev = 0 then now else ev_Time ev)\<rparr>"
    using em by (auto simp: lifecycle_emit_def Let_def IsZero_def split: if_splits prod.splits)
  have t: "ev_Type ev' = ev_Type ev" by (simp add: ev')
  show ?thesis
  proof (cases "?es = []")
    case True
    then have "l' = l" "called = []" "started = []"
      using em by (auto simp: lifecycle_emit_def Let_def split: if_splits)
    with True ev' show ?thesis by simp
  next
    case False
    then have r: "run_handlers hs ev' ?es l = (l', called, started)"
      using em ev' by (auto simp: lifecycle_emit_def Let_def IsZero_def split: if_splits prod.splits)
    note snap = run_handlers_snapshot [OF r]
    have "called = ?es \<and> started = []" if "\<not> lc_async l"
    proof -
      have "called = ?es" using snap that frame by blast
      with snap show ?thesis by simp
    qed
    then show ?thesis using snap run_handlers_recovered [OF frame _ r] ev' by auto
  qed
qed

theorem emit_reaches_all_witness:
  "let hs = \<lparr>hs_panics = (\<lambda>f _. f = 1), hs_effect = (\<lambda>_ _ l. l)\<rparr>;
       l = snd (lifecycle_On (Some 2) [EventJobFailed] (snd (lifecycle_On (Some 1) [] NewLifecycle)))
   in map he_fn (fst (snd (snd (lifecycle_emit hs 5 (mk_event EventJobFailed) l)))) = [1, 2]"
proof -
  let ?hs = "\<lparr>hs_panics = (\<lambda>f _. f = 1), hs_effect = (\<lambda>_ _ l. l)\<rparr>"
  let ?l = "snd (lifecycle_On (Some 2) [EventJobFailed] (snd (lifecycle_On (Some 1) [] NewLifecycle)))"
  obtain l' ev' called started where em: "lifecycle_emit ?hs 5 (mk_event EventJobFailed) ?l = (l', ev', called, started)"
    using prod_cases4 by blast
  have "called = lc_all ?l @ lc_typed ?l EventJobFailed"
    using emit_reaches_all [OF _ em] by (simp add: lifecycle_On_def NewLifecycle_def Let_def mk_event_def)
  then show ?thesis unfolding Let_def em by (simp add: lifecycle_On_def NewLifecycle_def Let_def)
qed

end
