(* ===== verification/Future.thy ===== *)
theory Future
  imports Job_Model
begin

text \<open>
  \<open>futureAny\<close> of \<open>future.go\<close>.  A dynamic value is a type and a content; \<open>nil\<close> is
  \<open>None\<close>.  \<open>once\<close> says whether the \<open>sync.Once\<close> has run, \<open>done\<close> whether the channel
  is closed; closing it twice panics, which is the result \<open>None\<close> of \<open>close_done\<close>.
\<close>

datatype any = Any (any_type: nat) (any_value: nat)

record futureAny =
  fu_once :: bool
  fu_done :: bool
  fu_val :: "any option"
  fu_err :: "err option"
  fu_cancel :: "nat option"

definition newFutureAny :: futureAny where
  "newFutureAny = \<lparr>fu_once = False, fu_done = False, fu_val = None, fu_err = None, fu_cancel = None\<rparr>"

definition close_done :: "futureAny \<Rightarrow> futureAny option" where
  "close_done f = (if fu_done f then None else Some (f\<lparr>fu_done := True\<rparr>))"

definition setValue :: "any option \<Rightarrow> futureAny \<Rightarrow> futureAny" where
  "setValue v f = f\<lparr>fu_val := v\<rparr>"

definition complete :: "any option \<Rightarrow> err option \<Rightarrow> futureAny \<Rightarrow> futureAny option" where
  "complete v e f =
     (if fu_once f then Some f
      else let f = f\<lparr>fu_once := True\<rparr>;
               f = (if v \<noteq> None then f\<lparr>fu_val := v\<rparr> else f);
               f = f\<lparr>fu_err := e\<rparr>
           in close_done f)"

text \<open>\<open>Cancel\<close> also calls the cancel function; the first component is the context it cancels.\<close>

definition future_Cancel :: "futureAny \<Rightarrow> (nat option \<times> bool \<times> futureAny) option" where
  "future_Cancel f =
     (if fu_once f then Some (fu_cancel f, False, f)
      else case close_done (f\<lparr>fu_once := True, fu_err := Some ErrCancelled\<rparr>) of
        None \<Rightarrow> None
      | Some f' \<Rightarrow> Some (fu_cancel f, True, f'))"

text \<open>\<open>Get\<close> of a \<open>futureTyped[T]\<close> whose type is \<open>t\<close> and zero value \<open>zero\<close>: it waits for
  the future or for the caller's context, whose error is \<open>ctxErr\<close> once it is done; when both are
  ready \<open>select\<close> takes either, here the one \<open>prefer_ctx\<close> says.  \<open>None\<close>: it waits.\<close>

definition future_Get ::
  "nat \<Rightarrow> any \<Rightarrow> bool \<Rightarrow> err option \<Rightarrow> futureAny \<Rightarrow> (any \<times> err option) option" where
  "future_Get t zero prefer_ctx ctxErr f =
     (if fu_done f \<and> \<not> (prefer_ctx \<and> ctxErr \<noteq> None) then
        Some (if fu_err f \<noteq> None then (zero, fu_err f)
              else case fu_val f of
                None \<Rightarrow> (zero, None)
              | Some v \<Rightarrow> if any_type v = t then (v, None) else (zero, None))
      else if ctxErr \<noteq> None then Some (zero, ctxErr)
      else None)"

subsection \<open>Operations in any order\<close>

datatype future_op = FSet "any option" | FComplete "any option" "err option" | FCancel

fun future_step :: "future_op \<Rightarrow> futureAny \<Rightarrow> futureAny option" where
  "future_step (FSet v) f = Some (setValue v f)"
| "future_step (FComplete v e) f = complete v e f"
| "future_step FCancel f = map_option (\<lambda>(_, _, f'). f') (future_Cancel f)"

fun future_run :: "future_op list \<Rightarrow> futureAny \<Rightarrow> futureAny option" where
  "future_run [] f = Some f"
| "future_run (op # ops) f = (case future_step op f of None \<Rightarrow> None | Some f' \<Rightarrow> future_run ops f')"

definition future_inv :: "futureAny \<Rightarrow> bool" where
  "future_inv f \<longleftrightarrow> fu_done f = fu_once f"

lemma future_step_inv:
  "future_inv f \<Longrightarrow> \<exists>f'. future_step op f = Some f' \<and> future_inv f'"
  by (cases op) (auto simp: future_inv_def complete_def future_Cancel_def close_done_def setValue_def Let_def)

lemma future_run_inv: "future_inv f \<Longrightarrow> \<exists>f'. future_run ops f = Some f' \<and> future_inv f'"
proof (induction ops arbitrary: f)
  case Nil
  then show ?case by simp
next
  case (Cons op ops)
  obtain f' where "future_step op f = Some f'" "future_inv f'" using future_step_inv Cons.prems by blast
  with Cons.IH show ?case by simp
qed

lemma future_step_settled:
  "fu_once f \<Longrightarrow> future_step op f = Some f' \<Longrightarrow> fu_once f' \<and> fu_err f' = fu_err f \<and> fu_done f' = fu_done f"
  by (cases op) (auto simp: complete_def future_Cancel_def setValue_def)

lemma future_run_settled:
  "fu_once f \<Longrightarrow> future_run ops f = Some f' \<Longrightarrow> fu_once f' \<and> fu_err f' = fu_err f \<and> fu_done f' = fu_done f"
proof (induction ops arbitrary: f)
  case Nil
  then show ?case by simp
next
  case (Cons op ops)
  then obtain g where g: "future_step op f = Some g" "future_run ops g = Some f'"
    by (auto split: option.splits)
  from future_step_settled [OF Cons.prems(1) g(1)] Cons.IH [OF _ g(2)] show ?case by auto
qed

lemma future_run_append:
  "future_run (xs @ ys) f = (case future_run xs f of None \<Rightarrow> None | Some g \<Rightarrow> future_run ys g)"
  by (induction xs arbitrary: f) (auto split: option.split)

text \<open>The operations that decide a future.\<close>

fun settles :: "future_op \<Rightarrow> bool" where
  "settles (FSet _) = False"
| "settles _ = True"

fun settled_err :: "future_op \<Rightarrow> err option" where
  "settled_err (FComplete _ e) = e"
| "settled_err _ = Some ErrCancelled"

lemma future_step_settles:
  "future_inv f \<Longrightarrow> \<not> fu_once f \<Longrightarrow> settles op \<Longrightarrow> future_step op f = Some f' \<Longrightarrow>
   fu_once f' \<and> fu_done f' \<and> fu_err f' = settled_err op"
  by (cases op) (auto simp: future_inv_def complete_def future_Cancel_def close_done_def Let_def split: if_splits)

lemma future_run_unsettled:
  "\<forall>op \<in> set ops. \<not> settles op \<Longrightarrow> \<not> fu_once f \<Longrightarrow> future_run ops f = Some f' \<Longrightarrow> \<not> fu_once f'"
proof (induction ops arbitrary: f)
  case Nil
  then show ?case by simp
next
  case (Cons op ops)
  then obtain v where op: "op = FSet v" by (cases op) auto
  show ?case
    by (rule Cons.IH [of "setValue v f"]) (use Cons.prems op in \<open>auto simp: setValue_def\<close>)
qed

text \<open>C21. A future is decided once.  Whatever calls of \<open>setValue\<close>, \<open>complete\<close> and
  \<open>Cancel\<close> reach it, in any order, none panics by closing the channel twice; \<open>Get\<close> waits
  (for a caller whose context is not done) exactly until the first \<open>complete\<close> or \<open>Cancel\<close>,
  and the error it then gives is that of this first call, whatever follows.\<close>

theorem future_first_wins:
  assumes pre: "\<forall>op \<in> set pre. \<not> settles op" and op: "settles op"
  shows "\<exists>f g. future_run pre newFutureAny = Some f \<and> future_Get t zero pc None f = None \<and>
    future_run (pre @ op # post) newFutureAny = Some g \<and>
    (\<exists>v. future_Get t zero pc None g = Some (v, settled_err op) \<and> (settled_err op \<noteq> None \<longrightarrow> v = zero))"
proof -
  have "future_inv newFutureAny" by (simp add: future_inv_def newFutureAny_def)
  then obtain f where f: "future_run pre newFutureAny = Some f" "future_inv f"
    using future_run_inv by blast
  have nf: "\<not> fu_once f" by (rule future_run_unsettled [OF pre _ f(1)]) (simp add: newFutureAny_def)
  obtain h where h: "future_step op f = Some h" "future_inv h" using future_step_inv [OF f(2)] by blast
  note hs = future_step_settles [OF f(2) nf op h(1)]
  obtain g where g: "future_run post h = Some g" using future_run_inv [OF h(2)] by blast
  have gs: "fu_done g" "fu_err g = settled_err op" using future_run_settled [OF _ g] hs by auto
  have "future_Get t zero pc None f = None" using nf f(2) by (simp add: future_Get_def future_inv_def)
  moreover have "future_run (pre @ op # post) newFutureAny = Some g" using f h g by (simp add: future_run_append)
  moreover have "\<exists>v. future_Get t zero pc None g = Some (v, settled_err op) \<and> (settled_err op \<noteq> None \<longrightarrow> v = zero)"
    using gs by (auto simp: future_Get_def split: option.split)
  ultimately show ?thesis using f(1) by blast
qed

theorem future_first_wins_witness:
  "\<exists>g. future_run ([FSet (Some (Any 0 7))] @ FComplete None None # [FCancel]) newFutureAny = Some g \<and>
     (\<exists>v. future_Get 0 (Any 0 0) False None g = Some (v, None))"
  using future_first_wins [of "[FSet (Some (Any 0 7))]" "FComplete None None" 0 "Any 0 0" False "[FCancel]"] by auto

text \<open>The value a successful run sets before the pool completes the future is what \<open>Get\<close>
  returns when its type is the asked one, and nothing but that value: with the pool's
  \<open>complete(nil, nil)\<close> and no later \<open>setValue\<close>, later cancellations change neither value
  nor error.\<close>

theorem future_value:
  assumes "\<forall>op \<in> set post. settles op" and pre: "\<forall>op \<in> set pre. \<not> settles op" and "any_type v = t"
  shows "\<exists>g. future_run (pre @ FSet (Some v) # FComplete None None # post) newFutureAny = Some g \<and>
    future_Get t zero pc None g = Some (v, None)"
proof -
  have "future_inv newFutureAny" by (simp add: future_inv_def newFutureAny_def)
  then obtain f where f: "future_run pre newFutureAny = Some f" "future_inv f"
    using future_run_inv by blast
  have nf: "\<not> fu_once f" by (rule future_run_unsettled [OF pre _ f(1)]) (simp add: newFutureAny_def)
  let ?h = "f\<lparr>fu_val := Some v, fu_once := True, fu_err := None, fu_done := True\<rparr>"
  have h: "future_run [FSet (Some v), FComplete None None] f = Some ?h"
    using nf f(2) by (simp add: setValue_def complete_def close_done_def future_inv_def)
  have post: "future_run post ?h = Some ?h"
    using assms(1)
  proof (induction post)
    case (Cons op post)
    then show ?case by (cases op) (auto simp: complete_def future_Cancel_def)
  qed simp
  have "future_run (pre @ [FSet (Some v), FComplete None None] @ post) newFutureAny = Some ?h"
    by (simp only: future_run_append f(1) h post option.case)
  moreover have "future_Get t zero pc None ?h = Some (v, None)" using assms(3) by (simp add: future_Get_def)
  ultimately show ?thesis by (intro exI [of _ ?h]) simp
qed

theorem future_value_witness:
  "\<exists>g. future_run ([] @ FSet (Some (Any 0 7)) # FComplete None None # [FCancel]) newFutureAny = Some g \<and>
     future_Get 0 (Any 0 0) False None g = Some (Any 0 7, None)"
  by (rule future_value) simp_all

end
