(* ===== verification/Keyed_Semaphore.thy ===== *)
theory Keyed_Semaphore
  imports FW_Prelude
begin

text \<open>
  \<open>keyedSemaphore\<close> of \<open>rate_limiter.go\<close>: the number of running jobs per concurrency key.  The
  map reads 0 where it has no entry, so deleting an entry and setting it to 0 are the same.

  \<open>sem_step\<close> is what the pool does with it: a worker that wants to run a job with key and limit
  tries to acquire, and a worker that finishes a job it runs releases the job's key.  The list
  holds the key and limit of every job that is running.
\<close>

type_synonym keyedSemaphore = "string \<Rightarrow> int"

definition newKeyedSemaphore :: keyedSemaphore where
  "newKeyedSemaphore = (\<lambda>_. 0)"

definition tryAcquire :: "string \<Rightarrow> int \<Rightarrow> keyedSemaphore \<Rightarrow> bool \<times> keyedSemaphore" where
  "tryAcquire key lim s =
     (if key = '''' \<or> lim \<le> 0 then (True, s)
      else if s key \<ge> lim then (False, s)
      else (True, s(key := s key + 1)))"

definition release :: "string \<Rightarrow> keyedSemaphore \<Rightarrow> keyedSemaphore" where
  "release key s =
     (if key = '''' then s
      else if s key > 1 then s(key := s key - 1) else s(key := 0))"

inductive sem_step ::
  "keyedSemaphore \<times> (string \<times> int) list \<Rightarrow> keyedSemaphore \<times> (string \<times> int) list \<Rightarrow> bool"
where
  acquire: "tryAcquire key lim s = (True, s') \<Longrightarrow> sem_step (s, jobs) (s', (key, lim) # jobs)"
| refuse: "tryAcquire key lim s = (False, s') \<Longrightarrow> sem_step (s, jobs) (s', jobs)"
| finish: "(key, lim) \<in> set jobs \<Longrightarrow> sem_step (s, jobs) (release key s, remove1 (key, lim) jobs)"

inductive sem_reach :: "keyedSemaphore \<times> (string \<times> int) list \<Rightarrow> bool" where
  init: "sem_reach (newKeyedSemaphore, [])"
| step: "sem_reach c \<Longrightarrow> sem_step c d \<Longrightarrow> sem_reach d"

inductive_cases sem_stepE: "sem_step (s, jobs) d"

definition holders :: "string \<Rightarrow> (string \<times> int) list \<Rightarrow> nat" where
  "holders key jobs = length (filter (\<lambda>(k, _). k = key) jobs)"

lemma holders_simps [simp]:
  "holders key [] = 0"
  "holders key ((k, l) # jobs) = (if k = key then 1 else 0) + holders key jobs"
  by (simp_all add: holders_def)

lemma holders_remove1:
  "(k, l) \<in> set jobs \<Longrightarrow> holders key (remove1 (k, l) jobs) = holders key jobs - (if k = key then 1 else 0)"
proof (induction jobs)
  case (Cons j jobs)
  show ?case
  proof (cases "j = (k, l)")
    case False
    with Cons.prems have m: "(k, l) \<in> set jobs" by auto
    have "k = key \<Longrightarrow> 0 < holders key jobs" using m by (auto simp: holders_def filter_empty_conv)
    with Cons.IH [OF m] False show ?thesis by (cases j) auto
  qed auto
qed simp

lemma holders_pos: "(k, l) \<in> set jobs \<Longrightarrow> 0 < holders k jobs"
  by (auto simp: holders_def filter_empty_conv)

text \<open>The runs in which every job with this key carries a positive limit of at most \<open>n\<close>.\<close>

definition limited :: "string \<Rightarrow> int \<Rightarrow> (string \<times> int) list \<Rightarrow> bool" where
  "limited key n jobs \<longleftrightarrow> (\<forall>(k, l) \<in> set jobs. k = key \<longrightarrow> 0 < l \<and> l \<le> n)"

inductive sem_run :: "string \<Rightarrow> int \<Rightarrow> keyedSemaphore \<times> (string \<times> int) list \<Rightarrow> bool" for key n where
  start: "sem_run key n (newKeyedSemaphore, [])"
| run_step: "sem_run key n c \<Longrightarrow> sem_step c d \<Longrightarrow> limited key n (snd d) \<Longrightarrow> sem_run key n d"

lemma sem_run_count:
  "sem_run key n c \<Longrightarrow> 0 \<le> n \<Longrightarrow> key \<noteq> '''' \<Longrightarrow>
   fst c key = int (holders key (snd c)) \<and> fst c key \<le> n \<and> limited key n (snd c)"
proof (induction rule: sem_run.induct)
  case start
  then show ?case by (simp add: newKeyedSemaphore_def limited_def)
next
  case (run_step c d)
  then have ih: "fst c key = int (holders key (snd c))" "fst c key \<le> n" by auto
  from run_step.hyps(2) ih run_step.hyps(3) run_step.prems show ?case
  proof (cases rule: sem_step.cases)
    case (acquire k l s s' jobs)
    then show ?thesis using ih run_step.hyps(3) run_step.prems
      by (fastforce simp: tryAcquire_def limited_def split: if_splits)
  next
    case (refuse k l s s' jobs)
    then show ?thesis using ih run_step.hyps(3)
      by (auto simp: tryAcquire_def split: if_splits)
  next
    case (finish k l jobs s)
    then show ?thesis using ih run_step.hyps(3) run_step.prems holders_pos [of k l jobs]
      by (auto simp: release_def holders_remove1)
  qed
qed

text \<open>As long as every job with a key carries a positive limit of at most \<open>n\<close>, the semaphore
  counts exactly the running jobs with that key and there are never more than \<open>n\<close> of them, in
  any order of acquisitions, refusals and completions; when none is running the entry reads 0
  again.\<close>

theorem semaphore_limit:
  assumes "sem_run key n c" "0 \<le> n" "key \<noteq> ''''"
  shows "fst c key = int (holders key (snd c)) \<and> int (holders key (snd c)) \<le> n"
  using sem_run_count [OF assms] by simp

theorem semaphore_limit_witness:
  "\<exists>s. sem_run ''db'' 1 (s, [(''db'', 1)]) \<and> s ''db'' = 1 \<and> fst (tryAcquire ''db'' 1 s) = False"
proof -
  let ?s = "newKeyedSemaphore(''db'' := 1)"
  have "sem_step (newKeyedSemaphore, []) (?s, [(''db'', 1)])"
    by (rule sem_step.acquire) (simp add: tryAcquire_def newKeyedSemaphore_def)
  from sem_run.run_step [OF sem_run.start this] have r: "sem_run ''db'' 1 (?s, [(''db'', 1)])"
    by (simp add: limited_def)
  have "?s ''db'' = 1" using semaphore_limit [OF r] by simp
  with r show ?thesis by (intro exI [of _ ?s]) (simp add: tryAcquire_def)
qed

text \<open>A job with a concurrency key but no limit acquires nothing and still releases the key when
  it ends: with one limited job running (limit 1), such a job frees the slot of the other, and a
  second limited job runs beside the first.\<close>

theorem semaphore_unlimited_release:
  "\<exists>s. sem_reach (s, [(''db'', 1), (''db'', 1)]) \<and> s ''db'' = 1"
proof -
  let ?s = "newKeyedSemaphore(''db'' := 1)"
  have a: "sem_step (newKeyedSemaphore, []) (?s, [(''db'', 1)])"
    by (rule sem_step.acquire) (simp add: tryAcquire_def newKeyedSemaphore_def)
  have b: "sem_step (?s, [(''db'', 1)]) (?s, [(''db'', 0), (''db'', 1)])"
    by (rule sem_step.acquire) (simp add: tryAcquire_def)
  have c: "sem_step (?s, [(''db'', 0), (''db'', 1)]) (release ''db'' ?s, remove1 (''db'', 0) [(''db'', 0), (''db'', 1)])"
    by (rule sem_step.finish) simp
  have d: "sem_step (release ''db'' ?s, [(''db'', 1)]) (?s, [(''db'', 1), (''db'', 1)])"
    by (rule sem_step.acquire) (simp add: tryAcquire_def release_def fun_eq_iff)
  from c have c': "sem_step (?s, [(''db'', 0), (''db'', 1)]) (release ''db'' ?s, [(''db'', 1)])" by simp
  have "sem_reach (?s, [(''db'', 1), (''db'', 1)])"
    by (rule sem_reach.step [OF sem_reach.step [OF sem_reach.step [OF sem_reach.step [OF sem_reach.init a] b] c'] d])
  then show ?thesis by (intro exI [of _ ?s]) simp
qed

end
