(* ===== verification/Rate_Limiter.thy ===== *)
theory Rate_Limiter
  imports Go_Float
begin

text \<open>
  \<open>tokenBucket\<close> of \<open>rate_limiter.go\<close>, in \<open>float64\<close> arithmetic.  \<open>reserveDelay\<close> takes the
  reading of the clock and the conversion \<open>oob\<close> of floats out of range (see \<open>Go_Float\<close>).
  \<open>time_Sub\<close> saturates as \<open>Time.Sub\<close> does, and \<open>Seconds\<close> adds the whole seconds and the
  nanoseconds as floats.
\<close>

datatype RateLimitMode = RateLimitQueue | RateLimitReject | RateLimitBlock

record RateLimit =
  rl_Rate :: int
  rl_Burst :: int
  rl_Mode :: RateLimitMode

record tokenBucket =
  tb_rate :: f64
  tb_burst :: f64
  tb_tokens :: f64
  tb_mode :: RateLimitMode
  tb_last :: time

definition time_Sub :: "time \<Rightarrow> time \<Rightarrow> duration" where
  "time_Sub t u = max (- (2 ^ 63)) (min (2 ^ 63 - 1) (t - u))"

definition Seconds :: "duration \<Rightarrow> f64" where
  "Seconds d =
     (let sec = (if d \<ge> 0 then d div Second else - ((- d) div Second)); nsec = d - sec * Second
      in f64_add (f64_of_int sec) (f64_div (f64_of_int nsec) (f64_of_int Second)))"

definition newBucket :: "time \<Rightarrow> RateLimit \<Rightarrow> tokenBucket" where
  "newBucket now r =
     (let r = (if rl_Burst r \<le> 0 then r\<lparr>rl_Burst := rl_Rate r\<rparr> else r)
      in \<lparr>tb_rate = f64_of_int (rl_Rate r), tb_burst = f64_of_int (rl_Burst r),
          tb_tokens = f64_of_int (rl_Burst r), tb_mode = rl_Mode r, tb_last = now\<rparr>)"

definition tb_refill :: "time \<Rightarrow> tokenBucket \<Rightarrow> tokenBucket" where
  "tb_refill now b =
     (let b = (if IsZero (tb_last b) then b\<lparr>tb_last := now\<rparr> else b);
          elapsed = Seconds (time_Sub now (tb_last b))
      in if f64_less (Fin 0) elapsed
         then let b = b\<lparr>tb_tokens := f64_add (tb_tokens b) (f64_mul elapsed (tb_rate b)), tb_last := now\<rparr>
              in if f64_less (tb_burst b) (tb_tokens b) then b\<lparr>tb_tokens := tb_burst b\<rparr> else b
         else b)"

definition reserveDelay :: "(f64 \<Rightarrow> int) \<Rightarrow> time \<Rightarrow> bool \<Rightarrow> tokenBucket \<Rightarrow> (duration \<times> bool) \<times> tokenBucket" where
  "reserveDelay oob now queueMode b =
     (if f64_leq (tb_rate b) (Fin 0) then ((0, True), b)
      else let b = tb_refill now b
           in if f64_leq (Fin 1) (tb_tokens b) then ((0, True), b\<lparr>tb_tokens := f64_sub (tb_tokens b) (Fin 1)\<rparr>)
              else if \<not> queueMode then ((0, False), b)
              else let waitSeconds = f64_div (f64_sub (Fin 1) (tb_tokens b)) (tb_rate b);
                       b = b\<lparr>tb_tokens := f64_sub (tb_tokens b) (Fin 1)\<rparr>;
                       waitSeconds = (if f64_less waitSeconds (Fin 0) then Fin 0 else waitSeconds)
                   in ((f64_to_int64 oob (f64_mul waitSeconds (f64_of_int Second)), True), b))"

definition allow :: "(f64 \<Rightarrow> int) \<Rightarrow> time \<Rightarrow> tokenBucket \<Rightarrow> bool \<times> tokenBucket" where
  "allow oob now b = (case reserveDelay oob now False b of ((delay, ok), b') \<Rightarrow> (ok \<and> delay \<le> 0, b'))"

subsection \<open>Many calls at one instant\<close>

fun allow_many :: "(f64 \<Rightarrow> int) \<Rightarrow> time \<Rightarrow> nat \<Rightarrow> tokenBucket \<Rightarrow> bool list \<times> tokenBucket" where
  "allow_many oob now 0 b = ([], b)"
| "allow_many oob now (Suc n) b =
     (case allow oob now b of (ok, b') \<Rightarrow> case allow_many oob now n b' of (oks, b'') \<Rightarrow> (ok # oks, b''))"

lemma f64_of_int_0 [simp]: "f64_of_int 0 = Fin 0"
  by (simp add: f64_of_int_def f64_round_def f64_rat_def Let_def round_even_def not_le)

lemma Seconds_0 [simp]: "Seconds 0 = Fin 0"
proof -
  have "f64_of_int Second = Fin (of_int Second)" by (rule f64_of_int_exact) simp_all
  moreover have "f64_round 0 = Fin 0" using f64_of_int_0 by (simp add: f64_of_int_def)
  ultimately show ?thesis by (simp add: Seconds_def Let_def)
qed

lemma f64_of_int_nonpos: "n \<le> 0 \<Longrightarrow> f64_leq (f64_of_int n) (Fin 0)"
proof -
  assume n: "n \<le> 0"
  have u: "0 < ulp (of_int n)" by (simp add: ulp_def)
  have "round_even (of_int n / ulp (of_int n)) \<le> round_even 0"
    by (rule round_even_mono) (use n u in \<open>simp add: divide_le_0_iff\<close>)
  then have "f64_rat (of_int n) \<le> 0"
    using u by (simp add: f64_rat_def mult_le_0_iff round_even_def)
  then show ?thesis by (auto simp: f64_of_int_def f64_round_def Let_def f64_leq_def)
qed

lemma tb_refill_now: "tb_last b = now \<Longrightarrow> tb_refill now b = b"
  by (simp add: tb_refill_def time_Sub_def Let_def)

lemma f64_round_int: "0 \<le> n \<Longrightarrow> n < 2 ^ 53 \<Longrightarrow> f64_round (of_int n) = Fin (of_int n)"
  using f64_round_exact [of n 0] f64_of_int_0 by (cases "n = 0") (simp_all add: f64_of_int_def)

lemma allow_now:
  assumes "tb_last b = now" "f64_less (Fin 0) (tb_rate b)" "tb_tokens b = Fin (of_int k)" "0 \<le> k" "k < 2 ^ 53"
  shows "allow oob now b = (if 1 \<le> k then (True, b\<lparr>tb_tokens := Fin (of_int (k - 1))\<rparr>) else (False, b))"
proof -
  have r: "\<not> f64_leq (tb_rate b) (Fin 0)"
    using assms(2) by (cases "tb_rate b") (auto simp: f64_leq_def)
  have l: "f64_leq (Fin 1) (Fin (of_int k)) \<longleftrightarrow> 1 \<le> k"
    by (auto simp: f64_leq_def)
  have "1 \<le> k \<Longrightarrow> f64_sub (Fin (of_int k)) (Fin 1) = Fin (of_int (k - 1))"
    using f64_round_int [of "k - 1"] assms(5) by (simp add: f64_sub_def)
  with r l assms show ?thesis by (auto simp: allow_def reserveDelay_def tb_refill_now Let_def)
qed

lemma fst_allow_many_Suc:
  "fst (allow_many oob now (Suc n) b) = fst (allow oob now b) # fst (allow_many oob now n (snd (allow oob now b)))"
  by (simp split: prod.split)

lemma allow_many_now:
  assumes "f64_less (Fin 0) (tb_rate b)" "tb_last b = now" "k < 2 ^ 53"
  shows "tb_tokens b = Fin (of_nat k) \<Longrightarrow>
    fst (allow_many oob now n b) = replicate (min n k) True @ replicate (n - k) False"
  using assms
proof (induction n arbitrary: b k)
  case 0
  then show ?case by simp
next
  case (Suc n)
  have t: "tb_tokens b = Fin (of_int (int k))" using Suc.prems(1) by simp
  have lt: "int k < 2 ^ 53" using Suc.prems(4) by (metis of_nat_less_iff of_nat_numeral of_nat_power)
  note a = allow_now [OF Suc.prems(3,2) t _ lt, of oob]
  show ?case
  proof (cases k)
    case 0
    then have a': "allow oob now b = (False, b)" using a by simp
    from Suc.IH [of b 0] Suc.prems 0 show ?thesis
      by (simp add: fst_allow_many_Suc a' del: allow_many.simps)
  next
    case (Suc j)
    let ?b = "b\<lparr>tb_tokens := Fin (of_nat j)\<rparr>"
    have a': "allow oob now b = (True, ?b)" using a Suc by simp
    have "fst (allow_many oob now n ?b) = replicate (min n j) True @ replicate (n - j) False"
      using Suc.prems Suc by (intro Suc.IH) simp_all
    with Suc show ?thesis by (simp add: fst_allow_many_Suc a' del: allow_many.simps)
  qed
qed

text \<open>A new limiter with a positive rate lets exactly its burst through at one instant, and
  refuses every call after that: of \<open>n\<close> calls, the first \<open>min n burst\<close> succeed.  The burst is
  the configured one or, when that is not positive, the rate (below \<open>2 ^ 53\<close>, where floats count
  exactly).  A rate that is not positive switches the limiter off.\<close>

theorem bucket_burst:
  assumes "burst = (if 0 < rl_Burst r then rl_Burst r else rl_Rate r)" "burst < 2 ^ 53" "rl_Rate r < 2 ^ 53"
  shows "fst (allow_many oob now n (newBucket now r)) =
    (if 0 < rl_Rate r then replicate (min n (nat burst)) True @ replicate (n - nat burst) False
     else replicate n True)"
proof (cases "0 < rl_Rate r")
  case True
  then have b: "0 < burst" using assms(1) by auto
  have rate: "f64_of_int (rl_Rate r) = Fin (of_int (rl_Rate r))" using True assms by (intro f64_of_int_exact)
  have tok: "f64_of_int burst = Fin (of_int burst)" using b assms by (intro f64_of_int_exact)
  have nb: "newBucket now r = \<lparr>tb_rate = Fin (of_int (rl_Rate r)), tb_burst = Fin (of_int burst),
      tb_tokens = Fin (of_int burst), tb_mode = rl_Mode r, tb_last = now\<rparr>"
    using rate tok assms(1) by (auto simp: newBucket_def Let_def)
  have "nat burst < 2 ^ 53" using assms(2) b by (simp add: nat_less_iff)
  then show ?thesis using True b nb by (simp add: allow_many_now)
next
  case False
  have "f64_leq (tb_rate (newBucket now r)) (Fin 0)"
    using False by (simp add: newBucket_def Let_def f64_of_int_nonpos)
  then have "allow oob now (newBucket now r) = (True, newBucket now r)"
    by (simp add: allow_def reserveDelay_def)
  then have "fst (allow_many oob now n (newBucket now r)) = replicate n True"
    by (induction n) (simp_all add: fst_allow_many_Suc del: allow_many.simps(2))
  with False show ?thesis by simp
qed

theorem bucket_burst_witness:
  "fst (allow_many (\<lambda>_. 0) 7 4 (newBucket 7 \<lparr>rl_Rate = 5, rl_Burst = 3, rl_Mode = RateLimitReject\<rparr>)) =
     [True, True, True, False]"
  using bucket_burst [of 3 "\<lparr>rl_Rate = 5, rl_Burst = 3, rl_Mode = RateLimitReject\<rparr>" "\<lambda>_. 0" 7 4]
  by (simp add: numeral_3_eq_3)

end
