(* ===== verification/Config.thy ===== *)
theory Config
  imports Backoff
begin

text \<open>
  Configuration: \<open>config.go\<close>, the states of \<open>pool.go\<close> and \<open>control.go\<close>, and what the
  functional options and presets of \<open>usability.go\<close> do to the configuration.  \<open>int\<close> is the
  64-bit integer of the platform; the products of a preset wrap around.
\<close>

datatype State = stateNew | stateRunning | statePaused | stateStopping | stateStopped | stateTerminated

text \<open>The constants are numbered in this order (\<open>iota\<close>) and compared as numbers.\<close>

fun state_num :: "State \<Rightarrow> nat" where
  "state_num stateNew = 0"
| "state_num stateRunning = 1"
| "state_num statePaused = 2"
| "state_num stateStopping = 3"
| "state_num stateStopped = 4"
| "state_num stateTerminated = 5"

instantiation State :: linorder
begin

definition less_eq_State :: "State \<Rightarrow> State \<Rightarrow> bool" where
  "less_eq_State s t = (state_num s \<le> state_num t)"

definition less_State :: "State \<Rightarrow> State \<Rightarrow> bool" where
  "less_State s t = (state_num s < state_num t)"

instance
proof
  fix s t u :: State
  show "(s < t) = (s \<le> t \<and> \<not> t \<le> s)" by (auto simp: less_eq_State_def less_State_def)
  show "s \<le> s" by (simp add: less_eq_State_def)
  show "s \<le> t \<Longrightarrow> t \<le> u \<Longrightarrow> s \<le> u" by (simp add: less_eq_State_def)
  show "s \<le> t \<Longrightarrow> t \<le> s \<Longrightarrow> s = t" by (cases s; cases t) (simp_all add: less_eq_State_def)
  show "s \<le> t \<or> t \<le> s" by (auto simp: less_eq_State_def)
qed

end

fun State_String :: "State \<Rightarrow> string" where
  "State_String stateNew = ''new''"
| "State_String stateRunning = ''running''"
| "State_String statePaused = ''paused''"
| "State_String stateStopping = ''stopping''"
| "State_String stateStopped = ''stopped''"
| "State_String stateTerminated = ''terminated''"

lemma State_less_simps [simp]:
  "s < stateStopping \<longleftrightarrow> s = stateNew \<or> s = stateRunning \<or> s = statePaused"
  "stateStopping \<le> s \<longleftrightarrow> s = stateStopping \<or> s = stateStopped \<or> s = stateTerminated"
  by (cases s; simp add: less_State_def less_eq_State_def)+

datatype BackpressurePolicy =
  BackpressureBlock | BackpressureReject | BackpressureDropOldest | BackpressureDropNewest

record config =
  c_Name :: string
  c_MinWorkers :: int
  c_MaxWorkers :: int
  c_QueueSize :: int
  c_Backpressure :: BackpressurePolicy
  c_SubmitTimeout :: duration
  c_IdleTimeout :: duration
  c_ScaleInterval :: duration
  c_EnableAutoScale :: bool
  c_RecoverPanics :: bool
  c_DefaultTimeout :: duration
  c_DefaultMaxAttempts :: int
  c_DefaultBackoff :: "backoff option"
  c_MetricsSampleInterval :: duration
  c_EnableJobTracking :: bool
  c_EnableJobIDs :: bool

definition DefaultConfig :: config where
  "DefaultConfig = \<lparr>c_Name = ''fastworker'', c_MinWorkers = 1, c_MaxWorkers = 0, c_QueueSize = 1024,
     c_Backpressure = BackpressureBlock, c_SubmitTimeout = 0, c_IdleTimeout = 30 * Second,
     c_ScaleInterval = 100 * Millisecond, c_EnableAutoScale = True, c_RecoverPanics = True,
     c_DefaultTimeout = 0, c_DefaultMaxAttempts = 1,
     c_DefaultBackoff = Some (ExponentialBackoff (25 * Millisecond) Second (Fin 2) True),
     c_MetricsSampleInterval = 0, c_EnableJobTracking = False, c_EnableJobIDs = False\<rparr>"

text \<open>\<open>normalizeConfig\<close> never fails.\<close>

definition normalizeConfig :: "config \<Rightarrow> config" where
  "normalizeConfig c =
     (let d = DefaultConfig;
          c = (if c_Name c = '''' then c\<lparr>c_Name := c_Name d\<rparr> else c);
          c = (if c_MinWorkers c \<le> 0 then c\<lparr>c_MinWorkers := c_MinWorkers d\<rparr> else c);
          c = (if c_MaxWorkers c \<le> 0 then c\<lparr>c_MaxWorkers := c_MinWorkers c\<rparr> else c);
          c = (if c_MaxWorkers c < c_MinWorkers c then c\<lparr>c_MaxWorkers := c_MinWorkers c\<rparr> else c);
          c = (if c_QueueSize c \<le> 0 then c\<lparr>c_QueueSize := c_QueueSize d\<rparr> else c);
          c = (if c_IdleTimeout c \<le> 0 then c\<lparr>c_IdleTimeout := c_IdleTimeout d\<rparr> else c);
          c = (if c_ScaleInterval c \<le> 0 then c\<lparr>c_ScaleInterval := c_ScaleInterval d\<rparr> else c);
          c = (if c_DefaultMaxAttempts c \<le> 0 then c\<lparr>c_DefaultMaxAttempts := c_DefaultMaxAttempts d\<rparr> else c);
          c = (if c_DefaultBackoff c = None then c\<lparr>c_DefaultBackoff := c_DefaultBackoff d\<rparr> else c)
      in c)"

subsection \<open>Options\<close>

definition WithName_cfg :: "string \<Rightarrow> config \<Rightarrow> config" where
  "WithName_cfg name c = (if name \<noteq> '''' then c\<lparr>c_Name := name\<rparr> else c)"

definition WithWorkers_cfg :: "int \<Rightarrow> config \<Rightarrow> config" where
  "WithWorkers_cfg n c =
     (if n > 0 then
        let c = c\<lparr>c_MinWorkers := n\<rparr>
        in if c_MaxWorkers c < n then c\<lparr>c_MaxWorkers := n\<rparr> else c
      else c)"

definition WithWorkerRange_cfg :: "int \<Rightarrow> int \<Rightarrow> config \<Rightarrow> config" where
  "WithWorkerRange_cfg lo hi c =
     (let c = (if lo > 0 then c\<lparr>c_MinWorkers := lo\<rparr> else c);
          c = (if hi > 0 then c\<lparr>c_MaxWorkers := hi\<rparr> else c)
      in if c_MaxWorkers c < c_MinWorkers c then c\<lparr>c_MaxWorkers := c_MinWorkers c\<rparr> else c)"

text \<open>\<open>GOMAXPROCS\<close> of the environment, as \<open>strconv.Atoi\<close> reads it (\<open>None\<close>: unset or not a
  number).\<close>

definition runtimeWorkers :: "int option \<Rightarrow> int" where
  "runtimeWorkers gomaxprocs =
     (case gomaxprocs of None \<Rightarrow> 4 | Some i \<Rightarrow> if i > 0 then i else 4)"

definition PresetLowLatency_cfg :: "int option \<Rightarrow> config \<Rightarrow> config" where
  "PresetLowLatency_cfg g c =
     (let c = c\<lparr>c_MinWorkers := runtimeWorkers g\<rparr>
      in c\<lparr>c_MaxWorkers := c_MinWorkers c, c_QueueSize := 8192, c_EnableAutoScale := False,
           c_EnableJobTracking := False, c_EnableJobIDs := False, c_Backpressure := BackpressureReject\<rparr>)"

definition PresetHighThroughput_cfg :: "int option \<Rightarrow> config \<Rightarrow> config" where
  "PresetHighThroughput_cfg g c =
     (let c = c\<lparr>c_MinWorkers := wrap64 (runtimeWorkers g * 2)\<rparr>
      in c\<lparr>c_MaxWorkers := wrap64 (c_MinWorkers c * 4), c_QueueSize := 262144, c_EnableAutoScale := True,
           c_EnableJobTracking := False\<rparr>)"

definition PresetReliable_cfg :: "config \<Rightarrow> config" where
  "PresetReliable_cfg c = c\<lparr>c_MinWorkers := 4, c_MaxWorkers := 64, c_QueueSize := 100000,
     c_EnableJobTracking := True, c_EnableJobIDs := True, c_DefaultMaxAttempts := 3\<rparr>"

definition PresetBackgroundQueue_cfg :: "config \<Rightarrow> config" where
  "PresetBackgroundQueue_cfg c = c\<lparr>c_MinWorkers := 2, c_MaxWorkers := 32, c_QueueSize := 100000,
     c_Backpressure := BackpressureBlock\<rparr>"

definition PresetAPIBuffer_cfg :: "config \<Rightarrow> config" where
  "PresetAPIBuffer_cfg c = c\<lparr>c_MinWorkers := 4, c_MaxWorkers := 128, c_QueueSize := 250000,
     c_EnableJobTracking := True, c_EnableJobIDs := True, c_Backpressure := BackpressureReject\<rparr>"

subsection \<open>A usable configuration\<close>

definition config_ok :: "config \<Rightarrow> bool" where
  "config_ok c \<longleftrightarrow> c_Name c \<noteq> '''' \<and> 1 \<le> c_MinWorkers c \<and> c_MinWorkers c \<le> c_MaxWorkers c \<and>
     1 \<le> c_QueueSize c \<and> 0 < c_IdleTimeout c \<and> 0 < c_ScaleInterval c \<and>
     1 \<le> c_DefaultMaxAttempts c \<and> c_DefaultBackoff c \<noteq> None"

lemma if_update_config:
  "(if b then c\<lparr>c_Name := x1\<rparr> else c) = c\<lparr>c_Name := if b then x1 else c_Name c\<rparr>"
  "(if b then c\<lparr>c_MinWorkers := x2\<rparr> else c) = c\<lparr>c_MinWorkers := if b then x2 else c_MinWorkers c\<rparr>"
  "(if b then c\<lparr>c_MaxWorkers := x2\<rparr> else c) = c\<lparr>c_MaxWorkers := if b then x2 else c_MaxWorkers c\<rparr>"
  "(if b then c\<lparr>c_QueueSize := x2\<rparr> else c) = c\<lparr>c_QueueSize := if b then x2 else c_QueueSize c\<rparr>"
  "(if b then c\<lparr>c_IdleTimeout := x2\<rparr> else c) = c\<lparr>c_IdleTimeout := if b then x2 else c_IdleTimeout c\<rparr>"
  "(if b then c\<lparr>c_ScaleInterval := x2\<rparr> else c) = c\<lparr>c_ScaleInterval := if b then x2 else c_ScaleInterval c\<rparr>"
  "(if b then c\<lparr>c_DefaultMaxAttempts := x2\<rparr> else c) = c\<lparr>c_DefaultMaxAttempts := if b then x2 else c_DefaultMaxAttempts c\<rparr>"
  "(if b then c\<lparr>c_DefaultBackoff := x3\<rparr> else c) = c\<lparr>c_DefaultBackoff := if b then x3 else c_DefaultBackoff c\<rparr>"
  by simp_all

lemma normalizeConfig_sel:
  "c_Name (normalizeConfig c) = (if c_Name c = [] then ''fastworker'' else c_Name c)"
  "c_MinWorkers (normalizeConfig c) = (if c_MinWorkers c \<le> 0 then 1 else c_MinWorkers c)"
  "c_MaxWorkers (normalizeConfig c) = (if c_MinWorkers c \<le> 0 then max 1 (c_MaxWorkers c) else max (c_MinWorkers c) (c_MaxWorkers c))"
  "c_QueueSize (normalizeConfig c) = (if c_QueueSize c \<le> 0 then 1024 else c_QueueSize c)"
  "c_IdleTimeout (normalizeConfig c) = (if c_IdleTimeout c \<le> 0 then 30 * Second else c_IdleTimeout c)"
  "c_ScaleInterval (normalizeConfig c) = (if c_ScaleInterval c \<le> 0 then 100 * Millisecond else c_ScaleInterval c)"
  "c_DefaultMaxAttempts (normalizeConfig c) = (if c_DefaultMaxAttempts c \<le> 0 then 1 else c_DefaultMaxAttempts c)"
  "c_DefaultBackoff (normalizeConfig c) = (if c_DefaultBackoff c = None then c_DefaultBackoff DefaultConfig else c_DefaultBackoff c)"
  unfolding normalizeConfig_def if_update_config
  by (simp_all add: Let_def DefaultConfig_def max_def split del: if_split, auto simp: DefaultConfig_def)

lemma normalizeConfig_ok: "config_ok (normalizeConfig c)"
  unfolding config_ok_def normalizeConfig_sel by (auto simp: DefaultConfig_def)

lemma normalizeConfig_id: "config_ok c \<Longrightarrow> normalizeConfig c = c"
  unfolding normalizeConfig_def if_update_config
  by (cases c) (auto simp: Let_def config_ok_def)

text \<open>Whatever configuration a caller gives, the pool runs with a usable one: at least one
  worker, no fewer at most than at least, a positive queue size, idle timeout and scale interval
  (a ticker panics on one that is not), at least one attempt and a backoff; a usable
  configuration is taken as it is, so normalising twice changes nothing.\<close>

theorem normalizeConfig_usable:
  "config_ok (normalizeConfig c) \<and> normalizeConfig (normalizeConfig c) = normalizeConfig c \<and>
   (config_ok c \<longrightarrow> normalizeConfig c = c)"
  using normalizeConfig_ok normalizeConfig_id by blast

theorem normalizeConfig_usable_witness:
  "config_ok (normalizeConfig DefaultConfig) \<and> \<not> config_ok DefaultConfig \<and>
   normalizeConfig (normalizeConfig DefaultConfig) = normalizeConfig DefaultConfig"
  using normalizeConfig_usable [of "normalizeConfig DefaultConfig"] normalizeConfig_ok [of DefaultConfig]
  by (simp add: config_ok_def [of DefaultConfig]) (simp add: DefaultConfig_def)

end
