(* ===== verification/Pool_State.thy ===== *)
theory Pool_State
  imports Priority_Queue Fifo_Queue Lifecycle Future Keyed_Semaphore Rate_Limiter Config
begin

text \<open>
  The state of a pool: the struct \<open>Pool\<close> of \<open>pool.go\<close>, \<open>metrics.go\<close> and \<open>hooks.go\<close>, and the
  operations all of its methods share.

  Pointers to \<open>queuedJob\<close> are numbers into \<open>p_heap\<close>; \<open>p_next\<close> is the first number never
  used and \<open>p_jobPool\<close> holds what was put back into the \<open>sync.Pool\<close>.  Pointers to futures index
  \<open>p_futures\<close>, pointers to token buckets \<open>p_buckets\<close>, below \<open>p_nextBucket\<close>.  A context derived for a job is a number below \<open>p_nextCtx\<close>, cancelled when it
  is in \<open>p_cancelled\<close>; cancelling the pool's context cancels all.  Hooks, middleware and worker
  callbacks are the lists of those that are not nil.

  What the pool does to the outside, in order, is the list \<open>p_log\<close>: events given to the
  subscribers, hooks and job callbacks called, records written to the store.  These calls are taken
  to return, and what the application does inside them is an operation of its own.

  Seven fields belong to the model and are read by no operation: \<open>p_submitting\<close> are the jobs that a
  call of \<open>submit\<close> is about to queue, \<open>p_inflight\<close> the jobs a worker has taken from a queue, \<open>p_running\<close> those among them whose \<open>Run\<close> has begun,
  \<open>p_basicTaken\<close> counts the jobs taken from the basic queue whose execution
  has not begun, \<open>p_basicRunning\<close> those that run, \<open>p_gone\<close> counts the jobs
  that left the pool by cancellation or by \<open>DropOldestPush\<close>; \<open>p_unlimited\<close> holds for the concurrency keys
  with which a job without a limit has run.
\<close>

datatype hook_field =
    OnPoolStart | OnPoolStop | OnWorkerStart | OnWorkerStop | OnJobSubmit | OnJobStart | OnJobSuccess
  | OnJobError | OnJobPanic | OnJobRetry | OnJobDeadLetter

datatype action =
    Emit event "handlerEntry list" "handlerEntry list"
  | PoolHook hook_field
  | WorkerHook hook_field int
  | JobHook hook_field JobOptions int "err option"
  | JobCallback nat cb_field JobInfo "err option"
  | SaveJob JobInfo
  | SaveDeadLetter JobInfo
  | StoreClose
  | SpillRecord JobInfo
  | WorkerCall string int

record counters =
  k_submitted :: "64 word"
  k_accepted :: "64 word"
  k_rejected :: "64 word"
  k_started :: "64 word"
  k_completed :: "64 word"
  k_failed :: "64 word"
  k_retried :: "64 word"
  k_panicked :: "64 word"
  k_timedout :: "64 word"
  k_dlq :: "64 word"
  k_rateDelayed :: "64 word"
  k_busy :: int

record pool =
  p_cfg :: config
  p_q :: "nat pqueue"
  p_basicq :: "job option fifo"
  p_fastq :: "nat option fifo"
  p_queueWake :: bool
  p_closeOnce :: bool
  p_ctxCancelled :: bool
  p_workers :: int
  p_state :: State
  p_seq :: "64 word"
  p_started :: time
  p_c :: counters
  p_hooks :: "hook_field list"
  p_middleware :: "nat list"
  p_idemp :: "string \<Rightarrow> string option"
  p_rates :: "string \<Rightarrow> nat option"
  p_sem :: keyedSemaphore
  p_dlq :: "nat list"
  p_jobs :: "(string \<times> nat) list"
  p_scaleStop :: bool
  p_store :: bool
  p_lifecycle :: "lifecycle option"
  p_jobPool :: "nat list"
  p_queueDefaults :: "string \<Rightarrow> QueuePolicy option"
  p_pausedQueues :: "string \<Rightarrow> bool"
  p_defaultOptions :: JobOptions
  p_workerInit :: bool
  p_workerClose :: bool
  p_spill :: "nat list"
  p_spillPath :: string
  p_spillMax :: int
  p_heap :: "nat \<Rightarrow> queuedJob"
  p_next :: nat
  p_futures :: "nat \<Rightarrow> futureAny"
  p_buckets :: "nat \<Rightarrow> tokenBucket"
  p_nextBucket :: nat
  p_nextCtx :: nat
  p_cancelled :: "nat set"
  p_log :: "action list"
  p_submitting :: "nat list"
  p_inflight :: "nat list"
  p_running :: "nat list"
  p_basicTaken :: nat
  p_basicRunning :: nat
  p_gone :: "64 word"
  p_unlimited :: "string \<Rightarrow> bool"

text \<open>What a call gets from outside the program: the clock at its numbered readings, the clock at the
  time stamps of events, the random draw, the conversion of floats out of range, the \<open>Delay\<close>
  methods of the application's backoffs, what event handlers do, and the pointer \<open>jobPool.Get\<close>
  takes (\<open>None\<close>: a new one).\<close>

record env =
  e_now :: "nat \<Rightarrow> time"
  e_stamp :: "nat \<Rightarrow> time"
  e_rnd :: "int \<Rightarrow> int"
  e_oob :: "f64 \<Rightarrow> int"
  e_ub :: "nat \<Rightarrow> int \<Rightarrow> duration"
  e_hs :: handler_sem
  e_pick :: "nat option"

text \<open>A round of a loop that waits: the clock and what the other goroutines did meanwhile.\<close>

type_synonym round = "time \<times> (pool \<Rightarrow> pool)"

subsection \<open>Small steps\<close>

definition bump :: "(counters \<Rightarrow> counters) \<Rightarrow> pool \<Rightarrow> pool" where
  "bump f p = p\<lparr>p_c := f (p_c p)\<rparr>"

definition note_act :: "action \<Rightarrow> pool \<Rightarrow> pool" where
  "note_act a p = p\<lparr>p_log := p_log p @ [a]\<rparr>"

definition upd_job :: "nat \<Rightarrow> (queuedJob \<Rightarrow> queuedJob) \<Rightarrow> pool \<Rightarrow> pool" where
  "upd_job x f p = p\<lparr>p_heap := (p_heap p)(x := f (p_heap p x))\<rparr>"

text \<open>\<open>emit\<close> and \<open>emitJob\<close> of \<open>lifecycle.go\<close>.\<close>

definition emit :: "env \<Rightarrow> event \<Rightarrow> pool \<Rightarrow> pool" where
  "emit e ev p =
     (case p_lifecycle p of
        None \<Rightarrow> p
      | Some l \<Rightarrow>
          let ev = ev\<lparr>ev_Pool := c_Name (p_cfg p), ev_State := State_String (p_state p)\<rparr>;
              ev = (case ev_Error ev of
                      Some x \<Rightarrow> if ev_ErrorText ev = '''' then ev\<lparr>ev_ErrorText := Error_text x\<rparr> else ev
                    | None \<Rightarrow> ev)
          in case lifecycle_emit (e_hs e) (e_stamp e (length (p_log p))) ev l of
               (l', ev, called, started) \<Rightarrow> note_act (Emit ev called started) (p\<lparr>p_lifecycle := Some l'\<rparr>))"

definition emitJob :: "env \<Rightarrow> EventType \<Rightarrow> nat \<Rightarrow> int \<Rightarrow> err option \<Rightarrow> string \<Rightarrow> pool \<Rightarrow> pool" where
  "emitJob e t x attempt er msg p =
     (if p_lifecycle p = None then p
      else let qj = p_heap p x;
               ev = (mk_event t)\<lparr>ev_Attempt := attempt, ev_Error := er, ev_Message := msg,
                      ev_Job := Some (info qj), ev_Options := Some (qj_opts qj), ev_Queue := o_Queue (qj_opts qj)\<rparr>;
               ev = (if \<not> IsZero (qj_startedAt qj) \<and> \<not> IsZero (qj_finishedAt qj)
                     then ev\<lparr>ev_Duration := time_Sub (qj_finishedAt qj) (qj_startedAt qj)\<rparr> else ev)
           in emit e ev p)"

text \<open>\<open>if p.hooks.OnX != nil { p.hooks.OnX(...) }\<close>,
  \<open>if qj.opts.Callback != nil && qj.opts.Callback.OnX != nil { ... }\<close> and
  \<open>if p.store != nil { p.store.SaveJob(...) }\<close>.\<close>

definition job_hook :: "hook_field \<Rightarrow> nat \<Rightarrow> int \<Rightarrow> err option \<Rightarrow> pool \<Rightarrow> pool" where
  "job_hook h x attempt er p =
     (if h \<in> set (p_hooks p) then note_act (JobHook h (qj_opts (p_heap p x)) attempt er) p else p)"

definition callback_call :: "cb_field \<Rightarrow> nat \<Rightarrow> err option \<Rightarrow> pool \<Rightarrow> pool" where
  "callback_call f x er p =
     (case o_Callback (qj_opts (p_heap p x)) of
        None \<Rightarrow> p
      | Some cb \<Rightarrow> if f \<in> set (cb_fields cb) then note_act (JobCallback (cb_id cb) f (info (p_heap p x)) er) p else p)"

definition store_job :: "nat \<Rightarrow> pool \<Rightarrow> pool" where
  "store_job x p = (if p_store p then note_act (SaveJob (info (p_heap p x))) p else p)"

text \<open>Contexts.\<close>

definition ctx_Err :: "pool \<Rightarrow> gctx \<Rightarrow> err option" where
  "ctx_Err p c =
     (if p_ctxCancelled p then Some CtxCanceled
      else case c of
        PoolCtx \<Rightarrow> None
      | JobCtx i \<Rightarrow> if i \<in> p_cancelled p then Some CtxCanceled else None)"

definition cancel_ctx :: "nat option \<Rightarrow> pool \<Rightarrow> pool" where
  "cancel_ctx c p = (case c of None \<Rightarrow> p | Some i \<Rightarrow> p\<lparr>p_cancelled := insert i (p_cancelled p)\<rparr>)"

text \<open>\<open>if qj.future != nil { qj.future.complete(v, err) }\<close>; the channel is not closed twice
  (\<open>future_first_wins\<close>).\<close>

definition complete_future :: "nat option \<Rightarrow> err option \<Rightarrow> pool \<Rightarrow> pool" where
  "complete_future fu er p =
     (case fu of
        None \<Rightarrow> p
      | Some i \<Rightarrow>
          (case complete None er (p_futures p i) of
             None \<Rightarrow> p
           | Some f \<Rightarrow> p\<lparr>p_futures := (p_futures p)(i := f)\<rparr>))"

definition signalQueueWake :: "pool \<Rightarrow> pool" where
  "signalQueueWake p = p\<lparr>p_queueWake := True\<rparr>"

definition untrack :: "string \<Rightarrow> pool \<Rightarrow> pool" where
  "untrack i p = p\<lparr>p_jobs := AList.delete i (p_jobs p)\<rparr>"

text \<open>\<open>if p.cfg.EnableJobTracking && ID != "" { p.jobs.Delete(ID) }\<close>,
  \<open>if IdempotencyKey != "" { p.idemp.Delete(IdempotencyKey) }\<close> and the two records of a dead
  letter.\<close>

definition untrack_job :: "JobOptions \<Rightarrow> pool \<Rightarrow> pool" where
  "untrack_job opts p =
     (if c_EnableJobTracking (p_cfg p) \<and> o_ID opts \<noteq> '''' then untrack (o_ID opts) p else p)"

definition forget_key :: "JobOptions \<Rightarrow> pool \<Rightarrow> pool" where
  "forget_key opts p =
     (if o_IdempotencyKey opts \<noteq> '''' then p\<lparr>p_idemp := (p_idemp p)(o_IdempotencyKey opts := None)\<rparr> else p)"

definition store_dead :: "nat \<Rightarrow> pool \<Rightarrow> pool" where
  "store_dead x p =
     (if p_store p
      then note_act (SaveDeadLetter (info (p_heap p x))) (note_act (SaveJob (info (p_heap p x))) p) else p)"

definition job_item :: "nat \<Rightarrow> pool \<Rightarrow> nat item" where
  "job_item x p = \<lparr>it_Value = x, it_Priority = o_Priority (qj_opts (p_heap p x)),
     it_Seq = qj_seq (p_heap p x), it_RunAt = qj_runAt (p_heap p x)\<rparr>"

text \<open>\<open>releaseJob\<close>; a released job is no longer held by its goroutine.\<close>

definition releaseJob :: "nat \<Rightarrow> pool \<Rightarrow> pool" where
  "releaseJob x p =
     (if qj_future (p_heap p x) \<noteq> None \<or> qj_state (p_heap p x) = JobDeadLettered then p
      else (upd_job x (\<lambda>_. zero_job) p)\<lparr>p_jobPool := x # p_jobPool p\<rparr>)"

definition leave :: "nat \<Rightarrow> pool \<Rightarrow> pool" where
  "leave x p = p\<lparr>p_submitting := remove1 x (p_submitting p), p_inflight := remove1 x (p_inflight p)\<rparr>"

subsection \<open>Queues of the pool\<close>

definition resetQueues :: "int \<Rightarrow> pool \<Rightarrow> pool" where
  "resetQueues n p = p\<lparr>p_q := NewPriorityQueue n, p_basicq := NewFIFO None n, p_fastq := NewFIFO None n\<rparr>"

definition SpillDepth :: "pool \<Rightarrow> int" where
  "SpillDepth p = int (length (p_spill p))"

definition QueueDepth :: "pool \<Rightarrow> int" where
  "QueueDepth p = PQ_Len (p_q p) + FIFO_Len (p_fastq p) + FIFO_Len (p_basicq p) + SpillDepth p"

definition trySpill :: "env \<Rightarrow> nat \<Rightarrow> pool \<Rightarrow> bool \<times> pool" where
  "trySpill e x p =
     (if p_spillPath p = '''' then (False, p)
      else if p_spillMax p > 0 \<and> int (length (p_spill p)) \<ge> p_spillMax p then (False, p)
      else let p = leave x (p\<lparr>p_spill := p_spill p @ [x]\<rparr>);
               p = emitJob e EventQueueSpill x (qj_attempt (p_heap p x)) None ''spilled to overflow'' p;
               p = note_act (SpillRecord (info (p_heap p x))) p
           in (True, signalQueueWake p))"

definition popSpill :: "pool \<Rightarrow> nat option \<times> pool" where
  "popSpill p =
     (case p_spill p of
        [] \<Rightarrow> (None, p)
      | x # rest \<Rightarrow> (Some x, p\<lparr>p_spill := rest, p_inflight := x # p_inflight p\<rparr>))"

text \<open>\<open>TryPush\<close> and \<open>TryPop\<close> of each queue, with the job entering or leaving the hands of the
  goroutine.\<close>

definition try_fast :: "nat \<Rightarrow> pool \<Rightarrow> bool \<times> pool" where
  "try_fast x p =
     (case FIFO_TryPush (Some x) (p_fastq p) of
        (ok, fq) \<Rightarrow> (ok, if ok then leave x (p\<lparr>p_fastq := fq\<rparr>) else p))"

definition try_basic :: "job option \<Rightarrow> pool \<Rightarrow> bool \<times> pool" where
  "try_basic j p = (case FIFO_TryPush j (p_basicq p) of (ok, bq) \<Rightarrow> (ok, p\<lparr>p_basicq := bq\<rparr>))"

definition try_q :: "nat item \<Rightarrow> pool \<Rightarrow> bool \<times> pool" where
  "try_q it p =
     (case PQ_Push it (p_q p) of
        (ok, pq) \<Rightarrow> (ok, if ok then leave (it_Value it) (p\<lparr>p_q := pq\<rparr>) else p))"

definition drop_q :: "nat item \<Rightarrow> pool \<Rightarrow> bool \<times> pool" where
  "drop_q it p =
     (case PQ_DropOldestPush it (p_q p) of
        (ok, pq) \<Rightarrow>
          (ok, if ok then leave (it_Value it) (p\<lparr>p_q := pq,
                 p_gone := p_gone p + of_nat (length (pq_items (p_q p)) + 1 - length (pq_items pq))\<rparr>) else p))"

text \<open>The loop of \<open>pushBlock\<close>, \<open>pushFast\<close> and \<open>pushBasic\<close>: try, give up after the deadline
  (zero: never; a deadline that is set lies after the zero time) or when the pool is stopping, let others run, try again.  \<open>None\<close>: still waiting
  after the given rounds.\<close>

fun spin_push :: "(pool \<Rightarrow> bool \<times> pool) \<Rightarrow> time \<Rightarrow> round list \<Rightarrow> pool \<Rightarrow> (bool \<times> pool) option" where
  "spin_push try deadline [] p = (case try p of (ok, p') \<Rightarrow> if ok then Some (True, p') else None)"
| "spin_push try deadline ((now, others) # rs) p =
     (case try p of
        (ok, p') \<Rightarrow>
          if ok then Some (True, p')
          else if \<not> IsZero deadline \<and> now > deadline then Some (False, p')
          else if p_state p' \<ge> stateStopping then Some (False, p')
          else spin_push try deadline rs (others p'))"

text \<open>\<open>Push\<close> of a FIFO sleeps while the queue is full and open.\<close>

fun sleep_push :: "(pool \<Rightarrow> bool) \<Rightarrow> (pool \<Rightarrow> bool \<times> pool) \<Rightarrow> round list \<Rightarrow> pool \<Rightarrow> (bool \<times> pool) option" where
  "sleep_push full try [] p = (if full p then None else Some (try p))"
| "sleep_push full try ((now, others) # rs) p =
     (if full p then sleep_push full try rs (others p) else Some (try p))"

definition fifo_waits :: "'a fifo \<Rightarrow> bool" where
  "fifo_waits q \<longleftrightarrow> fq_len q = length (fq_buf q) \<and> \<not> fq_closed q"

definition pushBasic :: "env \<Rightarrow> round list \<Rightarrow> job option \<Rightarrow> pool \<Rightarrow> (bool \<times> pool) option" where
  "pushBasic e rs j p =
     (if c_Backpressure (p_cfg p) = BackpressureReject \<or> c_Backpressure (p_cfg p) = BackpressureDropNewest
      then Some (try_basic j p)
      else if c_SubmitTimeout (p_cfg p) > 0
      then spin_push (try_basic j) (e_now e 1 + c_SubmitTimeout (p_cfg p)) rs p
      else sleep_push (\<lambda>p. fifo_waits (p_basicq p)) (try_basic j) rs p)"

definition pushFast :: "env \<Rightarrow> round list \<Rightarrow> nat \<Rightarrow> pool \<Rightarrow> (bool \<times> pool) option" where
  "pushFast e rs x p =
     (if c_Backpressure (p_cfg p) = BackpressureReject \<or> c_Backpressure (p_cfg p) = BackpressureDropNewest
      then Some (try_fast x p)
      else if c_SubmitTimeout (p_cfg p) > 0
      then spin_push (try_fast x) (e_now e 1 + c_SubmitTimeout (p_cfg p)) rs p
      else sleep_push (\<lambda>p. fifo_waits (p_fastq p)) (try_fast x) rs p)"

definition pushBlock :: "env \<Rightarrow> round list \<Rightarrow> nat item \<Rightarrow> pool \<Rightarrow> (bool \<times> pool) option" where
  "pushBlock e rs it p =
     (let deadline = (if c_SubmitTimeout (p_cfg p) > 0 then e_now e 1 + c_SubmitTimeout (p_cfg p) else 0)
      in spin_push (try_q it) deadline rs p)"

definition requeue :: "env \<Rightarrow> round list \<Rightarrow> nat \<Rightarrow> pool \<Rightarrow> (bool \<times> pool) option" where
  "requeue e rs x p =
     (case pushBlock e rs (job_item x p) p of
        None \<Rightarrow> None
      | Some (ok, p') \<Rightarrow> Some (ok, if ok then signalQueueWake p' else p'))"

end
