(* ===== verification/Pool_Submit.thy ===== *)
theory Pool_Submit
  imports Pool_State
begin

text \<open>
  Submission: \<open>submit\<close> of \<open>pool.go\<close> with everything it calls, from the first counter to the
  queue that takes the job.  The result is \<open>None\<close> while the call still waits in one of its loops
  after the given rounds; otherwise the returned pointer, the returned error, and the pool.

  The goroutine runs alone except in its loops, where the rounds say what the others do.
\<close>

subsection \<open>Rate limiting at admission\<close>

definition SetRateLimit :: "time \<Rightarrow> string \<Rightarrow> RateLimit \<Rightarrow> pool \<Rightarrow> pool" where
  "SetRateLimit now key r p =
     p\<lparr>p_buckets := (p_buckets p)(p_nextBucket p := newBucket now r),
       p_rates := (p_rates p)(key \<mapsto> p_nextBucket p),
       p_nextBucket := p_nextBucket p + 1\<rparr>"

definition rateBucket :: "string \<Rightarrow> pool \<Rightarrow> nat option" where
  "rateBucket key p = (if key = '''' then None else p_rates p key)"

definition bucket_allow :: "env \<Rightarrow> time \<Rightarrow> nat \<Rightarrow> pool \<Rightarrow> bool \<times> pool" where
  "bucket_allow e now b p =
     (case allow (e_oob e) now (p_buckets p b) of (ok, tb) \<Rightarrow> (ok, p\<lparr>p_buckets := (p_buckets p)(b := tb)\<rparr>))"

text \<open>The loop of \<open>RateLimitBlock\<close>.  A round: the clock as \<open>allow\<close> reads it, as the deadline
  check reads it, and the others during the sleep.\<close>

fun rate_block :: "env \<Rightarrow> nat \<Rightarrow> time \<Rightarrow> (time \<times> time \<times> (pool \<Rightarrow> pool)) list \<Rightarrow> pool \<Rightarrow> (err option \<times> pool) option" where
  "rate_block e b deadline [] p = None"
| "rate_block e b deadline ((now, now2, others) # rs) p =
     (case bucket_allow e now b p of
        (ok, p') \<Rightarrow>
          if ok then Some (None, p')
          else if p_state p' \<ge> stateStopping then Some (Some ErrClosed, p')
          else if \<not> IsZero deadline \<and> now2 > deadline then Some (Some ErrRateLimited, p')
          else rate_block e b deadline rs (others p'))"

definition admitRate :: "env \<Rightarrow> (time \<times> time \<times> (pool \<Rightarrow> pool)) list \<Rightarrow> string \<Rightarrow> pool \<Rightarrow> (err option \<times> pool) option" where
  "admitRate e rs key p =
     (case rateBucket key p of
        None \<Rightarrow> Some (None, p)
      | Some b \<Rightarrow>
          (case tb_mode (p_buckets p b) of
             RateLimitReject \<Rightarrow>
               (case bucket_allow e (e_now e 3) b p of
                  (ok, p') \<Rightarrow> Some (if ok then None else Some ErrRateLimited, p'))
           | RateLimitBlock \<Rightarrow>
               rate_block e b (if c_SubmitTimeout (p_cfg p) > 0 then e_now e 4 + c_SubmitTimeout (p_cfg p) else 0) rs p
           | RateLimitQueue \<Rightarrow> Some (None, p)))"

subsection \<open>The steps of submit\<close>

text \<open>The early returns on the state of the pool and on a nil job.\<close>

definition submit_refusal :: "State \<Rightarrow> job option \<Rightarrow> err option" where
  "submit_refusal st j =
     (if st = stateTerminated then Some ErrTerminated
      else if st = stateStopping \<or> st = stateStopped then Some ErrClosed
      else if j = None then Some (Wrapf ErrInvalidConfig '': nil job'')
      else None)"

text \<open>The options the job runs with; drawing an ID advances the sequence.\<close>

definition draw_id :: "JobOptions \<Rightarrow> pool \<Rightarrow> JobOptions \<times> pool" where
  "draw_id opt p =
     (if o_ID opt = '''' \<and> (c_EnableJobTracking (p_cfg p) \<or> c_EnableJobIDs (p_cfg p) \<or> o_IdempotencyKey opt \<noteq> '''')
      then (let p = p\<lparr>p_seq := p_seq p + 1\<rparr>
            in (opt\<lparr>o_ID := ''job-'' @ FormatUint (p_seq p)\<rparr>, p))
      else (opt, p))"

definition config_defaults :: "config \<Rightarrow> JobOptions \<Rightarrow> JobOptions" where
  "config_defaults c opt =
     (let opt = (if o_MaxAttempts opt \<le> 0 then opt\<lparr>o_MaxAttempts := c_DefaultMaxAttempts c\<rparr> else opt);
          opt = (if o_Backoff opt = None then opt\<lparr>o_Backoff := c_DefaultBackoff c\<rparr> else opt)
      in if o_Timeout opt \<le> 0 then opt\<lparr>o_Timeout := c_DefaultTimeout c\<rparr> else opt)"

definition submit_options :: "JobOptions list \<Rightarrow> pool \<Rightarrow> JobOptions \<times> pool" where
  "submit_options opts p =
     (let opt = (if opts \<noteq> [] then hd opts else no_options);
          opt = applyDefaults (p_defaultOptions p) (p_queueDefaults p) (p_pausedQueues p) opt
      in case draw_id opt p of (opt, p) \<Rightarrow> (config_defaults (p_cfg p) opt, p))"

definition useBasicFastPath :: "JobOptions \<Rightarrow> nat option \<Rightarrow> pool \<Rightarrow> bool" where
  "useBasicFastPath opt f p \<longleftrightarrow>
     f = None \<and> \<not> p_store p \<and> \<not> c_EnableJobTracking (p_cfg p) \<and> \<not> c_EnableJobIDs (p_cfg p) \<and>
     p_middleware p = [] \<and> p_lifecycle p = None \<and>
     OnJobSubmit \<notin> set (p_hooks p) \<and> OnJobStart \<notin> set (p_hooks p) \<and> OnJobSuccess \<notin> set (p_hooks p) \<and>
     OnJobError \<notin> set (p_hooks p) \<and> OnJobPanic \<notin> set (p_hooks p) \<and> p_spillPath p = '''' \<and>
     o_Queue opt = '''' \<and> o_Priority opt = PriorityNormal \<and> o_Delay opt = 0 \<and> IsZero (o_RunAt opt) \<and>
     o_Timeout opt = 0 \<and> o_MaxAttempts opt = 1 \<and>
     backoff_eq (o_Backoff opt) (c_DefaultBackoff (p_cfg p)) \<and> o_Metadata opt = [] \<and>
     o_IdempotencyKey opt = '''' \<and> o_ConcurrencyKey opt = '''' \<and> o_RateLimitKey opt = ''''"

definition useFastQueue :: "JobOptions \<Rightarrow> time \<Rightarrow> time \<Rightarrow> bool" where
  "useFastQueue opt now runAt \<longleftrightarrow>
     o_Priority opt = PriorityNormal \<and> o_Delay opt = 0 \<and> IsZero (o_RunAt opt) \<and> runAt = now"

definition rejected_event :: "err \<Rightarrow> event" where
  "rejected_event er = (mk_event EventJobRejected)\<lparr>ev_Error := Some er\<rparr>"

definition rejected_event_opt :: "err \<Rightarrow> JobOptions \<Rightarrow> event" where
  "rejected_event_opt er opt = (rejected_event er)\<lparr>ev_Options := Some opt, ev_Queue := o_Queue opt\<rparr>"

text \<open>\<open>jobPool.Get\<close>.\<close>

definition get_job :: "env \<Rightarrow> pool \<Rightarrow> nat \<times> pool" where
  "get_job e p =
     (case e_pick e of
        Some x \<Rightarrow> if x \<in> set (p_jobPool p) then (x, p\<lparr>p_jobPool := remove1 x (p_jobPool p)\<rparr>)
                 else (p_next p, p\<lparr>p_next := p_next p + 1\<rparr>)
      | None \<Rightarrow> (p_next p, p\<lparr>p_next := p_next p + 1\<rparr>))"

definition submit_runAt :: "JobOptions \<Rightarrow> time \<Rightarrow> time" where
  "submit_runAt opt now =
     (let runAt = now;
          runAt = (if o_Delay opt > 0 then runAt + o_Delay opt else runAt)
      in if \<not> IsZero (o_RunAt opt) \<and> o_RunAt opt > runAt then o_RunAt opt else runAt)"

text \<open>From the context to the initialised job and its future's cancel function.\<close>

definition new_job :: "env \<Rightarrow> job \<Rightarrow> nat option \<Rightarrow> JobOptions \<Rightarrow> time \<Rightarrow> time \<Rightarrow> pool \<Rightarrow> nat \<times> pool" where
  "new_job e j f opt now runAt p =
     (let (ctx, cancel, p) = (if f \<noteq> None \<or> c_EnableJobTracking (p_cfg p) \<or> o_ID opt \<noteq> ''''
                              then (JobCtx (p_nextCtx p), Some (p_nextCtx p), p\<lparr>p_nextCtx := p_nextCtx p + 1\<rparr>)
                              else (PoolCtx, None, p));
          j = (if p_middleware p \<noteq> [] then Chain (p_middleware p) j else j);
          (x, p) = get_job e p;
          p = p\<lparr>p_seq := p_seq p + 1\<rparr>;
          p = upd_job x (\<lambda>_. zero_job\<lparr>qj_seq := p_seq p, qj_job := Some j, qj_opts := opt, qj_createdAt := now,
                qj_runAt := runAt, qj_future := f, qj_ctx := Some ctx, qj_cancel := cancel, qj_pool := True\<rparr>) p;
          p = upd_job x (\<lambda>q. q\<lparr>qj_state := JobQueued\<rparr>) p;
          p = p\<lparr>p_submitting := x # p_submitting p\<rparr>;
          p = (case f of None \<Rightarrow> p
               | Some i \<Rightarrow> p\<lparr>p_futures := (p_futures p)(i := (p_futures p i)\<lparr>fu_cancel := cancel\<rparr>)\<rparr>)
      in (x, p))"

text \<open>The hook, the events, the index and the store before the job is queued.\<close>

definition announce_job :: "env \<Rightarrow> nat \<Rightarrow> JobOptions \<Rightarrow> pool \<Rightarrow> pool" where
  "announce_job e x opt p =
     (let p = (if OnJobSubmit \<in> set (p_hooks p) then note_act (JobHook OnJobSubmit opt 0 None) p else p);
          p = emitJob e EventJobSubmitted x 0 None '''' p;
          p = callback_call OnQueued x None p;
          p = (if c_EnableJobTracking (p_cfg p) \<and> o_ID opt \<noteq> ''''
               then p\<lparr>p_jobs := AList.update (o_ID opt) x (p_jobs p)\<rparr> else p)
      in store_job x p)"

definition enqueue_job :: "env \<Rightarrow> round list \<Rightarrow> nat \<Rightarrow> JobOptions \<Rightarrow> time \<Rightarrow> time \<Rightarrow> pool \<Rightarrow> (bool \<times> pool) option" where
  "enqueue_job e rs x opt now runAt p =
     (if useFastQueue opt now runAt then pushFast e rs x p
      else let item = \<lparr>it_Value = x, it_Priority = o_Priority opt, it_Seq = qj_seq (p_heap p x), it_RunAt = runAt\<rparr>;
               r = (case c_Backpressure (p_cfg p) of
                      BackpressureReject \<Rightarrow> Some (try_q item p)
                    | BackpressureDropOldest \<Rightarrow> Some (drop_q item p)
                    | BackpressureDropNewest \<Rightarrow> Some (try_q item p)
                    | BackpressureBlock \<Rightarrow> pushBlock e rs item p)
           in case r of None \<Rightarrow> None | Some (ok, p') \<Rightarrow> Some (ok, if ok then signalQueueWake p' else p'))"

text \<open>What follows the queue's answer.\<close>

definition submit_end :: "env \<Rightarrow> nat \<Rightarrow> nat option \<Rightarrow> JobOptions \<Rightarrow> bool \<Rightarrow> pool \<Rightarrow> (nat option \<times> err option) \<times> pool" where
  "submit_end e x f opt ok p =
     (if \<not> ok then
        (case trySpill e x p of
           (spilled, p) \<Rightarrow>
             if spilled then
               (let p = bump (k_accepted_update (\<lambda>n. n + 1)) p;
                    p = emitJob e EventJobAccepted x 0 None ''spilled'' p
                in ((Some x, None), p))
             else
               (let p = bump (k_rejected_update (\<lambda>n. n + 1)) p;
                    p = emitJob e EventJobRejected x 0 (Some ErrQueueFull) '''' p;
                    p = untrack_job opt p;
                    p = complete_future f (Some ErrQueueFull) p;
                    p = leave x (releaseJob x p)
                in ((None, Some ErrQueueFull), p)))
      else
        (let p = bump (k_accepted_update (\<lambda>n. n + 1)) p;
             p = emitJob e EventJobAccepted x 0 None '''' p;
             p = emitJob e EventJobQueued x 0 None '''' p
         in ((Some x, None), p)))"

definition submit_rejected :: "env \<Rightarrow> event \<Rightarrow> err \<Rightarrow> pool \<Rightarrow> ((nat option \<times> err option) \<times> pool)" where
  "submit_rejected e ev er p = ((None, Some er), emit e ev (bump (k_rejected_update (\<lambda>n. n + 1)) p))"

text \<open>The path through the job object, after the idempotency key and the rate limit.\<close>

definition submit_queued :: "env \<Rightarrow> round list \<Rightarrow> job \<Rightarrow> nat option \<Rightarrow> JobOptions \<Rightarrow> pool \<Rightarrow> ((nat option \<times> err option) \<times> pool) option" where
  "submit_queued e rs j f opt p =
     (let now = e_now e 2; runAt = submit_runAt opt now;
          (x, p) = new_job e j f opt now runAt p;
          p = announce_job e x opt p
      in case enqueue_job e rs x opt now runAt p of
           None \<Rightarrow> None
         | Some (ok, p') \<Rightarrow> Some (submit_end e x f opt ok p'))"

definition submit_tracked ::
  "env \<Rightarrow> (time \<times> time \<times> (pool \<Rightarrow> pool)) list \<Rightarrow> round list \<Rightarrow> job \<Rightarrow> nat option \<Rightarrow> JobOptions \<Rightarrow> pool \<Rightarrow>
   ((nat option \<times> err option) \<times> pool) option" where
  "submit_tracked e ars rs j f opt p =
     (if o_IdempotencyKey opt \<noteq> '''' \<and> p_idemp p (o_IdempotencyKey opt) \<noteq> None
      then Some (submit_rejected e (rejected_event_opt ErrDuplicate opt) ErrDuplicate p)
      else let p = (if o_IdempotencyKey opt \<noteq> '''' then p\<lparr>p_idemp := (p_idemp p)(o_IdempotencyKey opt \<mapsto> o_ID opt)\<rparr> else p)
           in case admitRate e ars (o_RateLimitKey opt) p of
                None \<Rightarrow> None
              | Some (Some er, p') \<Rightarrow> Some (submit_rejected e (rejected_event_opt er opt) er p')
              | Some (None, p') \<Rightarrow> submit_queued e rs j f opt p')"

definition submit_basic :: "env \<Rightarrow> round list \<Rightarrow> job \<Rightarrow> pool \<Rightarrow> ((nat option \<times> err option) \<times> pool) option" where
  "submit_basic e rs j p =
     (case pushBasic e rs (Some j) p of
        None \<Rightarrow> None
      | Some (ok, p') \<Rightarrow>
          Some (if ok then ((None, None), bump (k_accepted_update (\<lambda>n. n + 1)) p')
                else ((None, Some ErrQueueFull), bump (k_rejected_update (\<lambda>n. n + 1)) p')))"

definition submit ::
  "env \<Rightarrow> (time \<times> time \<times> (pool \<Rightarrow> pool)) list \<Rightarrow> round list \<Rightarrow> job option \<Rightarrow> nat option \<Rightarrow> JobOptions list \<Rightarrow> pool \<Rightarrow>
   ((nat option \<times> err option) \<times> pool) option" where
  "submit e ars rs j f opts p =
     (let p = bump (k_submitted_update (\<lambda>n. n + 1)) p;
          p = emit e (mk_event EventJobSubmitting) p
      in case submit_refusal (p_state p) j of
           Some er \<Rightarrow> Some (submit_rejected e (rejected_event er) er p)
         | None \<Rightarrow>
             (case submit_options opts p of
                (opt, p) \<Rightarrow>
                  if useBasicFastPath opt f p then submit_basic e rs (the j) p
                  else submit_tracked e ars rs (the j) f opt p))"

end
