(* ===== verification/Pool_Execute.thy ===== *)
theory Pool_Execute
  imports Pool_Submit
begin

text \<open>
  Execution: \<open>execute\<close>, \<open>executeBasic\<close>, \<open>deadletter\<close> and the worker loop of \<open>pool.go\<close>.

  The call of the job's \<open>Run\<close> divides \<open>execute\<close>: \<open>execute_begin\<close> is what happens before it
  and says whether it is called, \<open>execute_finish\<close> what happens after it, deferred calls included.
  Between the two the other goroutines do what they like, the job's own calls of the pool included.
  Where the code requeues a job it may have to wait, which the rounds describe; \<open>None\<close> means it
  still waits.  A panic that is not recovered ends the process (\<open>execute_crashes\<close>).
\<close>

datatype run_outcome = Returned "err option" | Panicked nat string string

text \<open>What became of the context with the job's timeout: whether the deadline passed before the end of
  the run, and whether it passed before a cancellation did.\<close>

record run_end =
  re_outcome :: run_outcome
  re_deadline :: bool
  re_deadlineFirst :: bool

subsection \<open>Dead letters\<close>

definition deadletter :: "env \<Rightarrow> nat \<Rightarrow> err option \<Rightarrow> pool \<Rightarrow> pool" where
  "deadletter e x er p =
     (let opts = qj_opts (p_heap p x);
          p = bump (k_dlq_update (\<lambda>n. n + 1)) p;
          p = upd_job x (\<lambda>q. q\<lparr>qj_state := JobDeadLettered\<rparr>) p;
          p = upd_job x (\<lambda>q. q\<lparr>qj_finishedAt := e_now e 20\<rparr>) p;
          p = untrack_job opts p;
          p = store_dead x p;
          p = leave x (p\<lparr>p_dlq := p_dlq p @ [x]\<rparr>);
          p = complete_future (qj_future (p_heap p x)) er p;
          p = callback_call OnDeadLetter x er p;
          p = callback_call OnFinally x er p;
          p = job_hook OnJobDeadLetter x (qj_attempt (p_heap p x)) er p;
          p = emitJob e EventJobDeadLettered x (qj_attempt (p_heap p x)) er '''' p
      in forget_key opts p)"

text \<open>\<open>if !p.requeue(qj) { p.deadletter(qj, ErrQueueFull) }\<close>\<close>

definition requeue_or_dead :: "env \<Rightarrow> round list \<Rightarrow> nat \<Rightarrow> pool \<Rightarrow> pool option" where
  "requeue_or_dead e rs x p =
     (case requeue e rs x p of
        None \<Rightarrow> None
      | Some (ok, p') \<Rightarrow> Some (if ok then p' else deadletter e x (Some ErrQueueFull) p'))"

subsection \<open>Before the run\<close>

definition cancel_record :: "env \<Rightarrow> nat \<Rightarrow> pool \<Rightarrow> pool" where
  "cancel_record e x p =
     (let opts = qj_opts (p_heap p x);
          p = upd_job x (\<lambda>q. q\<lparr>qj_state := JobCancelled\<rparr>) p;
          p = upd_job x (\<lambda>q. q\<lparr>qj_finishedAt := e_now e 10\<rparr>) p;
          p = store_job x p;
          p = untrack_job opts p;
          p = complete_future (qj_future (p_heap p x)) (Some ErrCancelled) p;
          p = callback_call OnCancel x None p;
          p = callback_call OnFinally x (Some ErrCancelled) p;
          p = emitJob e EventJobCancelled x (qj_attempt (p_heap p x)) (Some ErrCancelled) '''' p
      in p\<lparr>p_gone := p_gone p + 1\<rparr>)"

definition cancel_queued :: "env \<Rightarrow> nat \<Rightarrow> pool \<Rightarrow> pool" where
  "cancel_queued e x p = leave x (releaseJob x (cancel_record e x p))"

definition isQueuedPaused :: "nat \<Rightarrow> pool \<Rightarrow> bool" where
  "isQueuedPaused x p =
     (if o_Queue (qj_opts (p_heap p x)) = '''' then False else p_pausedQueues p (o_Queue (qj_opts (p_heap p x))))"

text \<open>\<open>delayForRateLimit\<close>: whether the job was put off.\<close>

definition delayForRateLimit :: "env \<Rightarrow> round list \<Rightarrow> nat \<Rightarrow> pool \<Rightarrow> (bool \<times> pool) option" where
  "delayForRateLimit e rs x p =
     (let qj = p_heap p x
      in if o_RateLimitKey (qj_opts qj) = '''' then Some (False, p)
         else if \<not> IsZero (qj_rateReadyAt qj) then
           (if e_now e 11 < qj_rateReadyAt qj then
              (let p = upd_job x (\<lambda>q. q\<lparr>qj_runAt := qj_rateReadyAt q\<rparr>) p;
                   p = upd_job x (\<lambda>q. q\<lparr>qj_state := JobQueued\<rparr>) p
               in map_option (Pair True) (requeue_or_dead e rs x p))
            else Some (False, upd_job x (\<lambda>q. q\<lparr>qj_rateReadyAt := 0\<rparr>) p))
         else
           (case rateBucket (o_RateLimitKey (qj_opts qj)) p of
              None \<Rightarrow> Some (False, p)
            | Some b \<Rightarrow>
                if tb_mode (p_buckets p b) \<noteq> RateLimitQueue then Some (False, p)
                else (case reserveDelay (e_oob e) (e_now e 12) True (p_buckets p b) of
                        ((delay, ok), tb) \<Rightarrow>
                          let p = p\<lparr>p_buckets := (p_buckets p)(b := tb)\<rparr>
                          in if \<not> ok then Some (False, p)
                             else if delay \<le> 0 then Some (False, p)
                             else (let p = upd_job x (\<lambda>q. q\<lparr>qj_runAt := e_now e 13 + delay\<rparr>) p;
                                       p = upd_job x (\<lambda>q. q\<lparr>qj_rateReadyAt := qj_runAt q\<rparr>) p;
                                       p = upd_job x (\<lambda>q. q\<lparr>qj_state := JobQueued\<rparr>) p;
                                       p = bump (k_rateDelayed_update (\<lambda>n. n + 1)) p;
                                       p = emitJob e EventJobRateDelayed x (qj_attempt (p_heap p x)) None ''rate limited'' p
                                   in map_option (Pair True) (requeue_or_dead e rs x p)))))"

definition start_job :: "env \<Rightarrow> nat \<Rightarrow> pool \<Rightarrow> pool" where
  "start_job e x p =
     (let p = upd_job x (\<lambda>q. q\<lparr>qj_attempt := qj_attempt q + 1\<rparr>) p;
          p = upd_job x (\<lambda>q. q\<lparr>qj_startedAt := e_now e 15\<rparr>) p;
          p = upd_job x (\<lambda>q. q\<lparr>qj_state := JobRunning\<rparr>) p;
          p = emitJob e EventJobStarting x (qj_attempt (p_heap p x)) None '''' p;
          p = callback_call OnStart x None p;
          p = store_job x p;
          p = bump (k_started_update (\<lambda>n. n + 1)) p;
          p = bump (k_busy_update (\<lambda>n. n + 1)) p;
          p = job_hook OnJobStart x (qj_attempt (p_heap p x)) None p;
          p = emitJob e EventJobStarted x (qj_attempt (p_heap p x)) None '''' p;
          opts = qj_opts (p_heap p x)
      in p\<lparr>p_running := x # p_running p,
           p_unlimited := (p_unlimited p)(o_ConcurrencyKey opts := p_unlimited p (o_ConcurrencyKey opts) \<or> o_MaxConcurrentPerKey opts \<le> 0)\<rparr>)"

definition execute_begin :: "env \<Rightarrow> round list \<Rightarrow> nat \<Rightarrow> pool \<Rightarrow> (bool \<times> pool) option" where
  "execute_begin e rs x p =
     (let p = emitJob e EventJobDequeued x (qj_attempt (p_heap p x)) None '''' p
      in if (case qj_ctx (p_heap p x) of None \<Rightarrow> False | Some c \<Rightarrow> ctx_Err p c \<noteq> None)
         then Some (False, cancel_queued e x p)
         else if isQueuedPaused x p then
           (let p = upd_job x (\<lambda>q. q\<lparr>qj_runAt := e_now e 14 + 50 * Millisecond\<rparr>) p;
                p = upd_job x (\<lambda>q. q\<lparr>qj_state := JobQueued\<rparr>) p
            in map_option (Pair False) (requeue_or_dead e rs x p))
         else
           (case delayForRateLimit e rs x p of
              None \<Rightarrow> None
            | Some (True, p') \<Rightarrow> Some (False, p')
            | Some (False, p') \<Rightarrow>
                (case tryAcquire (o_ConcurrencyKey (qj_opts (p_heap p' x))) (o_MaxConcurrentPerKey (qj_opts (p_heap p' x))) (p_sem p') of
                   (False, s) \<Rightarrow>
                     (let p = emitJob e EventJobConcurrencyDelayed x (qj_attempt (p_heap p' x)) None ''concurrency limit'' (p'\<lparr>p_sem := s\<rparr>);
                          p = upd_job x (\<lambda>q. q\<lparr>qj_runAt := e_now e 16 + 5 * Millisecond\<rparr>) p;
                          p = upd_job x (\<lambda>q. q\<lparr>qj_state := JobQueued\<rparr>) p
                      in map_option (Pair False) (requeue_or_dead e rs x p))
                 | (True, s) \<Rightarrow> Some (True, start_job e x (p'\<lparr>p_sem := s\<rparr>)))))"

subsection \<open>After the run\<close>

definition execute_crashes :: "run_outcome \<Rightarrow> pool \<Rightarrow> bool" where
  "execute_crashes r p \<longleftrightarrow> \<not> c_RecoverPanics (p_cfg p) \<and> (case r of Panicked _ _ _ \<Rightarrow> True | _ \<Rightarrow> False)"

text \<open>\<open>ctx.Err()\<close> after the run.\<close>

definition run_ctx_err :: "run_end \<Rightarrow> nat \<Rightarrow> pool \<Rightarrow> err option" where
  "run_ctx_err r x p =
     (let c = (case qj_ctx (p_heap p x) of None \<Rightarrow> PoolCtx | Some c \<Rightarrow> c);
          expired = (o_Timeout (qj_opts (p_heap p x)) > 0 \<and> re_deadline r)
      in if expired \<and> (re_deadlineFirst r \<or> ctx_Err p c = None) then Some CtxDeadlineExceeded
         else ctx_Err p c)"

text \<open>The deferred function that recovers a panic.\<close>

definition recover_panic :: "env \<Rightarrow> int \<Rightarrow> nat \<Rightarrow> nat \<Rightarrow> string \<Rightarrow> pool \<Rightarrow> pool" where
  "recover_panic e wid x v txt p =
     (let p = bump (k_panicked_update (\<lambda>n. n + 1)) p;
          p = job_hook OnJobPanic x (qj_attempt (p_heap p x)) None p;
          p = callback_call OnPanic x None p
      in emit e ((mk_event EventJobPanic)\<lparr>ev_WorkerID := wid, ev_Job := Some (info (p_heap p x)),
           ev_Options := Some (qj_opts (p_heap p x)), ev_Queue := o_Queue (qj_opts (p_heap p x)),
           ev_Attempt := qj_attempt (p_heap p x), ev_Panic := Some v, ev_Message := txt\<rparr>) p)"

definition succeed_record :: "env \<Rightarrow> nat \<Rightarrow> pool \<Rightarrow> pool" where
  "succeed_record e x p =
     (let opts = qj_opts (p_heap p x);
          p = bump (k_completed_update (\<lambda>n. n + 1)) p;
          p = upd_job x (\<lambda>q. q\<lparr>qj_state := JobSucceeded\<rparr>) p;
          p = upd_job x (\<lambda>q. q\<lparr>qj_finishedAt := e_now e 17\<rparr>) p;
          p = store_job x p;
          p = untrack_job opts p;
          p = complete_future (qj_future (p_heap p x)) None p;
          p = callback_call OnSuccess x None p;
          p = callback_call OnFinally x None p;
          p = job_hook OnJobSuccess x (qj_attempt (p_heap p x)) None p;
          p = emitJob e EventJobSucceeded x (qj_attempt (p_heap p x)) None '''' p;
          p = forget_key opts p
      in p)"

definition succeed_job :: "env \<Rightarrow> nat \<Rightarrow> pool \<Rightarrow> pool" where
  "succeed_job e x p = leave x (releaseJob x (succeed_record e x p))"

definition retry_job :: "env \<Rightarrow> round list \<Rightarrow> nat \<Rightarrow> err option \<Rightarrow> pool \<Rightarrow> pool option" where
  "retry_job e rs x er p =
     (let attempt = qj_attempt (p_heap p x);
          p = bump (k_retried_update (\<lambda>n. n + 1)) p;
          p = job_hook OnJobRetry x attempt er p;
          p = callback_call OnRetry x er p;
          p = emitJob e EventJobRetrying x attempt er '''' p;
          p = upd_job x (\<lambda>q. q\<lparr>qj_state := JobRetrying\<rparr>) p;
          delay = (case o_Backoff (qj_opts (p_heap p x)) of None \<Rightarrow> 0 | Some b \<Rightarrow> Delay (e_oob e) (e_rnd e) (e_ub e) b attempt);
          p = upd_job x (\<lambda>q. q\<lparr>qj_runAt := e_now e 18 + delay\<rparr>) p;
          p = store_job x p
      in requeue_or_dead e rs x p)"

definition fail_job :: "env \<Rightarrow> round list \<Rightarrow> nat \<Rightarrow> err option \<Rightarrow> pool \<Rightarrow> pool option" where
  "fail_job e rs x er p =
     (let p = bump (k_failed_update (\<lambda>n. n + 1)) p;
          p = upd_job x (\<lambda>q. q\<lparr>qj_state := JobFailed\<rparr>) p;
          p = (case er of None \<Rightarrow> p | Some r \<Rightarrow> upd_job x (\<lambda>q. q\<lparr>qj_lastErr := Some (Error_text r)\<rparr>) p);
          p = job_hook OnJobError x (qj_attempt (p_heap p x)) er p;
          p = emitJob e EventJobFailed x (qj_attempt (p_heap p x)) er '''' p;
          p = callback_call OnError x er p
      in if qj_attempt (p_heap p x) < o_MaxAttempts (qj_opts (p_heap p x)) \<and> \<not> IsPermanent er \<and> p_state p < stateStopping
         then retry_job e rs x er p
         else Some (deadletter e x er p))"

text \<open>The deferred calls: the busy counter and the semaphore, with the key as it was when the call was
  deferred.\<close>

definition end_run :: "nat \<Rightarrow> string \<Rightarrow> pool \<Rightarrow> pool" where
  "end_run x key p =
     (let p = bump (k_busy_update (\<lambda>n. n - 1)) p
      in p\<lparr>p_sem := release key (p_sem p), p_running := remove1 x (p_running p)\<rparr>)"

text \<open>The error of a run, and the effects of recovering a panic and of an expired context.\<close>

definition run_result :: "env \<Rightarrow> int \<Rightarrow> nat \<Rightarrow> run_end \<Rightarrow> pool \<Rightarrow> err option \<times> pool" where
  "run_result e wid x r p =
     (let (er, p) = (case re_outcome r of
                       Returned er \<Rightarrow> (er, p)
                     | Panicked v txt stack \<Rightarrow>
                         (Some (Errorf (''panic: '' @ txt @ CHR 0x0A # stack)), recover_panic e wid x v txt p))
      in if run_ctx_err r x p \<noteq> None \<and> er = None
         then (run_ctx_err r x p,
               emitJob e EventJobTimeout x (qj_attempt (p_heap p x)) (run_ctx_err r x p) ''''
                 (bump (k_timedout_update (\<lambda>n. n + 1)) p))
         else (er, p))"

definition execute_finish :: "env \<Rightarrow> round list \<Rightarrow> int \<Rightarrow> nat \<Rightarrow> run_end \<Rightarrow> pool \<Rightarrow> pool option" where
  "execute_finish e rs wid x r p =
     (let key = o_ConcurrencyKey (qj_opts (p_heap p x))
      in case run_result e wid x r p of
           (er, p) \<Rightarrow>
             map_option (end_run x key)
               (if er = None then Some (succeed_job e x p) else fail_job e rs x er p))"

subsection \<open>Jobs of the basic queue\<close>

definition basic_begin :: "pool \<Rightarrow> pool" where
  "basic_begin p =
     (let p = bump (k_started_update (\<lambda>n. n + 1)) p;
          p = bump (k_busy_update (\<lambda>n. n + 1)) p
      in p\<lparr>p_basicTaken := p_basicTaken p - 1, p_basicRunning := p_basicRunning p + 1\<rparr>)"

definition basic_finish :: "run_outcome \<Rightarrow> pool \<Rightarrow> pool" where
  "basic_finish r p =
     (let (er, p) = (case r of
                       Returned er \<Rightarrow> (er, p)
                     | Panicked v txt stack \<Rightarrow>
                         (Some (Errorf (''panic: '' @ txt)), bump (k_panicked_update (\<lambda>n. n + 1)) p));
          p = (if er \<noteq> None
               then bump (k_dlq_update (\<lambda>n. n + 1)) (bump (k_failed_update (\<lambda>n. n + 1)) p)
               else bump (k_completed_update (\<lambda>n. n + 1)) p);
          p = bump (k_busy_update (\<lambda>n. n - 1)) p
      in p\<lparr>p_basicRunning := p_basicRunning p - 1\<rparr>)"

subsection \<open>The worker loop\<close>

text \<open>The pops with the job coming into the worker's hands.\<close>

definition pop_basic :: "pool \<Rightarrow> job option option \<times> pool" where
  "pop_basic p =
     (case FIFO_TryPop (p_basicq p) of
        (None, q) \<Rightarrow> (None, p\<lparr>p_basicq := q\<rparr>)
      | (Some j, q) \<Rightarrow> (Some j, p\<lparr>p_basicq := q, p_basicTaken := p_basicTaken p + 1\<rparr>))"

definition pop_fast :: "pool \<Rightarrow> nat option option \<times> pool" where
  "pop_fast p =
     (case FIFO_TryPop (p_fastq p) of
        (None, q) \<Rightarrow> (None, p\<lparr>p_fastq := q\<rparr>)
      | (Some x, q) \<Rightarrow>
          (Some x, p\<lparr>p_fastq := q, p_inflight := (case x of None \<Rightarrow> p_inflight p | Some y \<Rightarrow> y # p_inflight p)\<rparr>))"

definition pop_q :: "time \<Rightarrow> pool \<Rightarrow> nat option \<times> pool" where
  "pop_q now p =
     (case PQ_TryPop now (p_q p) of
        (None, q) \<Rightarrow> (None, p\<lparr>p_q := q\<rparr>)
      | (Some it, q) \<Rightarrow> (Some (it_Value it), p\<lparr>p_q := q, p_inflight := it_Value it # p_inflight p\<rparr>))"

datatype work = WStop | WSleep | WBasic "job option" | WJob nat | WNone

text \<open>The top of an iteration: the state, then the queues in their order, without waiting.  A pointer
  in \<open>fastq\<close> is never nil (\<open>execute\<close> would return at once).\<close>

definition worker_poll :: "time \<Rightarrow> pool \<Rightarrow> work \<times> pool" where
  "worker_poll now p =
     (if p_state p = stateTerminated then (WStop, p)
      else if p_state p = statePaused then (if p_ctxCancelled p then WStop else WSleep, p)
      else case pop_basic p of
        (Some j, p') \<Rightarrow> (WBasic j, p')
      | (None, p') \<Rightarrow>
          (case pop_fast p' of
             (Some (Some x), p'') \<Rightarrow> (WJob x, p'')
           | (Some None, p'') \<Rightarrow> (WNone, p'')
           | (None, p'') \<Rightarrow>
               (case popSpill p'' of
                  (Some x, p3) \<Rightarrow> (WJob x, p3)
                | (None, p3) \<Rightarrow>
                    (case pop_q now p3 of
                       (Some x, p4) \<Rightarrow> (WJob x, p4)
                     | (None, p4) \<Rightarrow> (WNone, p4)))))"

text \<open>The two conditions under which a worker that found nothing returns.\<close>

definition worker_drained :: "pool \<Rightarrow> bool" where
  "worker_drained p \<longleftrightarrow> p_state p = stateStopping \<and> FIFO_Len (p_basicq p) = 0 \<and>
     FIFO_Len (p_fastq p) = 0 \<and> PQ_Len (p_q p) = 0"

definition worker_surplus :: "pool \<Rightarrow> bool" where
  "worker_surplus p \<longleftrightarrow> c_IdleTimeout (p_cfg p) > 0 \<and> p_workers p > c_MinWorkers (p_cfg p)"

definition spawnWorker :: "pool \<Rightarrow> int \<times> pool" where
  "spawnWorker p = (let p = p\<lparr>p_workers := p_workers p + 1\<rparr> in (p_workers p, p))"

definition worker_start :: "env \<Rightarrow> int \<Rightarrow> pool \<Rightarrow> pool" where
  "worker_start e wid p =
     (let p = emit e ((mk_event EventWorkerStarting)\<lparr>ev_WorkerID := wid\<rparr>) p;
          p = (if p_workerInit p then note_act (WorkerCall ''init'' wid) p else p);
          p = (if OnWorkerStart \<in> set (p_hooks p) then note_act (WorkerHook OnWorkerStart wid) p else p)
      in emit e ((mk_event EventWorkerStarted)\<lparr>ev_WorkerID := wid\<rparr>) p)"

text \<open>The deferred calls run in reverse order.\<close>

definition worker_exit :: "env \<Rightarrow> int \<Rightarrow> pool \<Rightarrow> pool" where
  "worker_exit e wid p =
     (let p = (if p_workerClose p then note_act (WorkerCall ''close'' wid) p else p);
          p = p\<lparr>p_workers := p_workers p - 1\<rparr>;
          p = emit e ((mk_event EventWorkerStopping)\<lparr>ev_WorkerID := wid\<rparr>) p;
          p = (if OnWorkerStop \<in> set (p_hooks p) then note_act (WorkerHook OnWorkerStop wid) p else p)
      in emit e ((mk_event EventWorkerStopped)\<lparr>ev_WorkerID := wid\<rparr>) p)"

text \<open>One tick of \<open>autoscale\<close>.\<close>

definition autoscale_tick :: "pool \<Rightarrow> pool" where
  "autoscale_tick p =
     (if p_state p \<noteq> stateRunning then p
      else let depth = PQ_Len (p_q p); workers = p_workers p
           in if depth > workers \<and> workers < c_MaxWorkers (p_cfg p) then snd (spawnWorker p) else p)"

end
