(* ===== verification/Pool_Control.thy ===== *)
theory Pool_Control
  imports Pool_Execute
begin

text \<open>
  The life of a pool and its control operations: construction with options (\<open>New\<close> of
  \<open>pool.go\<close>, the options of \<open>pool.go\<close>, \<open>lifecycle.go\<close> and \<open>usability.go\<close>), start, pause,
  resume, shutdown and termination, cancellation and inspection (\<open>inspect.go\<close>), the dead-letter
  queue (\<open>dlq.go\<close>), named queues and defaults (\<open>usability.go\<close>), statistics and diagnosis.
\<close>

subsection \<open>Construction\<close>

definition zero_counters :: counters where
  "zero_counters = \<lparr>k_submitted = 0, k_accepted = 0, k_rejected = 0, k_started = 0, k_completed = 0,
     k_failed = 0, k_retried = 0, k_panicked = 0, k_timedout = 0, k_dlq = 0, k_rateDelayed = 0, k_busy = 0\<rparr>"

definition empty_bucket :: tokenBucket where
  "empty_bucket = \<lparr>tb_rate = Fin 0, tb_burst = Fin 0, tb_tokens = Fin 0, tb_mode = RateLimitQueue, tb_last = 0\<rparr>"

definition fresh_pool :: "config \<Rightarrow> pool" where
  "fresh_pool cfg = \<lparr>p_cfg = cfg, p_q = NewPriorityQueue (c_QueueSize cfg),
     p_basicq = NewFIFO None (c_QueueSize cfg), p_fastq = NewFIFO None (c_QueueSize cfg),
     p_queueWake = False, p_closeOnce = False, p_ctxCancelled = False, p_workers = 0, p_state = stateNew,
     p_seq = 0, p_started = 0, p_c = zero_counters, p_hooks = [], p_middleware = [],
     p_idemp = (\<lambda>_. None), p_rates = (\<lambda>_. None), p_sem = newKeyedSemaphore, p_dlq = [], p_jobs = [],
     p_scaleStop = False, p_store = False, p_lifecycle = None, p_jobPool = [],
     p_queueDefaults = (\<lambda>_. None), p_pausedQueues = (\<lambda>_. False), p_defaultOptions = no_options,
     p_workerInit = False, p_workerClose = False, p_spill = [], p_spillPath = '''', p_spillMax = 0,
     p_heap = (\<lambda>_. zero_job), p_next = 0, p_futures = (\<lambda>_. newFutureAny),
     p_buckets = (\<lambda>_. empty_bucket), p_nextBucket = 0, p_nextCtx = 0, p_cancelled = {}, p_log = [],
     p_submitting = [], p_inflight = [], p_running = [], p_basicTaken = 0, p_basicRunning = 0, p_gone = 0, p_unlimited = (\<lambda>_. False)\<rparr>"

text \<open>\<open>SetQueuePolicy\<close>, \<open>UpdateQueueWeight\<close>, \<open>SetDefaultOptions\<close> and \<open>p.Lifecycle()\<close>.\<close>

definition SetQueuePolicy :: "string \<Rightarrow> QueuePolicy \<Rightarrow> pool \<Rightarrow> pool" where
  "SetQueuePolicy name policy p =
     (if name = '''' then p
      else p\<lparr>p_queueDefaults := (p_queueDefaults p)(name \<mapsto> policy\<lparr>qp_Name := name\<rparr>)\<rparr>)"

definition UpdateQueueWeight :: "string \<Rightarrow> int \<Rightarrow> pool \<Rightarrow> pool" where
  "UpdateQueueWeight name priority p =
     (let q = (case p_queueDefaults p name of None \<Rightarrow> no_policy | Some q \<Rightarrow> q);
          q = q\<lparr>qp_Priority := priority, qp_Name := name\<rparr>
      in p\<lparr>p_queueDefaults := (p_queueDefaults p)(name \<mapsto> q)\<rparr>)"

definition SetDefaultOptions :: "JobOptions \<Rightarrow> pool \<Rightarrow> pool" where
  "SetDefaultOptions opt p = p\<lparr>p_defaultOptions := opt\<rparr>"

definition with_lifecycle :: "(lifecycle \<Rightarrow> lifecycle) \<Rightarrow> pool \<Rightarrow> pool" where
  "with_lifecycle f p =
     p\<lparr>p_lifecycle := Some (f (case p_lifecycle p of None \<Rightarrow> NewLifecycle | Some l \<Rightarrow> l))\<rparr>"

datatype pool_option =
    WithHooks "hook_field list" | WithMiddleware "nat list" | WithStore bool
  | WithLifecycle "lifecycle option" | WithLifecycleHook "nat option" "EventType list" | WithAsyncLifecycle bool
  | WithName string | WithWorkers int | WithWorkerRange int int | WithQueueSize int
  | WithBackpressure BackpressurePolicy | WithSubmitTimeout duration | WithDefaultOptions JobOptions
  | WithRateLimit string RateLimit | WithQueuePolicy string QueuePolicy
  | WithJobTracking bool | WithJobIDs bool | WithRecoverPanics bool | WithAutoScale bool
  | WithWorkerInit bool | WithWorkerClose bool | WithSpillover string int
  | PresetLowLatency "int option" | PresetHighThroughput "int option" | PresetReliable
  | PresetBackgroundQueue | PresetAPIBuffer

definition upd_cfg :: "(config \<Rightarrow> config) \<Rightarrow> pool \<Rightarrow> pool" where
  "upd_cfg f p = p\<lparr>p_cfg := f (p_cfg p)\<rparr>"

text \<open>A preset also replaces the queues, with its size.\<close>

definition preset :: "(config \<Rightarrow> config) \<Rightarrow> pool \<Rightarrow> pool" where
  "preset f p = (let p = upd_cfg f p in resetQueues (c_QueueSize (p_cfg p)) p)"

fun apply_option :: "time \<Rightarrow> pool_option \<Rightarrow> pool \<Rightarrow> pool" where
  "apply_option now (WithHooks h) p = p\<lparr>p_hooks := h\<rparr>"
| "apply_option now (WithMiddleware m) p = p\<lparr>p_middleware := p_middleware p @ m\<rparr>"
| "apply_option now (WithStore s) p = (if s then p\<lparr>p_store := s\<rparr> else p)"
| "apply_option now (WithLifecycle l) p = p\<lparr>p_lifecycle := Some (case l of None \<Rightarrow> NewLifecycle | Some b \<Rightarrow> b)\<rparr>"
| "apply_option now (WithLifecycleHook fn types) p = with_lifecycle (\<lambda>l. snd (lifecycle_On fn types l)) p"
| "apply_option now (WithAsyncLifecycle b) p = with_lifecycle (SetAsync b) p"
| "apply_option now (WithName n) p = upd_cfg (WithName_cfg n) p"
| "apply_option now (WithWorkers n) p = upd_cfg (WithWorkers_cfg n) p"
| "apply_option now (WithWorkerRange lo hi) p = upd_cfg (WithWorkerRange_cfg lo hi) p"
| "apply_option now (WithQueueSize n) p =
     (if n > 0 \<and> p_state p = stateNew then resetQueues n (upd_cfg (c_QueueSize_update (\<lambda>_. n)) p) else p)"
| "apply_option now (WithBackpressure b) p = upd_cfg (c_Backpressure_update (\<lambda>_. b)) p"
| "apply_option now (WithSubmitTimeout d) p = upd_cfg (c_SubmitTimeout_update (\<lambda>_. d)) p"
| "apply_option now (WithDefaultOptions opt) p = p\<lparr>p_defaultOptions := opt\<rparr>"
| "apply_option now (WithRateLimit key r) p = SetRateLimit now key r p"
| "apply_option now (WithQueuePolicy name policy) p = SetQueuePolicy name policy p"
| "apply_option now (WithJobTracking b) p = upd_cfg (c_EnableJobTracking_update (\<lambda>_. b)) p"
| "apply_option now (WithJobIDs b) p = upd_cfg (c_EnableJobIDs_update (\<lambda>_. b)) p"
| "apply_option now (WithRecoverPanics b) p = upd_cfg (c_RecoverPanics_update (\<lambda>_. b)) p"
| "apply_option now (WithAutoScale b) p = upd_cfg (c_EnableAutoScale_update (\<lambda>_. b)) p"
| "apply_option now (WithWorkerInit b) p = p\<lparr>p_workerInit := b\<rparr>"
| "apply_option now (WithWorkerClose b) p = p\<lparr>p_workerClose := b\<rparr>"
| "apply_option now (WithSpillover dir n) p = p\<lparr>p_spillPath := dir, p_spillMax := n\<rparr>"
| "apply_option now (PresetLowLatency g) p = preset (PresetLowLatency_cfg g) p"
| "apply_option now (PresetHighThroughput g) p = preset (PresetHighThroughput_cfg g) p"
| "apply_option now PresetReliable p = preset PresetReliable_cfg p"
| "apply_option now PresetBackgroundQueue p = preset PresetBackgroundQueue_cfg p"
| "apply_option now PresetAPIBuffer p = preset PresetAPIBuffer_cfg p"

definition New :: "env \<Rightarrow> config \<Rightarrow> pool_option list \<Rightarrow> pool" where
  "New e c opts =
     (let p = fresh_pool (normalizeConfig c);
          p = fold (apply_option (e_now e 0)) opts p
      in emit e (mk_event EventPoolCreated) p)"

subsection \<open>Start, pause, resume\<close>

definition Start :: "env \<Rightarrow> pool \<Rightarrow> pool" where
  "Start e p =
     (let p = emit e (mk_event EventPoolStarting) p
      in if p_state p \<noteq> stateNew then p
         else let p = p\<lparr>p_state := stateRunning\<rparr>;
                  p = p\<lparr>p_started := e_now e 0\<rparr>;
                  p = ((\<lambda>p. snd (spawnWorker p)) ^^ nat (c_MinWorkers (p_cfg p))) p;
                  p = (if OnPoolStart \<in> set (p_hooks p) then note_act (PoolHook OnPoolStart) p else p)
              in emit e (mk_event EventPoolStarted) p)"

text \<open>The loops around the compare-and-swap: the list holds what the others did between the event and
  the swap.\<close>

fun Pause :: "env \<Rightarrow> (pool \<Rightarrow> pool) list \<Rightarrow> pool \<Rightarrow> err option \<times> pool" where
  "Pause e [] p =
     (if p_state p = stateRunning then
        (None, emit e (mk_event EventPoolPaused) ((emit e (mk_event EventPoolPausing) p)\<lparr>p_state := statePaused\<rparr>))
      else if p_state p = statePaused then (None, p) else (Some ErrClosed, p))"
| "Pause e (others # rs) p =
     (if p_state p = stateRunning then
        (let p = others (emit e (mk_event EventPoolPausing) p)
         in if p_state p = stateRunning
            then (None, emit e (mk_event EventPoolPaused) (p\<lparr>p_state := statePaused\<rparr>))
            else Pause e rs p)
      else if p_state p = statePaused then (None, p) else (Some ErrClosed, p))"

fun Resume :: "env \<Rightarrow> (pool \<Rightarrow> pool) list \<Rightarrow> pool \<Rightarrow> err option \<times> pool" where
  "Resume e [] p =
     (if p_state p = statePaused then
        (None, emit e (mk_event EventPoolResumed) ((emit e (mk_event EventPoolResuming) p)\<lparr>p_state := stateRunning\<rparr>))
      else if p_state p = stateRunning then (None, p) else (Some ErrClosed, p))"
| "Resume e (others # rs) p =
     (if p_state p = statePaused then
        (let p = others (emit e (mk_event EventPoolResuming) p)
         in if p_state p = statePaused
            then (None, emit e (mk_event EventPoolResumed) (p\<lparr>p_state := stateRunning\<rparr>))
            else Resume e rs p)
      else if p_state p = stateRunning then (None, p) else (Some ErrClosed, p))"

subsection \<open>Shutdown and termination\<close>

definition close_fifos :: "pool \<Rightarrow> pool" where
  "close_fifos p =
     (if p_closeOnce p then p
      else p\<lparr>p_closeOnce := True, p_basicq := FIFO_Close (p_basicq p), p_fastq := FIFO_Close (p_fastq p)\<rparr>)"

text \<open>\<open>Shutdown\<close> after it has read the state \<open>s\<close> and found it below stopping; \<open>None\<close> is the
  panic of closing \<open>scaleStop\<close> twice.\<close>

definition shutdown_stop :: "env \<Rightarrow> pool \<Rightarrow> pool option" where
  "shutdown_stop e p =
     (let p = emit e (mk_event EventPoolStopping) p;
          p = p\<lparr>p_state := stateStopping\<rparr>
      in if p_scaleStop p then None
         else let p = p\<lparr>p_scaleStop := True\<rparr>;
                  p = close_fifos p;
                  p = p\<lparr>p_q := PQ_Close (p_q p)\<rparr>
              in Some (if OnPoolStop \<in> set (p_hooks p) then note_act (PoolHook OnPoolStop) p else p))"

datatype shutdown_wait = ShutFailed err | ShutWaits | ShutPanics

definition shutdown_begin :: "env \<Rightarrow> State \<Rightarrow> pool \<Rightarrow> shutdown_wait \<times> pool" where
  "shutdown_begin e s p =
     (if s = stateTerminated then (ShutFailed ErrTerminated, p)
      else if s < stateStopping then
        (case shutdown_stop e p of None \<Rightarrow> (ShutPanics, p) | Some p' \<Rightarrow> (ShutWaits, p'))
      else (ShutWaits, p))"

text \<open>When every worker has returned.\<close>

definition shutdown_end :: "env \<Rightarrow> pool \<Rightarrow> pool" where
  "shutdown_end e p =
     (let p = p\<lparr>p_state := stateStopped\<rparr>;
          p = emit e (mk_event EventPoolStopped) p;
          p = p\<lparr>p_ctxCancelled := True\<rparr>
      in if p_store p then note_act StoreClose p else p)"

text \<open>\<open>Shutdown\<close> with what the others do while it waits; \<open>ctxErr\<close> is the caller's context when it
  gives up waiting.\<close>

definition Shutdown :: "env \<Rightarrow> (pool \<Rightarrow> pool) \<Rightarrow> err \<Rightarrow> pool \<Rightarrow> err option \<times> pool" where
  "Shutdown e others ctxErr p =
     (case shutdown_begin e (p_state p) p of
        (ShutFailed er, p) \<Rightarrow> (Some er, p)
      | (ShutPanics, p) \<Rightarrow> (Some (Errorf ''panic: close of closed channel''), p)
      | (ShutWaits, p) \<Rightarrow>
          let p = others p
          in if p_workers p = 0 then (None, shutdown_end e p) else (Some ctxErr, p))"

definition Drain :: "env \<Rightarrow> (pool \<Rightarrow> pool) \<Rightarrow> err \<Rightarrow> pool \<Rightarrow> err option \<times> pool" where
  "Drain e others ctxErr p =
     (case Shutdown e others ctxErr (emit e (mk_event EventDrainStarted) p) of
        (er, p) \<Rightarrow> (er, if er = None then emit e (mk_event EventDrainCompleted) p else p))"

definition Terminate :: "env \<Rightarrow> pool \<Rightarrow> pool" where
  "Terminate e p =
     (let p = emit e (mk_event EventPoolTerminating) p;
          s = p_state p;
          p = p\<lparr>p_state := stateTerminated\<rparr>
      in if s = stateTerminated then p
         else let p = p\<lparr>p_ctxCancelled := True\<rparr>;
                  p = close_fifos p;
                  p = p\<lparr>p_q := PQ_Close (p_q p)\<rparr>;
                  p = (if p_store p then note_act StoreClose p else p)
              in emit e (mk_event EventPoolTerminated) p)"

subsection \<open>Cancellation and inspection\<close>

definition CancelJob :: "env \<Rightarrow> string \<Rightarrow> pool \<Rightarrow> bool \<times> pool" where
  "CancelJob e i p =
     (case map_of (p_jobs p) i of
        None \<Rightarrow> (False, p)
      | Some x \<Rightarrow>
          let p = upd_job x (\<lambda>q. q\<lparr>qj_state := JobCancelled\<rparr>) p;
              p = upd_job x (\<lambda>q. q\<lparr>qj_finishedAt := e_now e 0\<rparr>) p;
              p = cancel_ctx (qj_cancel (p_heap p x)) p;
              p = complete_future (qj_future (p_heap p x)) (Some ErrCancelled) p
          in (True, untrack i p))"

definition InspectJob :: "string \<Rightarrow> pool \<Rightarrow> JobInfo option" where
  "InspectJob i p = (case map_of (p_jobs p) i of None \<Rightarrow> None | Some x \<Rightarrow> Some (info (p_heap p x)))"

definition ActiveJobs :: "pool \<Rightarrow> JobInfo list" where
  "ActiveJobs p = map (\<lambda>(_, x). info (p_heap p x)) (p_jobs p)"

text \<open>\<open>CancelAll\<close> over the entries the range visits, until the caller's context is done.\<close>

fun cancel_range :: "env \<Rightarrow> (string \<times> bool) list \<Rightarrow> pool \<Rightarrow> int \<times> pool" where
  "cancel_range e [] p = (0, p)"
| "cancel_range e ((i, ctxDone) # rest) p =
     (if ctxDone then (0, p)
      else case CancelJob e i p of
        (ok, p) \<Rightarrow> (case cancel_range e rest p of (n, p) \<Rightarrow> ((if ok then n + 1 else n), p)))"

subsection \<open>Dead letters\<close>

definition DeadLetters :: "pool \<Rightarrow> JobOptions list" where
  "DeadLetters p = map (\<lambda>x. qj_opts (p_heap p x)) (p_dlq p)"

definition PurgeDeadLetters :: "pool \<Rightarrow> int \<times> pool" where
  "PurgeDeadLetters p = (int (length (p_dlq p)), p\<lparr>p_dlq := []\<rparr>)"

text \<open>The loop of \<open>ReplayDeadLetters\<close>: accepted so far, first error, and the pool.\<close>

fun replay_loop :: "env \<Rightarrow> nat list \<Rightarrow> int \<Rightarrow> err option \<Rightarrow> pool \<Rightarrow> int \<times> err option \<times> pool" where
  "replay_loop e [] accepted firstErr p = (accepted, firstErr, p)"
| "replay_loop e (x # items) accepted firstErr p =
     (let p = upd_job x (\<lambda>q. q\<lparr>qj_attempt := 0\<rparr>) p;
          p = upd_job x (\<lambda>q. q\<lparr>qj_runAt := e_now e 0\<rparr>) p
      in case try_q (job_item x p) p of
           (ok, p) \<Rightarrow>
             if \<not> ok then
               replay_loop e items accepted (if firstErr = None then Some ErrQueueFull else firstErr)
                 (leave x (p\<lparr>p_dlq := p_dlq p @ [x]\<rparr>))
             else replay_loop e items (accepted + 1) firstErr (bump (k_accepted_update (\<lambda>n. n + 1)) p))"

definition ReplayDeadLetters :: "env \<Rightarrow> pool \<Rightarrow> (int \<times> err option) \<times> pool" where
  "ReplayDeadLetters e p =
     (if p_state p \<ge> stateStopping then ((0, Some ErrClosed), p)
      else let items = p_dlq p;
               p = p\<lparr>p_dlq := [], p_inflight := items @ p_inflight p\<rparr>
           in case replay_loop e items 0 None p of (n, er, p) \<Rightarrow> ((n, er), p))"

subsection \<open>Futures\<close>

text \<open>\<open>Run\<close> of a \<open>resultJob\<close>, with what its function returned.\<close>

definition resultJob_Run :: "any option \<times> err option \<Rightarrow> nat option \<Rightarrow> pool \<Rightarrow> err option \<times> pool" where
  "resultJob_Run r f p =
     (case r of
        (v, er) \<Rightarrow>
          (er, case f of
                 Some i \<Rightarrow> if er = None then p\<lparr>p_futures := (p_futures p)(i := setValue v (p_futures p i))\<rparr> else p
               | None \<Rightarrow> p))"

text \<open>\<open>Cancel\<close> of the future at \<open>u\<close>: the context of its job is cancelled, the future decided if it was not.\<close>

definition Future_Cancel :: "nat \<Rightarrow> pool \<Rightarrow> (bool \<times> pool) option" where
  "Future_Cancel u p =
     map_option (\<lambda>(c, ok, f). (ok, cancel_ctx c (p\<lparr>p_futures := (p_futures p)(u := f)\<rparr>))) (future_Cancel (p_futures p u))"

subsection \<open>Named queues, reconfiguration, idempotency\<close>

definition PauseQueue :: "env \<Rightarrow> string \<Rightarrow> pool \<Rightarrow> pool" where
  "PauseQueue e name p =
     (if name \<noteq> '''' then
        signalQueueWake (emit e ((mk_event EventQueuePaused)\<lparr>ev_Queue := name\<rparr>)
          (p\<lparr>p_pausedQueues := (p_pausedQueues p)(name := True)\<rparr>))
      else p)"

definition ResumeQueue :: "env \<Rightarrow> string \<Rightarrow> pool \<Rightarrow> pool" where
  "ResumeQueue e name p =
     (if name \<noteq> '''' then
        signalQueueWake (emit e ((mk_event EventQueueResumed)\<lparr>ev_Queue := name\<rparr>)
          (p\<lparr>p_pausedQueues := (p_pausedQueues p)(name := False)\<rparr>))
      else p)"

definition IsQueuePaused :: "string \<Rightarrow> pool \<Rightarrow> bool" where
  "IsQueuePaused name p = p_pausedQueues p name"

text \<open>\<open>Resize\<close> spawns while it has too few workers and the pool runs; nobody else changes the number
  of workers meanwhile.\<close>

definition Resize :: "int \<Rightarrow> pool \<Rightarrow> pool" where
  "Resize workers p =
     (if workers \<le> 0 then p
      else let p = upd_cfg (c_MinWorkers_update (\<lambda>_. workers)) p;
               p = (if c_MaxWorkers (p_cfg p) < workers then upd_cfg (c_MaxWorkers_update (\<lambda>_. workers)) p else p)
           in if p_state p = stateRunning
              then ((\<lambda>p. snd (spawnWorker p)) ^^ nat (workers - p_workers p)) p else p)"

definition Once_options :: "string \<Rightarrow> JobOptions list \<Rightarrow> JobOptions" where
  "Once_options key opts = (firstOptions opts)\<lparr>o_IdempotencyKey := key\<rparr>"

definition Replace_key :: "string \<Rightarrow> pool \<Rightarrow> pool" where
  "Replace_key key p = p\<lparr>p_idemp := (p_idemp p)(key := None)\<rparr>"

definition OncePer_key :: "string \<Rightarrow> duration \<Rightarrow> time \<Rightarrow> string" where
  "OncePer_key key ttl unixNano =
     (let ttl = (if ttl \<le> 0 then 60 * Second else ttl)
      in key @ '':'' @ digits (nat (unixNano div ttl)))"

subsection \<open>Statistics\<close>

record stats =
  st_counters :: counters
  st_QueueDepth :: int
  st_Workers :: int
  st_BusyWorkers :: int
  st_Paused :: bool
  st_Stopped :: bool
  st_Terminated :: bool
  st_Uptime :: duration

definition Stats :: "time \<Rightarrow> pool \<Rightarrow> stats" where
  "Stats now p = \<lparr>st_counters = p_c p, st_QueueDepth = QueueDepth p, st_Workers = p_workers p,
     st_BusyWorkers = k_busy (p_c p), st_Paused = (p_state p = statePaused),
     st_Stopped = (p_state p = stateStopped), st_Terminated = (p_state p = stateTerminated),
     st_Uptime = time_Sub now (p_started p)\<rparr>"

record diagnosis =
  dg_Healthy :: bool
  dg_Saturated :: bool
  dg_State :: string
  dg_QueueDepth :: int
  dg_QueueCapacity :: int
  dg_Workers :: int
  dg_BusyWorkers :: int
  dg_Recommendation :: string

definition Diagnose :: "time \<Rightarrow> pool \<Rightarrow> diagnosis" where
  "Diagnose now p =
     (let st = Stats now p;
          d = \<lparr>dg_Healthy = (p_state p = stateRunning \<or> p_state p = statePaused), dg_Saturated = False,
               dg_State = State_String (p_state p), dg_QueueDepth = st_QueueDepth st,
               dg_QueueCapacity = c_QueueSize (p_cfg p), dg_Workers = st_Workers st,
               dg_BusyWorkers = st_BusyWorkers st, dg_Recommendation = ''''\<rparr>
      in if c_QueueSize (p_cfg p) > 0 \<and> wrap64 (st_QueueDepth st * 100) div c_QueueSize (p_cfg p) \<ge> 80
         then d\<lparr>dg_Saturated := True, dg_Recommendation :=
           ''queue is near capacity; increase QueueSize, add workers, or use queued rate limits/spillover''\<rparr>
         else if st_BusyWorkers st \<ge> st_Workers st \<and> st_QueueDepth st > 0
         then d\<lparr>dg_Saturated := True, dg_Recommendation :=
           ''all workers are busy; increase workers or reduce job latency''\<rparr>
         else d\<lparr>dg_Recommendation := ''pool is healthy''\<rparr>)"

subsection \<open>Progress\<close>

text \<open>\<open>ReportProgress\<close>, for the job whose context it is given (\<open>None\<close>: none).\<close>

definition ReportProgress :: "env \<Rightarrow> nat option \<Rightarrow> int \<Rightarrow> string \<Rightarrow> pool \<Rightarrow> pool" where
  "ReportProgress e ctxJob percent message p =
     (case ctxJob of
        None \<Rightarrow> p
      | Some x \<Rightarrow>
          (let p = upd_job x (\<lambda>q. q\<lparr>qj_progress := Some \<lparr>pr_Percent = clampPercent percent, pr_Message = message\<rparr>\<rparr>) p;
               p = callback_call OnProgress x None p
           in if qj_pool (p_heap p x)
              then emit e ((mk_event EventJobProgress)\<lparr>ev_Job := Some (info (p_heap p x)),
                     ev_Options := Some (qj_opts (p_heap p x)), ev_Queue := o_Queue (qj_opts (p_heap p x)),
                     ev_Attempt := qj_attempt (p_heap p x), ev_Message := message\<rparr>) p
              else p))"

end
