(* ===== verification/Pool_Invariant.thy ===== *)
theory Pool_Invariant
  imports Pool_Control
begin

text \<open>
  The invariant of the pool and its preservation by every operation.

  \<open>places\<close> is the multiset of the pointers the pool knows: those a goroutine holds, those in the
  fast queue, the spill list, the priority queue and the dead-letter queue, and those free for
  reuse.  \<open>pool_wf\<close> says that no pointer is in two places (so that a job is never run by two
  workers and a recycled job object is referred to by nobody), that the queues satisfy their own
  invariants, and that the index of tracked jobs points to live jobs with that identity.
  \<open>balance\<close> is the number of accepted jobs less those the pool can account for, in the 64-bit
  arithmetic of the counters; it stays 0.  \<open>attempts_ok\<close> bounds the attempts, \<open>slots_ok\<close> relates the
  semaphore to the running jobs, \<open>futures_ok\<close> says whose future is decided.
\<close>

subsection \<open>What observers leave alone\<close>

lemma note_act_frame [simp]:
  "p_cfg (note_act a p) = p_cfg p" "p_q (note_act a p) = p_q p" "p_basicq (note_act a p) = p_basicq p"
  "p_fastq (note_act a p) = p_fastq p" "p_queueWake (note_act a p) = p_queueWake p"
  "p_closeOnce (note_act a p) = p_closeOnce p" "p_ctxCancelled (note_act a p) = p_ctxCancelled p"
  "p_workers (note_act a p) = p_workers p" "p_state (note_act a p) = p_state p" "p_seq (note_act a p) = p_seq p"
  "p_c (note_act a p) = p_c p" "p_hooks (note_act a p) = p_hooks p" "p_middleware (note_act a p) = p_middleware p"
  "p_idemp (note_act a p) = p_idemp p" "p_rates (note_act a p) = p_rates p" "p_sem (note_act a p) = p_sem p"
  "p_dlq (note_act a p) = p_dlq p" "p_jobs (note_act a p) = p_jobs p" "p_scaleStop (note_act a p) = p_scaleStop p"
  "p_store (note_act a p) = p_store p" "p_jobPool (note_act a p) = p_jobPool p"
  "p_queueDefaults (note_act a p) = p_queueDefaults p" "p_pausedQueues (note_act a p) = p_pausedQueues p"
  "p_defaultOptions (note_act a p) = p_defaultOptions p" "p_spill (note_act a p) = p_spill p"
  "p_spillPath (note_act a p) = p_spillPath p" "p_spillMax (note_act a p) = p_spillMax p" "p_heap (note_act a p) = p_heap p"
  "p_next (note_act a p) = p_next p" "p_futures (note_act a p) = p_futures p" "p_buckets (note_act a p) = p_buckets p"
  "p_nextBucket (note_act a p) = p_nextBucket p" "p_nextCtx (note_act a p) = p_nextCtx p"
  "p_cancelled (note_act a p) = p_cancelled p" "p_submitting (note_act a p) = p_submitting p"
  "p_inflight (note_act a p) = p_inflight p" "p_running (note_act a p) = p_running p"
  "p_basicRunning (note_act a p) = p_basicRunning p" "p_basicTaken (note_act a p) = p_basicTaken p" "p_gone (note_act a p) = p_gone p"
  by (simp_all add: note_act_def)

lemma emit_frame [simp]:
  "p_cfg (emit e ev p) = p_cfg p" "p_q (emit e ev p) = p_q p" "p_basicq (emit e ev p) = p_basicq p"
  "p_fastq (emit e ev p) = p_fastq p" "p_queueWake (emit e ev p) = p_queueWake p"
  "p_closeOnce (emit e ev p) = p_closeOnce p" "p_ctxCancelled (emit e ev p) = p_ctxCancelled p"
  "p_workers (emit e ev p) = p_workers p" "p_state (emit e ev p) = p_state p" "p_seq (emit e ev p) = p_seq p"
  "p_c (emit e ev p) = p_c p" "p_hooks (emit e ev p) = p_hooks p"
  "p_middleware (emit e ev p) = p_middleware p" "p_idemp (emit e ev p) = p_idemp p"
  "p_rates (emit e ev p) = p_rates p" "p_sem (emit e ev p) = p_sem p" "p_dlq (emit e ev p) = p_dlq p"
  "p_jobs (emit e ev p) = p_jobs p" "p_scaleStop (emit e ev p) = p_scaleStop p"
  "p_store (emit e ev p) = p_store p" "p_jobPool (emit e ev p) = p_jobPool p"
  "p_queueDefaults (emit e ev p) = p_queueDefaults p" "p_pausedQueues (emit e ev p) = p_pausedQueues p"
  "p_defaultOptions (emit e ev p) = p_defaultOptions p" "p_spill (emit e ev p) = p_spill p"
  "p_spillPath (emit e ev p) = p_spillPath p" "p_spillMax (emit e ev p) = p_spillMax p"
  "p_heap (emit e ev p) = p_heap p" "p_next (emit e ev p) = p_next p" "p_futures (emit e ev p) = p_futures p"
  "p_buckets (emit e ev p) = p_buckets p" "p_nextBucket (emit e ev p) = p_nextBucket p"
  "p_nextCtx (emit e ev p) = p_nextCtx p" "p_cancelled (emit e ev p) = p_cancelled p"
  "p_submitting (emit e ev p) = p_submitting p" "p_inflight (emit e ev p) = p_inflight p"
  "p_running (emit e ev p) = p_running p" "p_basicRunning (emit e ev p) = p_basicRunning p" "p_basicTaken (emit e ev p) = p_basicTaken p"
  "p_gone (emit e ev p) = p_gone p"
  by (simp_all add: emit_def Let_def split: option.split prod.split)

lemma emitJob_frame [simp]:
  "p_cfg (emitJob e t x n er msg p) = p_cfg p" "p_q (emitJob e t x n er msg p) = p_q p"
  "p_basicq (emitJob e t x n er msg p) = p_basicq p" "p_fastq (emitJob e t x n er msg p) = p_fastq p"
  "p_queueWake (emitJob e t x n er msg p) = p_queueWake p"
  "p_closeOnce (emitJob e t x n er msg p) = p_closeOnce p"
  "p_ctxCancelled (emitJob e t x n er msg p) = p_ctxCancelled p"
  "p_workers (emitJob e t x n er msg p) = p_workers p" "p_state (emitJob e t x n er msg p) = p_state p"
  "p_seq (emitJob e t x n er msg p) = p_seq p" "p_c (emitJob e t x n er msg p) = p_c p"
  "p_hooks (emitJob e t x n er msg p) = p_hooks p" "p_middleware (emitJob e t x n er msg p) = p_middleware p"
  "p_idemp (emitJob e t x n er msg p) = p_idemp p" "p_rates (emitJob e t x n er msg p) = p_rates p"
  "p_sem (emitJob e t x n er msg p) = p_sem p" "p_dlq (emitJob e t x n er msg p) = p_dlq p"
  "p_jobs (emitJob e t x n er msg p) = p_jobs p" "p_scaleStop (emitJob e t x n er msg p) = p_scaleStop p"
  "p_store (emitJob e t x n er msg p) = p_store p" "p_jobPool (emitJob e t x n er msg p) = p_jobPool p"
  "p_queueDefaults (emitJob e t x n er msg p) = p_queueDefaults p"
  "p_pausedQueues (emitJob e t x n er msg p) = p_pausedQueues p"
  "p_defaultOptions (emitJob e t x n er msg p) = p_defaultOptions p"
  "p_spill (emitJob e t x n er msg p) = p_spill p" "p_spillPath (emitJob e t x n er msg p) = p_spillPath p"
  "p_spillMax (emitJob e t x n er msg p) = p_spillMax p" "p_heap (emitJob e t x n er msg p) = p_heap p"
  "p_next (emitJob e t x n er msg p) = p_next p" "p_futures (emitJob e t x n er msg p) = p_futures p"
  "p_buckets (emitJob e t x n er msg p) = p_buckets p"
  "p_nextBucket (emitJob e t x n er msg p) = p_nextBucket p"
  "p_nextCtx (emitJob e t x n er msg p) = p_nextCtx p"
  "p_cancelled (emitJob e t x n er msg p) = p_cancelled p"
  "p_submitting (emitJob e t x n er msg p) = p_submitting p"
  "p_inflight (emitJob e t x n er msg p) = p_inflight p" "p_running (emitJob e t x n er msg p) = p_running p"
  "p_basicRunning (emitJob e t x n er msg p) = p_basicRunning p" "p_basicTaken (emitJob e t x n er msg p) = p_basicTaken p"
  "p_gone (emitJob e t x n er msg p) = p_gone p"
  by (simp_all add: emitJob_def Let_def)

lemma job_hook_frame [simp]:
  "p_cfg (job_hook h x n er p) = p_cfg p" "p_q (job_hook h x n er p) = p_q p"
  "p_basicq (job_hook h x n er p) = p_basicq p" "p_fastq (job_hook h x n er p) = p_fastq p"
  "p_queueWake (job_hook h x n er p) = p_queueWake p" "p_closeOnce (job_hook h x n er p) = p_closeOnce p"
  "p_ctxCancelled (job_hook h x n er p) = p_ctxCancelled p" "p_workers (job_hook h x n er p) = p_workers p"
  "p_state (job_hook h x n er p) = p_state p" "p_seq (job_hook h x n er p) = p_seq p"
  "p_c (job_hook h x n er p) = p_c p" "p_hooks (job_hook h x n er p) = p_hooks p"
  "p_middleware (job_hook h x n er p) = p_middleware p" "p_idemp (job_hook h x n er p) = p_idemp p"
  "p_rates (job_hook h x n er p) = p_rates p" "p_sem (job_hook h x n er p) = p_sem p"
  "p_dlq (job_hook h x n er p) = p_dlq p" "p_jobs (job_hook h x n er p) = p_jobs p"
  "p_scaleStop (job_hook h x n er p) = p_scaleStop p" "p_store (job_hook h x n er p) = p_store p"
  "p_jobPool (job_hook h x n er p) = p_jobPool p" "p_queueDefaults (job_hook h x n er p) = p_queueDefaults p"
  "p_pausedQueues (job_hook h x n er p) = p_pausedQueues p"
  "p_defaultOptions (job_hook h x n er p) = p_defaultOptions p" "p_spill (job_hook h x n er p) = p_spill p"
  "p_spillPath (job_hook h x n er p) = p_spillPath p" "p_spillMax (job_hook h x n er p) = p_spillMax p"
  "p_heap (job_hook h x n er p) = p_heap p" "p_next (job_hook h x n er p) = p_next p"
  "p_futures (job_hook h x n er p) = p_futures p" "p_buckets (job_hook h x n er p) = p_buckets p"
  "p_nextBucket (job_hook h x n er p) = p_nextBucket p" "p_nextCtx (job_hook h x n er p) = p_nextCtx p"
  "p_cancelled (job_hook h x n er p) = p_cancelled p" "p_submitting (job_hook h x n er p) = p_submitting p"
  "p_inflight (job_hook h x n er p) = p_inflight p" "p_running (job_hook h x n er p) = p_running p"
  "p_basicRunning (job_hook h x n er p) = p_basicRunning p" "p_basicTaken (job_hook h x n er p) = p_basicTaken p" "p_gone (job_hook h x n er p) = p_gone p"
  by (simp_all add: job_hook_def)

lemma callback_call_frame [simp]:
  "p_cfg (callback_call f x er p) = p_cfg p" "p_q (callback_call f x er p) = p_q p"
  "p_basicq (callback_call f x er p) = p_basicq p" "p_fastq (callback_call f x er p) = p_fastq p"
  "p_queueWake (callback_call f x er p) = p_queueWake p"
  "p_closeOnce (callback_call f x er p) = p_closeOnce p"
  "p_ctxCancelled (callback_call f x er p) = p_ctxCancelled p"
  "p_workers (callback_call f x er p) = p_workers p" "p_state (callback_call f x er p) = p_state p"
  "p_seq (callback_call f x er p) = p_seq p" "p_c (callback_call f x er p) = p_c p"
  "p_hooks (callback_call f x er p) = p_hooks p" "p_middleware (callback_call f x er p) = p_middleware p"
  "p_idemp (callback_call f x er p) = p_idemp p" "p_rates (callback_call f x er p) = p_rates p"
  "p_sem (callback_call f x er p) = p_sem p" "p_dlq (callback_call f x er p) = p_dlq p"
  "p_jobs (callback_call f x er p) = p_jobs p" "p_scaleStop (callback_call f x er p) = p_scaleStop p"
  "p_store (callback_call f x er p) = p_store p" "p_jobPool (callback_call f x er p) = p_jobPool p"
  "p_queueDefaults (callback_call f x er p) = p_queueDefaults p"
  "p_pausedQueues (callback_call f x er p) = p_pausedQueues p"
  "p_defaultOptions (callback_call f x er p) = p_defaultOptions p"
  "p_spill (callback_call f x er p) = p_spill p" "p_spillPath (callback_call f x er p) = p_spillPath p"
  "p_spillMax (callback_call f x er p) = p_spillMax p" "p_heap (callback_call f x er p) = p_heap p"
  "p_next (callback_call f x er p) = p_next p" "p_futures (callback_call f x er p) = p_futures p"
  "p_buckets (callback_call f x er p) = p_buckets p" "p_nextBucket (callback_call f x er p) = p_nextBucket p"
  "p_nextCtx (callback_call f x er p) = p_nextCtx p" "p_cancelled (callback_call f x er p) = p_cancelled p"
  "p_submitting (callback_call f x er p) = p_submitting p"
  "p_inflight (callback_call f x er p) = p_inflight p" "p_running (callback_call f x er p) = p_running p"
  "p_basicRunning (callback_call f x er p) = p_basicRunning p" "p_basicTaken (callback_call f x er p) = p_basicTaken p" "p_gone (callback_call f x er p) = p_gone p"
  by (simp_all add: callback_call_def split: option.split)

lemma store_job_frame [simp]:
  "p_cfg (store_job x p) = p_cfg p" "p_q (store_job x p) = p_q p" "p_basicq (store_job x p) = p_basicq p"
  "p_fastq (store_job x p) = p_fastq p" "p_queueWake (store_job x p) = p_queueWake p"
  "p_closeOnce (store_job x p) = p_closeOnce p" "p_ctxCancelled (store_job x p) = p_ctxCancelled p"
  "p_workers (store_job x p) = p_workers p" "p_state (store_job x p) = p_state p"
  "p_seq (store_job x p) = p_seq p" "p_c (store_job x p) = p_c p" "p_hooks (store_job x p) = p_hooks p"
  "p_middleware (store_job x p) = p_middleware p" "p_idemp (store_job x p) = p_idemp p"
  "p_rates (store_job x p) = p_rates p" "p_sem (store_job x p) = p_sem p" "p_dlq (store_job x p) = p_dlq p"
  "p_jobs (store_job x p) = p_jobs p" "p_scaleStop (store_job x p) = p_scaleStop p"
  "p_store (store_job x p) = p_store p" "p_jobPool (store_job x p) = p_jobPool p"
  "p_queueDefaults (store_job x p) = p_queueDefaults p" "p_pausedQueues (store_job x p) = p_pausedQueues p"
  "p_defaultOptions (store_job x p) = p_defaultOptions p" "p_spill (store_job x p) = p_spill p"
  "p_spillPath (store_job x p) = p_spillPath p" "p_spillMax (store_job x p) = p_spillMax p"
  "p_heap (store_job x p) = p_heap p" "p_next (store_job x p) = p_next p"
  "p_futures (store_job x p) = p_futures p" "p_buckets (store_job x p) = p_buckets p"
  "p_nextBucket (store_job x p) = p_nextBucket p" "p_nextCtx (store_job x p) = p_nextCtx p"
  "p_cancelled (store_job x p) = p_cancelled p" "p_submitting (store_job x p) = p_submitting p"
  "p_inflight (store_job x p) = p_inflight p" "p_running (store_job x p) = p_running p"
  "p_basicRunning (store_job x p) = p_basicRunning p" "p_basicTaken (store_job x p) = p_basicTaken p" "p_gone (store_job x p) = p_gone p"
  by (simp_all add: store_job_def)


subsection \<open>The invariant\<close>

definition fast_ptrs :: "pool \<Rightarrow> nat list" where
  "fast_ptrs p = map the (fifo_contents (p_fastq p))"

definition places :: "pool \<Rightarrow> nat multiset" where
  "places p = mset (p_submitting p) + mset (p_inflight p) + mset (fast_ptrs p) + mset (p_spill p) +
     image_mset it_Value (pq_elems (p_q p)) + mset (p_dlq p) + mset (p_jobPool p)"

definition tracked_ok :: "pool \<Rightarrow> bool" where
  "tracked_ok p \<longleftrightarrow> (\<not> c_EnableJobTracking (p_cfg p) \<longrightarrow> p_jobs p = []) \<and> distinct (map fst (p_jobs p)) \<and>
     (\<forall>(i, x) \<in> set (p_jobs p). i \<noteq> [] \<and> x < p_next p \<and> x \<notin> set (p_jobPool p) \<and> o_ID (qj_opts (p_heap p x)) = i)"

definition queues_ok :: "pool \<Rightarrow> bool" where
  "queues_ok p \<longleftrightarrow> fifo_inv (p_basicq p) \<and> fifo_inv (p_fastq p) \<and> pq_inv (p_q p) \<and>
     None \<notin> set (fifo_contents (p_fastq p))"

definition pool_wf :: "pool \<Rightarrow> bool" where
  "pool_wf p \<longleftrightarrow> queues_ok p \<and> (\<forall>x. count (places p) x \<le> 1) \<and> (\<forall>x \<in># places p. x < p_next p) \<and> tracked_ok p"

definition inside :: "pool \<Rightarrow> nat" where
  "inside p = fq_len (p_basicq p) + p_basicTaken p + p_basicRunning p + fq_len (p_fastq p) + length (p_spill p) +
     length (pq_items (p_q p)) + length (p_inflight p)"

definition balance :: "pool \<Rightarrow> 64 word" where
  "balance p = k_accepted (p_c p) -
     (of_nat (inside p) + k_completed (p_c p) + k_dlq (p_c p) + p_gone p)"

text \<open>The limit of attempts: a job that waits for a run has one left, a job that was run has not been
  run more often than allowed.\<close>

definition may_run :: "queuedJob \<Rightarrow> bool" where
  "may_run q \<longleftrightarrow> 0 \<le> qj_attempt q \<and> qj_attempt q < o_MaxAttempts (qj_opts q)"

definition may_end :: "queuedJob \<Rightarrow> bool" where
  "may_end q \<longleftrightarrow> 0 \<le> qj_attempt q \<and> qj_attempt q \<le> o_MaxAttempts (qj_opts q) \<and> 1 \<le> o_MaxAttempts (qj_opts q)"

definition queued_ptrs :: "pool \<Rightarrow> nat multiset" where
  "queued_ptrs p = mset (p_submitting p) + mset (fast_ptrs p) + mset (p_spill p) + image_mset it_Value (pq_elems (p_q p))"

definition attempts_ok :: "pool \<Rightarrow> bool" where
  "attempts_ok p \<longleftrightarrow> 1 \<le> c_DefaultMaxAttempts (p_cfg p) \<and> (\<forall>x \<in># queued_ptrs p. may_run (p_heap p x)) \<and>
     (\<forall>x \<in> set (p_inflight p). may_end (p_heap p x) \<and> (x \<notin> set (p_running p) \<longrightarrow> may_run (p_heap p x))) \<and>
     (\<forall>x \<in> set (p_dlq p). may_end (p_heap p x))"

lemmas attempts_defs = attempts_ok_def queued_ptrs_def fast_ptrs_def

lemma may_run_end: "may_run q \<Longrightarrow> may_end q"
  by (simp add: may_run_def may_end_def)

text \<open>The semaphore: for each key it counts at most the running jobs with that key, and exactly those as
  long as no job with the key has run without a limit.  In \<open>slots_but\<close> the job \<open>x\<close>, which ran with
  the key \<open>k\<close>, may have left the worker's hands already, its deferred calls still to come.\<close>

definition key_of :: "pool \<Rightarrow> nat \<Rightarrow> string" where
  "key_of p = (\<lambda>y. o_ConcurrencyKey (qj_opts (p_heap p y)))"

definition users :: "(nat \<Rightarrow> string) \<Rightarrow> string \<Rightarrow> nat list \<Rightarrow> nat" where
  "users key k run = length (filter (\<lambda>y. key y = k) run)"

definition slots :: "(nat \<Rightarrow> string) \<Rightarrow> nat list \<Rightarrow> keyedSemaphore \<Rightarrow> (string \<Rightarrow> bool) \<Rightarrow> bool" where
  "slots key run s unl \<longleftrightarrow> distinct run \<and>
     (\<forall>k. k \<noteq> [] \<longrightarrow> 0 \<le> s k \<and> s k \<le> int (users key k run) \<and> (\<not> unl k \<longrightarrow> s k = int (users key k run)))"

definition slots_ok :: "pool \<Rightarrow> bool" where
  "slots_ok p \<longleftrightarrow> set (p_running p) \<subseteq> set (p_inflight p) \<and> slots (key_of p) (p_running p) (p_sem p) (p_unlimited p)"

definition slots_but :: "nat \<Rightarrow> string \<Rightarrow> pool \<Rightarrow> bool" where
  "slots_but x k p \<longleftrightarrow> set (p_running p) \<subseteq> insert x (set (p_inflight p)) \<and>
     slots ((key_of p)(x := k)) (p_running p) (p_sem p) (p_unlimited p)"

lemmas slots_defs = slots_ok_def slots_but_def key_of_def

lemma users_cong: "(\<And>y. y \<in> set run \<Longrightarrow> key y = key' y) \<Longrightarrow> users key k run = users key' k run"
  by (simp add: users_def cong: filter_cong)

lemma slots_cong: "(\<And>y. y \<in> set run \<Longrightarrow> key y = key' y) \<Longrightarrow> slots key run s unl = slots key' run s unl"
  by (simp add: slots_def cong: users_cong)

lemma slots_ok_mono:
  assumes "p_sem p' = p_sem p" "p_running p' = p_running p" "p_unlimited p' = p_unlimited p"
    and "set (p_running p) \<subseteq> set (p_inflight p) \<Longrightarrow> set (p_running p) \<subseteq> set (p_inflight p')"
    and "\<And>y. y \<in> set (p_inflight p) \<Longrightarrow> qj_opts (p_heap p' y) = qj_opts (p_heap p y)"
  shows "slots_ok p \<Longrightarrow> slots_ok p'"
proof -
  assume p: "slots_ok p"
  then have "slots (key_of p') (p_running p) s unl = slots (key_of p) (p_running p) s unl" for s unl
    using assms(5) by (intro slots_cong) (auto simp: key_of_def slots_ok_def)
  then show ?thesis using p assms(1-4) by (simp add: slots_ok_def)
qed

lemma slots_ok_but: "slots_ok p \<Longrightarrow> k = key_of p x \<Longrightarrow> slots_but x k p"
  by (auto simp: slots_ok_def slots_but_def fun_upd_idem)

lemma slots_but_ok: "slots_but x k p \<Longrightarrow> x \<notin> set (p_running p) \<Longrightarrow> slots_ok p"
  unfolding slots_ok_def slots_but_def
  by (subst slots_cong [where key' = "(key_of p)(x := k)"]) auto

text \<open>The futures: unless the policy lets \<open>DropOldestPush\<close> evict jobs, the future of a job that is neither
  in a queue nor in a goroutine's hands has been completed.\<close>

definition live :: "pool \<Rightarrow> nat set" where
  "live p = set (p_submitting p) \<union> set (p_inflight p) \<union> set (fast_ptrs p) \<union> set (p_spill p) \<union> it_Value ` set_mset (pq_elems (p_q p))"

definition answered :: "pool \<Rightarrow> nat \<Rightarrow> bool" where
  "answered p x \<longleftrightarrow> (\<forall>u. qj_future (p_heap p x) = Some u \<longrightarrow> fu_done (p_futures p u))"

definition futures_ok :: "pool \<Rightarrow> bool" where
  "futures_ok p \<longleftrightarrow> (\<forall>u. future_inv (p_futures p u)) \<and>
     (c_Backpressure (p_cfg p) = BackpressureDropOldest \<or> (\<forall>x. x \<notin> live p \<longrightarrow> answered p x))"

lemmas futures_defs = futures_ok_def live_def answered_def fast_ptrs_def

lemma futures_ok_mono:
  assumes "p_futures p' = p_futures p" "p_cfg p' = p_cfg p" "\<And>x. qj_future (p_heap p' x) = qj_future (p_heap p x)"
    and "live p \<subseteq> live p'"
  shows "futures_ok p \<Longrightarrow> futures_ok p'"
  using assms by (auto simp: futures_ok_def answered_def)

lemmas wf_defs = pool_wf_def queues_ok_def tracked_ok_def places_def fast_ptrs_def

lemma observer_wf [simp]:
  "pool_wf (note_act a p) = pool_wf p" "pool_wf (emit e ev p) = pool_wf p"
  "pool_wf (emitJob e t x n er msg p) = pool_wf p" "pool_wf (job_hook h x n er p) = pool_wf p"
  "pool_wf (callback_call f x er p) = pool_wf p" "pool_wf (store_job x p) = pool_wf p"
  by (simp_all add: wf_defs)

lemma observer_balance [simp]:
  "balance (note_act a p) = balance p" "balance (emit e ev p) = balance p"
  "balance (emitJob e t x n er msg p) = balance p" "balance (job_hook h x n er p) = balance p"
  "balance (callback_call f x er p) = balance p" "balance (store_job x p) = balance p"
  by (simp_all add: balance_def inside_def)

lemma observer_attempts [simp]:
  "attempts_ok (note_act a p) = attempts_ok p" "attempts_ok (emit e ev p) = attempts_ok p"
  "attempts_ok (emitJob e t x n er msg p) = attempts_ok p" "attempts_ok (job_hook h x n er p) = attempts_ok p"
  "attempts_ok (callback_call f x er p) = attempts_ok p" "attempts_ok (store_job x p) = attempts_ok p"
  by (simp_all add: attempts_defs)

lemma observer_unlimited [simp]:
  "p_unlimited (note_act a p) = p_unlimited p" "p_unlimited (emit e ev p) = p_unlimited p"
  "p_unlimited (emitJob e t x n er msg p) = p_unlimited p" "p_unlimited (job_hook h x n er p) = p_unlimited p"
  "p_unlimited (callback_call f x er p) = p_unlimited p" "p_unlimited (store_job x p) = p_unlimited p"
  "p_unlimited (bump g p) = p_unlimited p" "p_unlimited (upd_job x i p) = p_unlimited p"
  "p_unlimited (complete_future u er p) = p_unlimited p" "p_unlimited (untrack j p) = p_unlimited p"
  "p_unlimited (untrack_job opts p) = p_unlimited p" "p_unlimited (forget_key opts p) = p_unlimited p"
  "p_unlimited (store_dead x p) = p_unlimited p" "p_unlimited (leave x p) = p_unlimited p"
  by (simp_all add: note_act_def emit_def emitJob_def job_hook_def callback_call_def store_job_def bump_def upd_job_def
      complete_future_def untrack_def untrack_job_def forget_key_def store_dead_def leave_def Let_def
      split: option.split prod.split)

lemma observer_slots [simp]:
  "slots_ok (note_act a p) = slots_ok p" "slots_ok (emit e ev p) = slots_ok p"
  "slots_ok (emitJob e t x n er msg p) = slots_ok p" "slots_ok (job_hook h x n er p) = slots_ok p"
  "slots_ok (callback_call f x er p) = slots_ok p" "slots_ok (store_job x p) = slots_ok p"
  "slots_but y k (emitJob e t x n er msg p) = slots_but y k p" "slots_but y k (job_hook h x n er p) = slots_but y k p"
  "slots_but y k (note_act a p) = slots_but y k p" "slots_but y k (callback_call f x er p) = slots_but y k p" "slots_but y k (store_job x p) = slots_but y k p"
  by (simp_all add: slots_defs cong: if_cong)

lemma observer_futures [simp]:
  "p_futures (note_act a p) = p_futures p" "p_futures (emit e ev p) = p_futures p"
  "p_futures (emitJob e t x n er msg p) = p_futures p" "p_futures (job_hook h x n er p) = p_futures p"
  "p_futures (callback_call f x er p) = p_futures p" "p_futures (store_job x p) = p_futures p"
  "futures_ok (note_act a p) = futures_ok p" "futures_ok (emit e ev p) = futures_ok p"
  "futures_ok (emitJob e t x n er msg p) = futures_ok p" "futures_ok (job_hook h x n er p) = futures_ok p"
  "futures_ok (callback_call f x er p) = futures_ok p" "futures_ok (store_job x p) = futures_ok p"
  by (simp_all add: futures_defs)

lemma bump_wf [simp]: "pool_wf (bump f p) = pool_wf p"
  by (simp add: wf_defs bump_def)

lemma bump_attempts [simp]: "attempts_ok (bump f p) = attempts_ok p"
  by (simp add: attempts_defs bump_def)

lemma bump_balance [simp]:
  "balance (bump (k_submitted_update f) p) = balance p" "balance (bump (k_rejected_update f) p) = balance p"
  "balance (bump (k_started_update f) p) = balance p" "balance (bump (k_failed_update f) p) = balance p"
  "balance (bump (k_retried_update f) p) = balance p" "balance (bump (k_panicked_update f) p) = balance p"
  "balance (bump (k_timedout_update f) p) = balance p" "balance (bump (k_rateDelayed_update f) p) = balance p"
  "balance (bump (k_busy_update g) p) = balance p"
  "balance (bump (k_accepted_update (\<lambda>n. n + 1)) p) = balance p + 1"
  "balance (bump (k_completed_update (\<lambda>n. n + 1)) p) = balance p - 1"
  "balance (bump (k_dlq_update (\<lambda>n. n + 1)) p) = balance p - 1"
  by (simp_all add: balance_def inside_def bump_def)

lemma bump_frame [simp]:
  "p_cfg (bump f p) = p_cfg p" "p_q (bump f p) = p_q p" "p_fastq (bump f p) = p_fastq p"
  "p_basicq (bump f p) = p_basicq p" "p_state (bump f p) = p_state p" "p_heap (bump f p) = p_heap p"
  "p_submitting (bump f p) = p_submitting p" "p_inflight (bump f p) = p_inflight p"
  "p_jobs (bump f p) = p_jobs p" "p_next (bump f p) = p_next p" "p_jobPool (bump f p) = p_jobPool p"
  "p_spill (bump f p) = p_spill p" "p_dlq (bump f p) = p_dlq p" "p_futures (bump f p) = p_futures p"
  "p_spillPath (bump f p) = p_spillPath p" "p_spillMax (bump f p) = p_spillMax p"
  "p_running (bump f p) = p_running p" "p_basicRunning (bump f p) = p_basicRunning p" "p_basicTaken (bump f p) = p_basicTaken p" "p_idemp (bump f p) = p_idemp p"
  "p_hooks (bump f p) = p_hooks p" "p_sem (bump f p) = p_sem p" "p_lifecycle (bump f p) = p_lifecycle p"
  "p_store (bump f p) = p_store p" "p_c (bump f p) = f (p_c p)" "p_gone (bump f p) = p_gone p"
  by (simp_all add: bump_def)

lemma upd_job_frame [simp]:
  "p_cfg (upd_job x f p) = p_cfg p" "p_q (upd_job x f p) = p_q p" "p_fastq (upd_job x f p) = p_fastq p"
  "p_basicq (upd_job x f p) = p_basicq p" "p_state (upd_job x f p) = p_state p"
  "p_heap (upd_job x f p) = (p_heap p)(x := f (p_heap p x))"
  "p_submitting (upd_job x f p) = p_submitting p" "p_inflight (upd_job x f p) = p_inflight p"
  "p_jobs (upd_job x f p) = p_jobs p" "p_next (upd_job x f p) = p_next p" "p_jobPool (upd_job x f p) = p_jobPool p"
  "p_spill (upd_job x f p) = p_spill p" "p_dlq (upd_job x f p) = p_dlq p" "p_futures (upd_job x f p) = p_futures p"
  "p_spillPath (upd_job x f p) = p_spillPath p" "p_spillMax (upd_job x f p) = p_spillMax p"
  "p_running (upd_job x f p) = p_running p" "p_basicRunning (upd_job x f p) = p_basicRunning p" "p_basicTaken (upd_job x f p) = p_basicTaken p"
  "p_idemp (upd_job x f p) = p_idemp p" "p_hooks (upd_job x f p) = p_hooks p" "p_sem (upd_job x f p) = p_sem p"
  "p_lifecycle (upd_job x f p) = p_lifecycle p" "p_store (upd_job x f p) = p_store p" "p_c (upd_job x f p) = p_c p"
  "p_gone (upd_job x f p) = p_gone p"
  by (simp_all add: upd_job_def)

lemma upd_job_wf [simp]: "(\<And>q. qj_opts (f q) = qj_opts q) \<Longrightarrow> pool_wf (upd_job x f p) = pool_wf p"
proof -
  assume f: "\<And>q. qj_opts (f q) = qj_opts q"
  have o: "qj_opts (((p_heap p)(x := f (p_heap p x))) y) = qj_opts (p_heap p y)" for y by (simp add: f)
  show ?thesis by (simp add: pool_wf_def places_def fast_ptrs_def queues_ok_def tracked_ok_def o del: fun_upd_apply)
qed

lemma bump_slots [simp]: "slots_ok (bump f p) = slots_ok p" "slots_but x k (bump f p) = slots_but x k p"
  by (simp_all add: slots_ok_def slots_but_def key_of_def bump_def)

lemma bump_futures [simp]: "futures_ok (bump f p) = futures_ok p" "p_futures (bump f p) = p_futures p"
  by (simp_all add: futures_defs bump_def)

lemma upd_job_futures [simp]: "p_futures (upd_job x f p) = p_futures p"
  "(\<And>q. qj_future (f q) = qj_future q) \<Longrightarrow> futures_ok (upd_job x f p) = futures_ok p"
proof -
  show "p_futures (upd_job x f p) = p_futures p" by simp
  assume "\<And>q. qj_future (f q) = qj_future q"
  then have "qj_future (p_heap (upd_job x f p) y) = qj_future (p_heap p y)" for y by simp
  then show "futures_ok (upd_job x f p) = futures_ok p" by (simp add: futures_defs del: upd_job_frame(6))
qed

lemma upd_job_slots [simp]: "(\<And>q. qj_opts (f q) = qj_opts q) \<Longrightarrow> slots_ok (upd_job x f p) = slots_ok p"
proof -
  assume "\<And>q. qj_opts (f q) = qj_opts q"
  then have "key_of (upd_job x f p) = key_of p" by (simp add: key_of_def fun_eq_iff)
  then show ?thesis by (simp add: slots_ok_def)
qed

lemma upd_job_slots_but [simp]: "slots_but x k (upd_job x f p) = slots_but x k p"
proof -
  have "(key_of (upd_job x f p))(x := k) = (key_of p)(x := k)" by (simp add: key_of_def fun_eq_iff)
  then show ?thesis by (simp add: slots_but_def)
qed

lemma upd_job_balance [simp]: "balance (upd_job x f p) = balance p"
  by (simp add: balance_def inside_def)

lemma complete_future_frame [simp]:
  "p_cfg (complete_future u er p) = p_cfg p" "p_q (complete_future u er p) = p_q p" "p_fastq (complete_future u er p) = p_fastq p"
  "p_basicq (complete_future u er p) = p_basicq p" "p_state (complete_future u er p) = p_state p"
  "p_heap (complete_future u er p) = p_heap p"
  "p_submitting (complete_future u er p) = p_submitting p" "p_inflight (complete_future u er p) = p_inflight p"
  "p_jobs (complete_future u er p) = p_jobs p" "p_next (complete_future u er p) = p_next p"
  "p_jobPool (complete_future u er p) = p_jobPool p"
  "p_spill (complete_future u er p) = p_spill p" "p_dlq (complete_future u er p) = p_dlq p"
  "p_spillPath (complete_future u er p) = p_spillPath p" "p_spillMax (complete_future u er p) = p_spillMax p"
  "p_running (complete_future u er p) = p_running p" "p_basicRunning (complete_future u er p) = p_basicRunning p" "p_basicTaken (complete_future u er p) = p_basicTaken p"
  "p_idemp (complete_future u er p) = p_idemp p" "p_hooks (complete_future u er p) = p_hooks p"
  "p_sem (complete_future u er p) = p_sem p" "p_lifecycle (complete_future u er p) = p_lifecycle p"
  "p_store (complete_future u er p) = p_store p" "p_c (complete_future u er p) = p_c p"
  "p_gone (complete_future u er p) = p_gone p"
  by (simp_all add: complete_future_def split: option.split)

lemma complete_future_wf [simp]:
  "pool_wf (complete_future u er p) = pool_wf p" "balance (complete_future u er p) = balance p"
  "attempts_ok (complete_future u er p) = attempts_ok p" "slots_ok (complete_future u er p) = slots_ok p"
  "slots_but x k (complete_future u er p) = slots_but x k p"
  by (simp_all add: wf_defs balance_def inside_def attempts_defs slots_defs)

lemma complete_future_done:
  assumes "future_inv (p_futures p i)"
  shows "fu_done (p_futures (complete_future (Some i) er p) i)"
  using assms by (auto simp: complete_future_def complete_def close_done_def future_inv_def Let_def)

lemma complete_future_answers:
  assumes "future_inv (p_futures (complete_future (Some i) er p) i)"
  shows "fu_done (p_futures (complete_future (Some i) er p) i)"
  using assms by (auto simp: complete_future_def complete_def close_done_def future_inv_def Let_def split: if_splits)

lemma complete_future_keeps:
  assumes "future_inv (p_futures p i)"
  shows "future_inv (p_futures (complete_future u er p) i)" "fu_done (p_futures p i) \<Longrightarrow> fu_done (p_futures (complete_future u er p) i)"
  using assms
  by (auto simp: complete_future_def complete_def close_done_def future_inv_def Let_def split: option.split)

lemma complete_future_ok [simp]: "futures_ok p \<Longrightarrow> futures_ok (complete_future u er p)"
proof -
  assume p: "futures_ok p"
  have "live (complete_future u er p) = live p" by (simp add: live_def fast_ptrs_def)
  with p complete_future_keeps show ?thesis by (fastforce simp: futures_ok_def answered_def)
qed

lemma untrack_frame [simp]:
  "p_cfg (untrack i p) = p_cfg p" "p_q (untrack i p) = p_q p" "p_fastq (untrack i p) = p_fastq p"
  "p_basicq (untrack i p) = p_basicq p" "p_state (untrack i p) = p_state p" "p_heap (untrack i p) = p_heap p"
  "p_submitting (untrack i p) = p_submitting p" "p_inflight (untrack i p) = p_inflight p"
  "p_jobs (untrack i p) = AList.delete i (p_jobs p)" "p_next (untrack i p) = p_next p" "p_jobPool (untrack i p) = p_jobPool p"
  "p_spill (untrack i p) = p_spill p" "p_dlq (untrack i p) = p_dlq p" "p_futures (untrack i p) = p_futures p"
  "p_running (untrack i p) = p_running p" "p_basicRunning (untrack i p) = p_basicRunning p" "p_basicTaken (untrack i p) = p_basicTaken p"
  "p_idemp (untrack i p) = p_idemp p" "p_hooks (untrack i p) = p_hooks p" "p_sem (untrack i p) = p_sem p"
  "p_lifecycle (untrack i p) = p_lifecycle p" "p_store (untrack i p) = p_store p" "p_c (untrack i p) = p_c p"
  "p_gone (untrack i p) = p_gone p"
  by (simp_all add: untrack_def)

lemma untrack_wf: "pool_wf p \<Longrightarrow> pool_wf (untrack i p)"
  by (auto simp: wf_defs AList.delete_eq distinct_map_filter inj_on_def distinct_map)

lemma untrack_balance [simp]: "balance (untrack i p) = balance p" "attempts_ok (untrack i p) = attempts_ok p"
  "slots_ok (untrack i p) = slots_ok p" "futures_ok (untrack i p) = futures_ok p"
  by (simp_all add: balance_def inside_def attempts_defs slots_ok_def key_of_def futures_defs)

lemma untrack_job_frame [simp]:
  "p_cfg (untrack_job opts p) = p_cfg p" "p_q (untrack_job opts p) = p_q p"
  "p_basicq (untrack_job opts p) = p_basicq p" "p_fastq (untrack_job opts p) = p_fastq p"
  "p_state (untrack_job opts p) = p_state p" "p_c (untrack_job opts p) = p_c p"
  "p_hooks (untrack_job opts p) = p_hooks p" "p_idemp (untrack_job opts p) = p_idemp p"
  "p_sem (untrack_job opts p) = p_sem p" "p_dlq (untrack_job opts p) = p_dlq p"
  "p_store (untrack_job opts p) = p_store p" "p_jobPool (untrack_job opts p) = p_jobPool p"
  "p_spill (untrack_job opts p) = p_spill p" "p_spillPath (untrack_job opts p) = p_spillPath p"
  "p_heap (untrack_job opts p) = p_heap p" "p_next (untrack_job opts p) = p_next p"
  "p_futures (untrack_job opts p) = p_futures p" "p_submitting (untrack_job opts p) = p_submitting p"
  "p_inflight (untrack_job opts p) = p_inflight p" "p_running (untrack_job opts p) = p_running p"
  "p_basicRunning (untrack_job opts p) = p_basicRunning p" "p_basicTaken (untrack_job opts p) = p_basicTaken p" "p_gone (untrack_job opts p) = p_gone p"
  "p_lifecycle (untrack_job opts p) = p_lifecycle p"
  by (simp_all add: untrack_job_def untrack_def)

lemma forget_key_frame [simp]:
  "p_cfg (forget_key opts p) = p_cfg p" "p_q (forget_key opts p) = p_q p"
  "p_basicq (forget_key opts p) = p_basicq p" "p_fastq (forget_key opts p) = p_fastq p"
  "p_state (forget_key opts p) = p_state p" "p_c (forget_key opts p) = p_c p"
  "p_hooks (forget_key opts p) = p_hooks p" "p_sem (forget_key opts p) = p_sem p"
  "p_dlq (forget_key opts p) = p_dlq p" "p_jobs (forget_key opts p) = p_jobs p"
  "p_store (forget_key opts p) = p_store p" "p_jobPool (forget_key opts p) = p_jobPool p"
  "p_spill (forget_key opts p) = p_spill p" "p_spillPath (forget_key opts p) = p_spillPath p"
  "p_heap (forget_key opts p) = p_heap p" "p_next (forget_key opts p) = p_next p"
  "p_futures (forget_key opts p) = p_futures p" "p_submitting (forget_key opts p) = p_submitting p"
  "p_inflight (forget_key opts p) = p_inflight p" "p_running (forget_key opts p) = p_running p"
  "p_basicRunning (forget_key opts p) = p_basicRunning p" "p_basicTaken (forget_key opts p) = p_basicTaken p" "p_gone (forget_key opts p) = p_gone p"
  "p_lifecycle (forget_key opts p) = p_lifecycle p"
  by (simp_all add: forget_key_def)

lemma store_dead_frame [simp]:
  "p_cfg (store_dead x p) = p_cfg p" "p_q (store_dead x p) = p_q p" "p_basicq (store_dead x p) = p_basicq p"
  "p_fastq (store_dead x p) = p_fastq p" "p_state (store_dead x p) = p_state p" "p_c (store_dead x p) = p_c p"
  "p_hooks (store_dead x p) = p_hooks p" "p_idemp (store_dead x p) = p_idemp p"
  "p_sem (store_dead x p) = p_sem p" "p_dlq (store_dead x p) = p_dlq p" "p_jobs (store_dead x p) = p_jobs p"
  "p_store (store_dead x p) = p_store p" "p_jobPool (store_dead x p) = p_jobPool p"
  "p_spill (store_dead x p) = p_spill p" "p_spillPath (store_dead x p) = p_spillPath p"
  "p_heap (store_dead x p) = p_heap p" "p_next (store_dead x p) = p_next p"
  "p_futures (store_dead x p) = p_futures p" "p_submitting (store_dead x p) = p_submitting p"
  "p_inflight (store_dead x p) = p_inflight p" "p_running (store_dead x p) = p_running p"
  "p_basicRunning (store_dead x p) = p_basicRunning p" "p_basicTaken (store_dead x p) = p_basicTaken p" "p_gone (store_dead x p) = p_gone p"
  "p_lifecycle (store_dead x p) = p_lifecycle p"
  by (simp_all add: store_dead_def note_act_def)

lemma ends_wf [simp]:
  "pool_wf p \<Longrightarrow> pool_wf (untrack_job opts p)" "pool_wf (forget_key opts p) = pool_wf p" "pool_wf (store_dead x p) = pool_wf p"
  "balance (untrack_job opts p) = balance p" "balance (forget_key opts p) = balance p" "balance (store_dead x p) = balance p"
  "attempts_ok (untrack_job opts p) = attempts_ok p" "attempts_ok (forget_key opts p) = attempts_ok p"
  "attempts_ok (store_dead x p) = attempts_ok p"
  "slots_ok (untrack_job opts p) = slots_ok p" "slots_ok (forget_key opts p) = slots_ok p" "slots_ok (store_dead x p) = slots_ok p"
  "slots_but y k (untrack_job opts p) = slots_but y k p" "slots_but y k (forget_key opts p) = slots_but y k p"
  "slots_but y k (store_dead x p) = slots_but y k p"
  "futures_ok (untrack_job opts p) = futures_ok p" "futures_ok (forget_key opts p) = futures_ok p" "futures_ok (store_dead x p) = futures_ok p"
  by (simp_all add: untrack_job_def forget_key_def store_dead_def untrack_wf)
    (simp_all add: wf_defs balance_def inside_def attempts_defs slots_defs futures_defs)

subsection \<open>Jobs in the hands of a goroutine\<close>

lemma leave_frame [simp]:
  "p_cfg (leave x p) = p_cfg p" "p_q (leave x p) = p_q p" "p_fastq (leave x p) = p_fastq p"
  "p_basicq (leave x p) = p_basicq p" "p_state (leave x p) = p_state p" "p_heap (leave x p) = p_heap p"
  "p_submitting (leave x p) = remove1 x (p_submitting p)" "p_inflight (leave x p) = remove1 x (p_inflight p)"
  "p_jobs (leave x p) = p_jobs p" "p_next (leave x p) = p_next p" "p_jobPool (leave x p) = p_jobPool p"
  "p_spill (leave x p) = p_spill p" "p_dlq (leave x p) = p_dlq p" "p_futures (leave x p) = p_futures p"
  "p_running (leave x p) = p_running p" "p_basicRunning (leave x p) = p_basicRunning p" "p_basicTaken (leave x p) = p_basicTaken p"
  "p_idemp (leave x p) = p_idemp p" "p_hooks (leave x p) = p_hooks p" "p_sem (leave x p) = p_sem p"
  "p_lifecycle (leave x p) = p_lifecycle p" "p_store (leave x p) = p_store p" "p_c (leave x p) = p_c p"
  "p_gone (leave x p) = p_gone p"
  by (simp_all add: leave_def)

text \<open>A job in a worker's hands or a submitter's hands is nowhere else.\<close>

lemma held_once:
  assumes wf: "pool_wf p"
  shows "x \<in> set (p_inflight p) \<Longrightarrow> count (mset (p_inflight p)) x = 1 \<and> x \<notin> set (p_submitting p) \<and>
      x \<notin> set (p_spill p) \<and> x \<notin> set (p_dlq p) \<and> x \<notin> set (p_jobPool p) \<and> x < p_next p"
    and "x \<in> set (p_submitting p) \<Longrightarrow> count (mset (p_submitting p)) x = 1 \<and> x \<notin> set (p_inflight p) \<and>
      x \<notin> set (p_spill p) \<and> x \<notin> set (p_dlq p) \<and> x \<notin> set (p_jobPool p) \<and> x < p_next p"
proof -
  define s f a l q d j where [symmetric]: "s = count (mset (p_submitting p)) x" "f = count (mset (p_inflight p)) x"
    "a = count (mset (fast_ptrs p)) x" "l = count (mset (p_spill p)) x" "q = count (image_mset it_Value (pq_elems (p_q p))) x"
    "d = count (mset (p_dlq p)) x" "j = count (mset (p_jobPool p)) x"
  note defs = this
  have c: "s + f + a + l + q + d + j \<le> 1" using wf by (simp add: pool_wf_def places_def flip: defs)
  have pos: "x \<in> set xs \<longleftrightarrow> 1 \<le> count (mset xs) x" for xs by (simp add: Suc_le_eq)
  have n: "x \<in> set (p_inflight p) \<or> x \<in> set (p_submitting p) \<Longrightarrow> x < p_next p"
    using wf by (auto simp: pool_wf_def places_def)
  show "x \<in> set (p_inflight p) \<Longrightarrow> count (mset (p_inflight p)) x = 1 \<and> x \<notin> set (p_submitting p) \<and>
      x \<notin> set (p_spill p) \<and> x \<notin> set (p_dlq p) \<and> x \<notin> set (p_jobPool p) \<and> x < p_next p"
    using c n unfolding pos defs by linarith
  show "x \<in> set (p_submitting p) \<Longrightarrow> count (mset (p_submitting p)) x = 1 \<and> x \<notin> set (p_inflight p) \<and>
      x \<notin> set (p_spill p) \<and> x \<notin> set (p_dlq p) \<and> x \<notin> set (p_jobPool p) \<and> x < p_next p"
    using c n unfolding pos defs by linarith
qed

definition held :: "nat \<Rightarrow> pool \<Rightarrow> bool" where
  "held x p \<longleftrightarrow> x \<in> set (p_inflight p) \<or> x \<in> set (p_submitting p)"

lemma leave_mset:
  assumes "pool_wf p" "held x p"
  shows "add_mset x (mset (remove1 x (p_submitting p)) + mset (remove1 x (p_inflight p))) =
    mset (p_submitting p) + mset (p_inflight p)"
  using assms(2) held_once [OF assms(1), of x] unfolding held_def
  by (elim disjE) (simp_all add: remove1_idem)

text \<open>Moving a held job to another place, or forgetting it, keeps the pointers apart.\<close>

lemma places_le_wf:
  assumes "pool_wf p" "places p' \<subseteq># places p" "queues_ok p'" "tracked_ok p'" "p_next p' = p_next p"
  shows "pool_wf p'"
proof -
  have "count (places p') x \<le> 1" for x
    using assms(1) mset_subset_eq_count [OF assms(2), of x] unfolding pool_wf_def by (meson order_trans)
  moreover have "x < p_next p'" if "x \<in># places p'" for x
    using assms(1,5) mset_subset_eqD [OF assms(2) that] unfolding pool_wf_def by simp
  ultimately show ?thesis using assms(3,4) unfolding pool_wf_def by blast
qed

lemma leave_wf:
  assumes "pool_wf p" "held x p"
  shows "pool_wf (leave x p)"
proof (rule places_le_wf [OF assms(1)])
  have "add_mset x (places (leave x p)) = places p"
    using leave_mset [OF assms] by (simp add: places_def fast_ptrs_def)
  then show "places (leave x p) \<subseteq># places p" by (metis add_mset_add_single mset_subset_eq_add_left)
qed (use assms(1) in \<open>auto simp: pool_wf_def queues_ok_def tracked_ok_def\<close>)

lemma remove1_notin: "count (mset xs) x \<le> 1 \<Longrightarrow> x \<notin> set (remove1 x xs)"
  by (metis count_eq_zero_iff diff_is_0_eq in_diff_count le_zero_eq mset_remove1 count_diff count_single set_mset_mset)

lemma leave_not_held:
  assumes "pool_wf p"
  shows "\<not> held x (leave x p)"
proof -
  have "count (mset (p_submitting p)) x \<le> 1" "count (mset (p_inflight p)) x \<le> 1"
    using assms unfolding pool_wf_def places_def by (auto dest!: spec [of _ x])
  then show ?thesis by (simp add: held_def remove1_notin)
qed

lemma leave_attempts: "attempts_ok p \<Longrightarrow> attempts_ok (leave x p)"
  by (auto simp: attempts_defs dest: notin_set_remove1 in_diffD)

lemma leave_slots:
  assumes "slots_but x k p"
  shows "slots_but x k (leave x p)"
proof -
  have "set (p_inflight p) \<subseteq> insert x (set (remove1 x (p_inflight p)))" by (metis in_set_remove1 insert_iff subsetI)
  moreover have "key_of (leave x p) = key_of p" by (simp add: key_of_def fun_eq_iff)
  ultimately show ?thesis using assms by (auto simp: slots_but_def)
qed

lemma leave_ok_slots:
  assumes "slots_ok p" "p_sem q = p_sem p" "p_running q = p_running p" "p_unlimited q = p_unlimited p"
    "p_inflight q = p_inflight p" "p_heap q = p_heap p"
  shows "slots_but x (key_of p x) (leave x q)"
  by (rule leave_slots) (use assms in \<open>auto simp: slots_defs fun_upd_idem\<close>)

lemma live_leave: "live p - {x} \<subseteq> live (leave x p)"
  by (auto simp: live_def fast_ptrs_def)

lemma leave_futures:
  assumes p: "futures_ok p" and a: "answered p x"
  shows "futures_ok (leave x p)"
proof -
  have "answered p y" if "c_Backpressure (p_cfg p) \<noteq> BackpressureDropOldest" "y \<notin> live (leave x p)" for y
    using p a that live_leave [of p x] by (cases "y = x") (auto simp: futures_ok_def)
  moreover have "answered (leave x p) = answered p" by (simp add: answered_def fun_eq_iff)
  ultimately show ?thesis using p by (auto simp: futures_ok_def)
qed

lemma complete_leave_futures [simp]:
  assumes p: "futures_ok p" and u: "u = qj_future (p_heap p x)"
  shows "futures_ok (complete_future u er (leave x p))"
proof -
  let ?q = "complete_future u er (leave x p)"
  have i: "future_inv (p_futures (leave x p) j)" for j using p by (simp add: futures_ok_def leave_def)
  have l: "live ?q = live (leave x p)" by (simp add: live_def fast_ptrs_def)
  have "answered ?q y" if "c_Backpressure (p_cfg p) \<noteq> BackpressureDropOldest" "y \<notin> live ?q" for y
  proof (cases "y = x")
    case True
    with u complete_future_done [OF i] show ?thesis by (auto simp: answered_def)
  next
    case False
    with that(2) have "y \<notin> live p" unfolding l using live_leave [of p x] by blast
    with p that(1) have "answered p y" by (auto simp: futures_ok_def)
    with complete_future_keeps(2) [OF i] show ?thesis by (auto simp: answered_def leave_def)
  qed
  with complete_future_keeps(1) [OF i] show ?thesis by (auto simp: futures_ok_def)
qed

text \<open>A pointer that goes from the hands to a queue.\<close>

lemma push_futures:
  assumes "futures_ok p" "p_futures q = p_futures p" "p_heap q = p_heap p" "p_cfg q = p_cfg p"
    "p_submitting q = p_submitting p" "p_inflight q = p_inflight p" "insert x (live p) \<subseteq> live (leave x q)"
  shows "futures_ok (leave x q)"
  by (rule futures_ok_mono [OF _ _ _ _ assms(1)]) (use assms in \<open>auto simp: leave_def\<close>)

text \<open>\<open>inside\<close> counts the jobs of workers, not those still being submitted.\<close>

definition charge :: "nat \<Rightarrow> pool \<Rightarrow> 64 word" where
  "charge x p = (if x \<in> set (p_inflight p) then 1 else 0)"

lemma length_inflight_remove1:
  "of_nat (length (remove1 x (p_inflight p))) = of_nat (length (p_inflight p)) - charge x p"
proof (cases "x \<in> set (p_inflight p)")
  case True
  then have "Suc (length (remove1 x (p_inflight p))) = length (p_inflight p)"
    by (simp add: length_remove1) (metis One_nat_def Suc_pred length_pos_if_in_set)
  with True show ?thesis by (metis charge_def add_diff_cancel_left' of_nat_Suc)
qed (simp add: charge_def remove1_idem)

lemma leave_balance: "balance (leave x p) = balance p + charge x p"
  unfolding balance_def inside_def leave_frame of_nat_add length_inflight_remove1 by simp

end
