(* ===== verification/Pool_Moves.thy ===== *)
theory Pool_Moves
  imports Pool_Invariant
begin

text \<open>
  A job between a goroutine's hands and the queues, with the other goroutines at work.

  \<open>rely x f\<close> is what a goroutine that holds job \<open>x\<close> relies on of the others while it waits: they
  keep the invariant and the books, leave \<open>x\<close> where it is, and change no more of the job object
  than a cancellation or a progress report does.  \<open>released\<close> is the result of handing the job on.
\<close>

definition busy_gap :: "pool \<Rightarrow> int" where
  "busy_gap p = k_busy (p_c p) - int (length (p_running p)) - int (p_basicRunning p)"

text \<open>A pool that is stopping, stopped or terminated.\<close>

definition halted :: "State \<Rightarrow> bool" where
  "halted s \<longleftrightarrow> stateStopping \<le> s"

lemma halted_simps [simp]:
  "\<not> halted stateNew" "\<not> halted stateRunning" "\<not> halted statePaused"
  "halted stateStopping" "halted stateStopped" "halted stateTerminated"
  by (simp_all add: halted_def)

definition job_const :: "queuedJob \<Rightarrow> queuedJob \<Rightarrow> bool" where
  "job_const q q' \<longleftrightarrow> qj_opts q' = qj_opts q \<and> qj_future q' = qj_future q \<and> qj_attempt q' = qj_attempt q"

definition stays :: "nat \<Rightarrow> pool \<Rightarrow> pool \<Rightarrow> bool" where
  "stays x p0 p \<longleftrightarrow> pool_wf p \<and> held x p \<and> balance p = balance p0 \<and> busy_gap p = busy_gap p0 \<and>
     charge x p = charge x p0 \<and> job_const (p_heap p0 x) (p_heap p x) \<and> p_cfg p = p_cfg p0 \<and>
     (x \<in> set (p_running p) \<longleftrightarrow> x \<in> set (p_running p0)) \<and> p_next p0 \<le> p_next p \<and>
     (halted (p_state p0) \<longrightarrow> halted (p_state p)) \<and> (attempts_ok p0 \<longrightarrow> attempts_ok p) \<and>
     (slots_ok p0 \<longrightarrow> slots_ok p) \<and> (futures_ok p0 \<longrightarrow> futures_ok p)"

definition rely :: "nat \<Rightarrow> (pool \<Rightarrow> pool) \<Rightarrow> bool" where
  "rely x f \<longleftrightarrow> (\<forall>p. pool_wf p \<longrightarrow> held x p \<longrightarrow> stays x p (f p))"

definition rely_rounds :: "nat \<Rightarrow> round list \<Rightarrow> bool" where
  "rely_rounds x rs \<longleftrightarrow> (\<forall>(t, f) \<in> set rs. rely x f)"

definition released :: "nat \<Rightarrow> pool \<Rightarrow> 64 word \<Rightarrow> pool \<Rightarrow> bool" where
  "released x p0 b p \<longleftrightarrow> pool_wf p \<and> balance p = b \<and> busy_gap p = busy_gap p0 \<and> p_cfg p = p_cfg p0 \<and>
     (x \<in> set (p_running p) \<longleftrightarrow> x \<in> set (p_running p0)) \<and> p_next p0 \<le> p_next p \<and>
     (halted (p_state p0) \<longrightarrow> halted (p_state p)) \<and> (attempts_ok p0 \<and> may_run (p_heap p0 x) \<longrightarrow> attempts_ok p) \<and>
     (slots_ok p0 \<longrightarrow> slots_but x (key_of p0 x) p) \<and> (futures_ok p0 \<longrightarrow> futures_ok p) \<and> \<not> held x p"

lemma job_const_upd [simp]:
  "job_const q (q\<lparr>qj_runAt := t\<rparr>)" "job_const q (q\<lparr>qj_state := st\<rparr>)" "job_const q (q\<lparr>qj_rateReadyAt := t\<rparr>)"
  "job_const q (q\<lparr>qj_lastErr := le\<rparr>)" "job_const q (q\<lparr>qj_finishedAt := t\<rparr>)" "job_const q (q\<lparr>qj_progress := pr\<rparr>)"
  by (simp_all add: job_const_def)

text \<open>A job that is not queued again keeps the limit of attempts whether or not it has one left.\<close>

definition ended :: "nat \<Rightarrow> pool \<Rightarrow> 64 word \<Rightarrow> pool \<Rightarrow> bool" where
  "ended x p0 b p \<longleftrightarrow> released x p0 b p \<and> (attempts_ok p0 \<longrightarrow> attempts_ok p)"

lemma job_const_runs: "job_const q q' \<Longrightarrow> may_run q' = may_run q" "job_const q q' \<Longrightarrow> may_end q' = may_end q"
  by (simp_all add: job_const_def may_run_def may_end_def)

lemma job_const_key: "job_const (p_heap p0 x) (p_heap p x) \<Longrightarrow> key_of p x = key_of p0 x"
  by (simp add: job_const_def key_of_def)

lemma stays_refl: "pool_wf p \<Longrightarrow> held x p \<Longrightarrow> stays x p p"
  by (simp add: stays_def job_const_def)

lemma stays_trans: "stays x p q \<Longrightarrow> stays x q r \<Longrightarrow> stays x p r"
  by (auto simp: stays_def job_const_def)

lemma stays_rely: "stays x p0 p \<Longrightarrow> rely x f \<Longrightarrow> stays x p0 (f p)"
  using stays_trans [of x p0 p "f p"] unfolding rely_def by (auto simp: stays_def)

lemma released_stays: "stays x p0 p \<Longrightarrow> released x p b q \<Longrightarrow> released x p0 b q"
  by (auto simp: released_def stays_def job_const_runs job_const_key)

lemma ended_stays: "stays x p0 p \<Longrightarrow> ended x p b q \<Longrightarrow> ended x p0 b q"
  using released_stays by (auto simp: ended_def stays_def)

lemma rely_id: "rely x (\<lambda>p. p)"
  by (simp add: rely_def stays_refl)

subsection \<open>Waiting loops\<close>

lemma spin_push_end:
  assumes "spin_push try d rs p = Some (ok, p')" and "K p" and "\<forall>(t, f) \<in> set rs. \<forall>p. K p \<longrightarrow> K (f p)"
    and "\<And>p p'. K p \<Longrightarrow> try p = (False, p') \<Longrightarrow> K p'"
  shows "\<exists>p0. K p0 \<and> try p0 = (ok, p')"
  using assms(1,2,3)
proof (induction rs arbitrary: p)
  case Nil
  then show ?case by (auto split: prod.splits if_splits)
next
  case (Cons r rs)
  obtain t f where r: "r = (t, f)" by fastforce
  obtain ok1 p1 where t1: "try p = (ok1, p1)" by fastforce
  show ?case
  proof (cases "ok1 \<or> (\<not> IsZero d \<and> t > d) \<or> p_state p1 \<ge> stateStopping")
    case True
    then have "ok = ok1 \<and> p' = p1"
      using Cons.prems(1) by (auto simp: r t1 simp del: State_less_simps split: if_splits)
    with t1 Cons.prems(2) show ?thesis by blast
  next
    case False
    then have "spin_push try d rs (f p1) = Some (ok, p')"
      using Cons.prems(1) by (auto simp: r t1 simp del: State_less_simps split: if_splits)
    moreover have "K (f p1)"
      using assms(4) [OF Cons.prems(2)] t1 False Cons.prems(3) r by auto
    ultimately show ?thesis using Cons.IH Cons.prems(3) by auto
  qed
qed

lemma sleep_push_end:
  assumes "sleep_push full try rs p = Some (ok, p')" and "K p" and "\<forall>(t, f) \<in> set rs. \<forall>p. K p \<longrightarrow> K (f p)"
  shows "\<exists>p0. K p0 \<and> try p0 = (ok, p')"
  using assms
proof (induction rs arbitrary: p)
  case Nil
  then show ?case by (auto split: if_splits)
next
  case (Cons r rs)
  then show ?case by (cases r) (fastforce split: if_splits)
qed

lemma rely_rounds_stays:
  "rely_rounds x rs \<Longrightarrow> \<forall>(t, f) \<in> set rs. \<forall>p. stays x p0 p \<longrightarrow> stays x p0 (f p)"
  by (auto simp: rely_rounds_def stays_rely)

subsection \<open>Handing a job on\<close>

lemma leave_busy [simp]: "busy_gap (leave x p) = busy_gap p"
  by (simp add: busy_gap_def)

text \<open>\<open>move\<close> is the general step: the job leaves the hands and its pointer goes to one more place.\<close>

lemma move_wf:
  assumes wf: "pool_wf p" and h: "held x p"
    and pl: "places p' \<subseteq># add_mset x (places (leave x p))"
    and "queues_ok p'" "tracked_ok p'" "p_next p' = p_next p"
  shows "pool_wf p'"
proof (rule places_le_wf [OF wf])
  have "add_mset x (places (leave x p)) = places p"
    using leave_mset [OF wf h] by (simp add: places_def fast_ptrs_def)
  with pl show "places p' \<subseteq># places p" by simp
qed (use assms(4-6) in auto)

lemma move_attempts:
  assumes "attempts_ok p" "may_run (p_heap p x)"
    and "queued_ptrs p' \<subseteq># add_mset x (queued_ptrs (leave x p))" "p_heap p' = p_heap p"
    and "p_inflight p' = p_inflight (leave x p)" "p_running p' = p_running p" "p_dlq p' = p_dlq p" "p_cfg p' = p_cfg p"
  shows "attempts_ok p'"
  using leave_attempts [OF assms(1), of x] mset_subset_eqD [OF assms(3)] assms(2,4-8)
  by (auto simp: attempts_ok_def)

lemma try_fast_spec:
  assumes wf: "pool_wf p" and h: "held x p" and t: "try_fast x p = (ok, p')"
  shows "if ok then released x p (balance p + charge x p - 1) p' \<and> p_heap p' = p_heap p else p' = p"
proof -
  obtain q where q: "FIFO_TryPush (Some x) (p_fastq p) = (ok, q)" "p' = (if ok then leave x (p\<lparr>p_fastq := q\<rparr>) else p)"
    using t by (auto simp: try_fast_def split: prod.splits)
  have i: "fifo_inv (p_fastq p)" using wf by (simp add: pool_wf_def queues_ok_def)
  have i': "fifo_inv q" and c: "fifo_contents q = fifo_contents (p_fastq p) @ (if ok then [Some x] else [])"
    using fq.fifo_push_inv [OF i q(1)] fq.fifo_push [OF i q(1)] by auto
  have l: "fq_len q = (if ok then Suc (fq_len (p_fastq p)) else fq_len (p_fastq p))"
    using arg_cong [OF c, of length] by simp
  show ?thesis
  proof (cases ok)
    case True
    have "pool_wf p'"
      by (rule move_wf [OF wf h])
        (use True q c i' wf in \<open>auto simp: places_def fast_ptrs_def queues_ok_def tracked_ok_def pool_wf_def\<close>)
    moreover have "balance p' = balance p + charge x p - 1"
      using True q(2) l leave_balance [of x "p\<lparr>p_fastq := q\<rparr>"]
      by (simp add: balance_def inside_def charge_def)
    moreover have "attempts_ok p \<and> may_run (p_heap p x) \<longrightarrow> attempts_ok p'"
      by (intro impI, elim conjE, rule move_attempts)
        (use True q c in \<open>simp_all add: queued_ptrs_def fast_ptrs_def\<close>)
    moreover have "slots_ok p \<longrightarrow> slots_but x (key_of p x) p'"
      using True q(2) leave_ok_slots [of p "p\<lparr>p_fastq := q\<rparr>" x] by simp
    moreover have "futures_ok p \<longrightarrow> futures_ok p'"
      by (intro impI, simp only: q(2) True if_True, rule push_futures)
        (use True c live_leave [of p x] in \<open>auto simp: live_def fast_ptrs_def\<close>)
    moreover have "\<not> held x p'" using leave_not_held [OF wf] True q(2) by (simp add: held_def)
    ultimately show ?thesis using True q(2) by (simp add: released_def busy_gap_def)
  qed (use q in simp)
qed

lemma length_items: "length (pq_items q) = size (pq_elems q)"
  by (simp add: pq_elems_def)

lemma try_q_spec:
  assumes wf: "pool_wf p" and h: "held (it_Value it) p" and t: "try_q it p = (ok, p')"
  shows "if ok then released (it_Value it) p (balance p + charge (it_Value it) p - 1) p' \<and> p_heap p' = p_heap p else p' = p"
proof -
  obtain q where q: "PQ_Push it (p_q p) = (ok, q)" "p' = (if ok then leave (it_Value it) (p\<lparr>p_q := q\<rparr>) else p)"
    using t by (auto simp: try_q_def split: prod.splits)
  have i: "pq_inv (p_q p)" using wf by (simp add: pool_wf_def queues_ok_def)
  note i' = PQ_Push_inv [OF i q(1)] and c = PQ_Push_elems [OF q(1)]
  show ?thesis
  proof (cases ok)
    case True
    have "pool_wf p'"
      by (rule move_wf [OF wf h])
        (use True q c i' wf in \<open>auto simp: places_def fast_ptrs_def queues_ok_def tracked_ok_def pool_wf_def\<close>)
    moreover have "balance p' = balance p + charge (it_Value it) p - 1"
      using True q(2) c leave_balance [of "it_Value it" "p\<lparr>p_q := q\<rparr>"]
      by (simp add: balance_def inside_def charge_def length_items)
    moreover have "attempts_ok p \<and> may_run (p_heap p (it_Value it)) \<longrightarrow> attempts_ok p'"
      by (intro impI, elim conjE, rule move_attempts)
        (use True q c in \<open>simp_all add: queued_ptrs_def fast_ptrs_def\<close>)
    moreover have "slots_ok p \<longrightarrow> slots_but (it_Value it) (key_of p (it_Value it)) p'"
      using True q(2) leave_ok_slots [of p "p\<lparr>p_q := q\<rparr>"] by simp
    moreover have "futures_ok p \<longrightarrow> futures_ok p'"
      by (intro impI, simp only: q(2) True if_True, rule push_futures)
        (use True c live_leave [of p "it_Value it"] in \<open>auto simp: live_def fast_ptrs_def\<close>)
    moreover have "\<not> held (it_Value it) p'" using leave_not_held [OF wf] True q(2) by (simp add: held_def)
    ultimately show ?thesis using True q(2) by (simp add: released_def busy_gap_def)
  qed (use q in simp)
qed

lemma PQ_DropOldestPush_elems:
  assumes d: "PQ_DropOldestPush it q = (ok, q')"
  shows "if ok then \<exists>D. pq_elems q' + D = add_mset it (pq_elems q) \<and> size D \<le> 1 else q' = q"
proof (cases "pq_closed q")
  case False
  show ?thesis
  proof (cases "pq_cap q > 0 \<and> int (length (pq_items q)) \<ge> pq_cap q")
    case True
    then obtain x rest where pop: "pq_pop (pq_items q) = Some (x, rest)"
      using pq_pop_None [of "pq_items q"] by (cases "pq_pop (pq_items q)") auto
    then have "pq_elems q' + {#x#} = add_mset it (pq_elems q)"
      using d True False pq_pop_mset [OF pop] by (auto simp: PQ_DropOldestPush_def pq_elems_def PQ_signalLocked_def pq_push_mset)
    moreover have ok using d False by (auto simp: PQ_DropOldestPush_def Let_def)
    ultimately show ?thesis by (auto intro: exI [of _ "{#x#}"])
  next
    case nf: False
    then have "pq_elems q' + {#} = add_mset it (pq_elems q)" and ok
      using d False by (auto simp: PQ_DropOldestPush_def pq_elems_def PQ_signalLocked_def pq_push_mset)
    then show ?thesis by (auto intro: exI [of _ "{#}"])
  qed
qed (use d in \<open>simp add: PQ_DropOldestPush_def\<close>)

lemma drop_q_spec:
  assumes wf: "pool_wf p" and h: "held (it_Value it) p" and t: "drop_q it p = (ok, p')"
    and dr: "c_Backpressure (p_cfg p) = BackpressureDropOldest"
  shows "if ok then released (it_Value it) p (balance p + charge (it_Value it) p - 1) p' \<and> p_heap p' = p_heap p else p' = p"
proof -
  obtain q where q: "PQ_DropOldestPush it (p_q p) = (ok, q)"
    and p': "p' = (if ok then leave (it_Value it) (p\<lparr>p_q := q,
        p_gone := p_gone p + of_nat (length (pq_items (p_q p)) + 1 - length (pq_items q))\<rparr>) else p)"
    using t by (auto simp: drop_q_def split: prod.splits)
  have i: "pq_inv (p_q p)" using wf by (simp add: pool_wf_def queues_ok_def)
  note i' = PQ_DropOldestPush_inv [OF i q]
  show ?thesis
  proof (cases ok)
    case True
    then obtain D where D: "pq_elems q + D = add_mset it (pq_elems (p_q p))"
      using PQ_DropOldestPush_elems [OF q] by auto
    have sz: "size (pq_elems q) + size D = Suc (size (pq_elems (p_q p)))"
      using arg_cong [OF D, of size] by simp
    then have gone: "size (pq_elems (p_q p)) + 1 - size (pq_elems q) = size D" by simp
    have "image_mset it_Value (pq_elems q) + image_mset it_Value D = add_mset (it_Value it) (image_mset it_Value (pq_elems (p_q p)))"
      using arg_cong [OF D, of "image_mset it_Value"] by simp
    then have sub: "image_mset it_Value (pq_elems q) \<subseteq># add_mset (it_Value it) (image_mset it_Value (pq_elems (p_q p)))"
      by (metis mset_subset_eq_add_left)
    have "pool_wf p'"
    proof (rule move_wf [OF wf h])
      let ?R = "mset (remove1 (it_Value it) (p_submitting p)) + mset (remove1 (it_Value it) (p_inflight p)) +
          mset (fast_ptrs p) + mset (p_spill p) + mset (p_dlq p) + mset (p_jobPool p)"
      have old: "places (leave (it_Value it) p) = image_mset it_Value (pq_elems (p_q p)) + ?R"
        by (simp add: places_def fast_ptrs_def)
      have new: "places p' = image_mset it_Value (pq_elems q) + ?R"
        using True p' by (simp add: places_def fast_ptrs_def)
      show "places p' \<subseteq># add_mset (it_Value it) (places (leave (it_Value it) p))"
        unfolding old new using subset_mset.add_right_mono [OF sub, of ?R] by (simp only: union_mset_add_mset_left)
    qed (use True p' i' wf in \<open>auto simp: queues_ok_def tracked_ok_def pool_wf_def\<close>)
    moreover have "balance p' = balance p + charge (it_Value it) p - 1"
    proof -
      have "(of_nat (size (pq_elems q)) :: 64 word) + of_nat (size D) = 1 + of_nat (size (pq_elems (p_q p)))"
        using arg_cong [OF sz, of "of_nat :: nat \<Rightarrow> 64 word"] by simp
      then have "(of_nat (size (pq_elems q)) :: 64 word) = 1 + of_nat (size (pq_elems (p_q p))) - of_nat (size D)"
        by (metis add_diff_cancel_right')
      then show ?thesis
        using True p' leave_balance [of "it_Value it" "p\<lparr>p_q := q, p_gone := p_gone p + of_nat (size D)\<rparr>"] gone
        by (simp add: balance_def inside_def charge_def length_items)
    qed
    moreover have "attempts_ok p \<and> may_run (p_heap p (it_Value it)) \<longrightarrow> attempts_ok p'"
      by (intro impI, elim conjE, rule move_attempts)
        (use True p' sub in \<open>simp_all add: queued_ptrs_def fast_ptrs_def\<close>)
    moreover have "slots_ok p \<longrightarrow> slots_but (it_Value it) (key_of p (it_Value it)) p'"
      unfolding p' by (intro impI) (simp add: True leave_ok_slots)
    moreover have "futures_ok p \<longrightarrow> futures_ok p'" using dr True p' by (simp add: futures_ok_def)
    moreover have "\<not> held (it_Value it) p'" using leave_not_held [OF wf] True p' by (simp add: held_def)
    ultimately show ?thesis using True p' by (simp add: released_def busy_gap_def)
  qed (use p' in simp)
qed

subsection \<open>Fields outside the invariant\<close>

lemma field_wf [simp]:
  "pool_wf (p_queueWake_update g1 p) = pool_wf p" "pool_wf (p_ctxCancelled_update g2 p) = pool_wf p"
  "pool_wf (p_workers_update g3 p) = pool_wf p" "pool_wf (p_state_update g4 p) = pool_wf p"
  "pool_wf (p_seq_update g5 p) = pool_wf p" "pool_wf (p_started_update g6 p) = pool_wf p"
  "pool_wf (p_c_update g7 p) = pool_wf p" "pool_wf (p_idemp_update g8 p) = pool_wf p"
  "pool_wf (p_rates_update g9 p) = pool_wf p" "pool_wf (p_sem_update g10 p) = pool_wf p"
  "pool_wf (p_queueDefaults_update g11 p) = pool_wf p" "pool_wf (p_pausedQueues_update g12 p) = pool_wf p"
  "pool_wf (p_defaultOptions_update g13 p) = pool_wf p" "pool_wf (p_running_update g14 p) = pool_wf p"
  "pool_wf (p_basicRunning_update g15 p) = pool_wf p" "pool_wf (p_basicTaken_update g67 p) = pool_wf p" "pool_wf (p_gone_update g16 p) = pool_wf p"
  "pool_wf (p_cancelled_update g17 p) = pool_wf p" "pool_wf (p_buckets_update g18 p) = pool_wf p"
  "pool_wf (p_nextBucket_update g19 p) = pool_wf p" "pool_wf (p_nextCtx_update g20 p) = pool_wf p"
  "pool_wf (p_closeOnce_update g21 p) = pool_wf p" "pool_wf (p_scaleStop_update g22 p) = pool_wf p"
  "pool_wf (p_lifecycle_update g23 p) = pool_wf p" "pool_wf (p_futures_update g24 p) = pool_wf p"
  by (simp_all add: wf_defs)

lemma field_attempts [simp]:
  "attempts_ok (p_queueWake_update g200 p) = attempts_ok p" "attempts_ok (p_ctxCancelled_update g201 p) = attempts_ok p"
  "attempts_ok (p_workers_update g202 p) = attempts_ok p" "attempts_ok (p_state_update g203 p) = attempts_ok p"
  "attempts_ok (p_seq_update g204 p) = attempts_ok p" "attempts_ok (p_started_update g205 p) = attempts_ok p"
  "attempts_ok (p_c_update g206 p) = attempts_ok p" "attempts_ok (p_idemp_update g207 p) = attempts_ok p"
  "attempts_ok (p_rates_update g208 p) = attempts_ok p" "attempts_ok (p_sem_update g209 p) = attempts_ok p"
  "attempts_ok (p_queueDefaults_update g210 p) = attempts_ok p" "attempts_ok (p_pausedQueues_update g211 p) = attempts_ok p"
  "attempts_ok (p_defaultOptions_update g212 p) = attempts_ok p" "attempts_ok (p_basicRunning_update g213 p) = attempts_ok p"
  "attempts_ok (p_basicTaken_update g214 p) = attempts_ok p" "attempts_ok (p_gone_update g215 p) = attempts_ok p"
  "attempts_ok (p_cancelled_update g216 p) = attempts_ok p" "attempts_ok (p_buckets_update g217 p) = attempts_ok p"
  "attempts_ok (p_nextBucket_update g218 p) = attempts_ok p" "attempts_ok (p_nextCtx_update g219 p) = attempts_ok p"
  "attempts_ok (p_closeOnce_update g220 p) = attempts_ok p" "attempts_ok (p_scaleStop_update g221 p) = attempts_ok p"
  "attempts_ok (p_lifecycle_update g222 p) = attempts_ok p" "attempts_ok (p_futures_update g223 p) = attempts_ok p"
  by (simp_all add: attempts_defs)

lemma unlimited_field [simp]:
  "pool_wf (p_unlimited_update g p) = pool_wf p" "attempts_ok (p_unlimited_update g p) = attempts_ok p"
  "balance (p_unlimited_update g p) = balance p" "busy_gap (p_unlimited_update g p) = busy_gap p"
  by (simp_all add: wf_defs attempts_defs balance_def inside_def busy_gap_def)

lemma field_slots [simp]:
  "slots_ok (p_queueWake_update g300 p) = slots_ok p" "slots_ok (p_ctxCancelled_update g301 p) = slots_ok p"
  "slots_ok (p_workers_update g302 p) = slots_ok p" "slots_ok (p_state_update g303 p) = slots_ok p"
  "slots_ok (p_seq_update g304 p) = slots_ok p" "slots_ok (p_started_update g305 p) = slots_ok p"
  "slots_ok (p_c_update g306 p) = slots_ok p" "slots_ok (p_idemp_update g307 p) = slots_ok p"
  "slots_ok (p_rates_update g308 p) = slots_ok p" "slots_ok (p_queueDefaults_update g309 p) = slots_ok p"
  "slots_ok (p_pausedQueues_update g310 p) = slots_ok p" "slots_ok (p_defaultOptions_update g311 p) = slots_ok p"
  "slots_ok (p_basicRunning_update g312 p) = slots_ok p" "slots_ok (p_basicTaken_update g313 p) = slots_ok p"
  "slots_ok (p_gone_update g314 p) = slots_ok p" "slots_ok (p_cancelled_update g315 p) = slots_ok p"
  "slots_ok (p_buckets_update g316 p) = slots_ok p" "slots_ok (p_nextBucket_update g317 p) = slots_ok p"
  "slots_ok (p_nextCtx_update g318 p) = slots_ok p" "slots_ok (p_closeOnce_update g319 p) = slots_ok p"
  "slots_ok (p_scaleStop_update g320 p) = slots_ok p" "slots_ok (p_lifecycle_update g321 p) = slots_ok p"
  "slots_ok (p_futures_update g322 p) = slots_ok p" "slots_ok (p_dlq_update g323 p) = slots_ok p"
  "slots_ok (p_jobs_update g324 p) = slots_ok p" "slots_ok (p_spill_update g325 p) = slots_ok p"
  "slots_ok (p_jobPool_update g326 p) = slots_ok p" "slots_ok (p_submitting_update g327 p) = slots_ok p"
  "slots_ok (p_basicq_update g328 p) = slots_ok p" "slots_ok (p_q_update g329 p) = slots_ok p"
  "slots_ok (p_fastq_update g330 p) = slots_ok p" "slots_ok (p_cfg_update g331 p) = slots_ok p"
  "slots_ok (p_next_update g332 p) = slots_ok p" "slots_but x k (p_queueWake_update g400 p) = slots_but x k p"
  "slots_but x k (p_dlq_update g401 p) = slots_but x k p" "slots_but x k (p_gone_update g402 p) = slots_but x k p"
  "slots_but x k (p_jobPool_update g403 p) = slots_but x k p"
  by (simp_all add: slots_defs)

lemma field_futures [simp]:
  "futures_ok (p_queueWake_update g500 p) = futures_ok p" "futures_ok (p_ctxCancelled_update g501 p) = futures_ok p"
  "futures_ok (p_workers_update g502 p) = futures_ok p" "futures_ok (p_state_update g503 p) = futures_ok p"
  "futures_ok (p_seq_update g504 p) = futures_ok p" "futures_ok (p_started_update g505 p) = futures_ok p"
  "futures_ok (p_c_update g506 p) = futures_ok p" "futures_ok (p_idemp_update g507 p) = futures_ok p"
  "futures_ok (p_rates_update g508 p) = futures_ok p" "futures_ok (p_queueDefaults_update g509 p) = futures_ok p"
  "futures_ok (p_pausedQueues_update g510 p) = futures_ok p" "futures_ok (p_defaultOptions_update g511 p) = futures_ok p"
  "futures_ok (p_basicRunning_update g512 p) = futures_ok p" "futures_ok (p_basicTaken_update g513 p) = futures_ok p"
  "futures_ok (p_gone_update g514 p) = futures_ok p" "futures_ok (p_cancelled_update g515 p) = futures_ok p"
  "futures_ok (p_buckets_update g516 p) = futures_ok p" "futures_ok (p_nextBucket_update g517 p) = futures_ok p"
  "futures_ok (p_nextCtx_update g518 p) = futures_ok p" "futures_ok (p_closeOnce_update g519 p) = futures_ok p"
  "futures_ok (p_scaleStop_update g520 p) = futures_ok p" "futures_ok (p_lifecycle_update g521 p) = futures_ok p"
  "futures_ok (p_dlq_update g522 p) = futures_ok p" "futures_ok (p_jobs_update g523 p) = futures_ok p"
  "futures_ok (p_jobPool_update g524 p) = futures_ok p" "futures_ok (p_basicq_update g525 p) = futures_ok p"
  "futures_ok (p_next_update g526 p) = futures_ok p" "futures_ok (p_sem_update g527 p) = futures_ok p"
  "futures_ok (p_running_update g528 p) = futures_ok p" "futures_ok (p_unlimited_update g529 p) = futures_ok p"
  by (simp_all add: futures_defs)

lemma upd_attempts [simp]: "(\<And>q. job_const q (f q)) \<Longrightarrow> attempts_ok (upd_job x f p) = attempts_ok p"
proof -
  assume "\<And>q. job_const q (f q)"
  then have f: "may_run (f q) = may_run q" "may_end (f q) = may_end q" for q by (simp_all add: job_const_runs [of q])
  have "may_run (p_heap (upd_job x f p) y) = may_run (p_heap p y)" "may_end (p_heap (upd_job x f p) y) = may_end (p_heap p y)" for y
    by (simp_all add: f)
  then show ?thesis by (simp add: attempts_defs del: upd_job_frame(6))
qed

lemma field_balance [simp]:
  "balance (p_queueWake_update g25 p) = balance p" "balance (p_ctxCancelled_update g26 p) = balance p"
  "balance (p_workers_update g27 p) = balance p" "balance (p_state_update g28 p) = balance p"
  "balance (p_seq_update g29 p) = balance p" "balance (p_started_update g30 p) = balance p"
  "balance (p_idemp_update g31 p) = balance p" "balance (p_rates_update g32 p) = balance p"
  "balance (p_sem_update g33 p) = balance p" "balance (p_queueDefaults_update g34 p) = balance p"
  "balance (p_pausedQueues_update g35 p) = balance p" "balance (p_defaultOptions_update g36 p) = balance p"
  "balance (p_running_update g37 p) = balance p" "balance (p_cancelled_update g38 p) = balance p"
  "balance (p_buckets_update g39 p) = balance p" "balance (p_nextBucket_update g40 p) = balance p"
  "balance (p_nextCtx_update g41 p) = balance p" "balance (p_closeOnce_update g42 p) = balance p"
  "balance (p_scaleStop_update g43 p) = balance p" "balance (p_lifecycle_update g44 p) = balance p"
  "balance (p_futures_update g45 p) = balance p"
  by (simp_all add: balance_def inside_def)

lemma field_busy [simp]:
  "busy_gap (p_queueWake_update g46 p) = busy_gap p" "busy_gap (p_ctxCancelled_update g47 p) = busy_gap p"
  "busy_gap (p_workers_update g48 p) = busy_gap p" "busy_gap (p_state_update g49 p) = busy_gap p"
  "busy_gap (p_seq_update g50 p) = busy_gap p" "busy_gap (p_started_update g51 p) = busy_gap p"
  "busy_gap (p_idemp_update g52 p) = busy_gap p" "busy_gap (p_rates_update g53 p) = busy_gap p"
  "busy_gap (p_sem_update g54 p) = busy_gap p" "busy_gap (p_queueDefaults_update g55 p) = busy_gap p"
  "busy_gap (p_pausedQueues_update g56 p) = busy_gap p" "busy_gap (p_defaultOptions_update g57 p) = busy_gap p"
  "busy_gap (p_gone_update g58 p) = busy_gap p" "busy_gap (p_cancelled_update g59 p) = busy_gap p"
  "busy_gap (p_buckets_update g60 p) = busy_gap p" "busy_gap (p_nextBucket_update g61 p) = busy_gap p"
  "busy_gap (p_nextCtx_update g62 p) = busy_gap p" "busy_gap (p_closeOnce_update g63 p) = busy_gap p"
  "busy_gap (p_scaleStop_update g64 p) = busy_gap p" "busy_gap (p_lifecycle_update g65 p) = busy_gap p"
  "busy_gap (p_futures_update g66 p) = busy_gap p" "busy_gap (p_basicTaken_update g68 p) = busy_gap p"
  by (simp_all add: busy_gap_def)

lemma place_busy [simp]:
  "busy_gap (p_dlq_update g p) = busy_gap p" "busy_gap (p_jobs_update h p) = busy_gap p"
  "busy_gap (p_spill_update k p) = busy_gap p" "busy_gap (p_jobPool_update l p) = busy_gap p"
  by (simp_all add: busy_gap_def)

lemma gone_balance [simp]: "g = p_gone p + 1 \<Longrightarrow> balance (p\<lparr>p_gone := g\<rparr>) = balance p - 1"
  by (simp add: balance_def inside_def)

lemma untrack_job_jobs [simp]:
  "p_jobs (untrack_job opts p) =
     (if c_EnableJobTracking (p_cfg p) \<and> o_ID opts \<noteq> [] then AList.delete (o_ID opts) (p_jobs p) else p_jobs p)"
  by (simp add: untrack_job_def)

lemma observer_busy [simp]:
  "busy_gap (note_act a p) = busy_gap p" "busy_gap (emit e ev p) = busy_gap p"
  "busy_gap (emitJob e t x n er msg p) = busy_gap p" "busy_gap (job_hook h x n er p) = busy_gap p"
  "busy_gap (callback_call f x er p) = busy_gap p" "busy_gap (store_job x p) = busy_gap p"
  "busy_gap (upd_job x g p) = busy_gap p" "busy_gap (complete_future u er p) = busy_gap p"
  "busy_gap (untrack i p) = busy_gap p" "busy_gap (untrack_job opts p) = busy_gap p"
  "busy_gap (forget_key opts p) = busy_gap p" "busy_gap (store_dead x p) = busy_gap p"
  by (simp_all add: busy_gap_def)

lemma bump_busy [simp]:
  "busy_gap (bump (k_submitted_update f) p) = busy_gap p" "busy_gap (bump (k_rejected_update f) p) = busy_gap p"
  "busy_gap (bump (k_accepted_update f) p) = busy_gap p" "busy_gap (bump (k_completed_update f) p) = busy_gap p"
  "busy_gap (bump (k_started_update f) p) = busy_gap p" "busy_gap (bump (k_failed_update f) p) = busy_gap p"
  "busy_gap (bump (k_retried_update f) p) = busy_gap p" "busy_gap (bump (k_panicked_update f) p) = busy_gap p"
  "busy_gap (bump (k_timedout_update f) p) = busy_gap p" "busy_gap (bump (k_rateDelayed_update f) p) = busy_gap p"
  "busy_gap (bump (k_dlq_update f) p) = busy_gap p"
  "busy_gap (bump (k_busy_update (\<lambda>n. n + 1)) p) = busy_gap p + 1"
  "busy_gap (bump (k_busy_update (\<lambda>n. n - 1)) p) = busy_gap p - 1"
  by (simp_all add: busy_gap_def)

declare untrack_wf [simp]

subsection \<open>The ends of a job\<close>

lemma to_dlq_attempts:
  assumes "attempts_ok p" "held x p" "ds = p_dlq p @ [x]"
  shows "attempts_ok (leave x (p\<lparr>p_dlq := ds\<rparr>))"
  by (rule leave_attempts) (use assms in \<open>auto simp: attempts_defs held_def may_run_end\<close>)

lemma to_dlq:
  assumes wf: "pool_wf p" and h: "held x p" and ds: "ds = p_dlq p @ [x]"
  shows "pool_wf (leave x (p\<lparr>p_dlq := ds\<rparr>))"
    and "balance (leave x (p\<lparr>p_dlq := ds\<rparr>)) = balance p + charge x p"
proof -
  show "pool_wf (leave x (p\<lparr>p_dlq := ds\<rparr>))"
    by (rule move_wf [OF wf h])
      (use wf ds in \<open>auto simp: places_def fast_ptrs_def queues_ok_def tracked_ok_def pool_wf_def\<close>)
  show "balance (leave x (p\<lparr>p_dlq := ds\<rparr>)) = balance p + charge x p"
    unfolding leave_balance by (simp add: balance_def inside_def charge_def)
qed

text \<open>A job object that goes back to the \<open>sync.Pool\<close> must not be tracked any more.\<close>

definition untracked :: "nat \<Rightarrow> pool \<Rightarrow> bool" where
  "untracked x p \<longleftrightarrow> x \<notin> snd ` set (p_jobs p)"

lemma to_pool:
  assumes wf: "pool_wf p" and h: "held x p" and u: "untracked x p"
  shows "pool_wf (leave x (releaseJob x p))"
    and "balance (leave x (releaseJob x p)) = balance p + charge x p"
    and "busy_gap (leave x (releaseJob x p)) = busy_gap p"
    and "attempts_ok p \<Longrightarrow> attempts_ok (leave x (releaseJob x p))"
proof -
  show "attempts_ok (leave x (releaseJob x p))" if a: "attempts_ok p"
  proof (cases "qj_future (p_heap p x) \<noteq> None \<or> qj_state (p_heap p x) = JobDeadLettered")
    case True
    then show ?thesis using leave_attempts [OF a] by (auto simp: releaseJob_def)
  next
    case False
    have "add_mset x (places (leave x p)) = places p"
      using leave_mset [OF wf h] by (simp add: places_def fast_ptrs_def)
    then have "x \<notin># places (leave x p)" using wf unfolding pool_wf_def
      by (metis add_mset_remove_trivial count_add_mset count_eq_zero_iff le_zero_eq not_less_eq_eq One_nat_def)
    then have n: "x \<notin># queued_ptrs (leave x p)" "x \<notin> set (p_inflight (leave x p))" "x \<notin> set (p_dlq p)"
      by (auto simp: places_def queued_ptrs_def fast_ptrs_def simp del: mset_remove1)
    have "attempts_ok (leave x ((upd_job x (\<lambda>_. zero_job) p)\<lparr>p_jobPool := x # p_jobPool p\<rparr>))"
      using leave_attempts [OF a, of x] n by (auto simp: attempts_ok_def queued_ptrs_def fast_ptrs_def)
    with False show ?thesis by (simp add: releaseJob_def)
  qed
  show "pool_wf (leave x (releaseJob x p))"
  proof (cases "qj_future (p_heap p x) \<noteq> None \<or> qj_state (p_heap p x) = JobDeadLettered")
    case True
    then show ?thesis using leave_wf [OF wf h] by (auto simp: releaseJob_def)
  next
    case False
    let ?p = "(upd_job x (\<lambda>_. zero_job) p)\<lparr>p_jobPool := x # p_jobPool p\<rparr>"
    have eq: "releaseJob x p = ?p" using False by (simp add: releaseJob_def)
    have t: "tracked_ok (leave x ?p)"
      unfolding tracked_ok_def
    proof (intro conjI ballI)
      fix e assume e: "e \<in> set (p_jobs (leave x ?p))"
      obtain i y where iy: "e = (i, y)" by fastforce
      have "y \<noteq> x" using u e iy by (force simp: untracked_def)
      moreover have "i \<noteq> [] \<and> y < p_next p \<and> y \<notin> set (p_jobPool p) \<and> o_ID (qj_opts (p_heap p y)) = i"
        using wf e iy by (auto simp: pool_wf_def tracked_ok_def)
      ultimately show "case e of (i, y) \<Rightarrow> i \<noteq> [] \<and> y < p_next (leave x ?p) \<and> y \<notin> set (p_jobPool (leave x ?p)) \<and>
          o_ID (qj_opts (p_heap (leave x ?p) y)) = i"
        by (simp add: iy)
    qed (use wf in \<open>simp_all add: pool_wf_def tracked_ok_def\<close>)
    show ?thesis unfolding eq
    proof (rule move_wf [OF wf h _ _ t])
      show "places (leave x ?p) \<subseteq># add_mset x (places (leave x p))"
        by (simp add: places_def fast_ptrs_def)
    qed (use wf in \<open>simp_all add: queues_ok_def pool_wf_def\<close>)
  qed
  show "balance (leave x (releaseJob x p)) = balance p + charge x p"
    unfolding leave_balance by (auto simp: releaseJob_def balance_def inside_def charge_def)
  show "busy_gap (leave x (releaseJob x p)) = busy_gap p"
    by (simp add: releaseJob_def busy_gap_def)
qed

text \<open>Deleting the entry under the job's own identity untracks it.\<close>

lemma untracked_after_delete:
  assumes "pool_wf p"
  shows "untracked x (untrack_job (qj_opts (p_heap p x)) p)"
  using assms by (fastforce simp: untrack_job_def pool_wf_def tracked_ok_def untracked_def AList.delete_eq)

lemma deadletter_released:
  assumes wf: "pool_wf p" and h: "x \<in> set (p_inflight p)"
  shows "ended x p (balance p) (deadletter e x er p)"
proof -
  have held: "held x q" if "p_inflight q = p_inflight p" for q using h that by (simp add: held_def)
  have ch: "charge x q = 1" if "p_inflight q = p_inflight p" for q using h that by (simp add: charge_def)
  have nh: "\<not> held x (deadletter e x er p)"
  proof -
    have "p_submitting (deadletter e x er p) = remove1 x (p_submitting p)" "p_inflight (deadletter e x er p) = remove1 x (p_inflight p)"
      by (simp_all add: deadletter_def Let_def)
    then show ?thesis using leave_not_held [OF wf, of x] h by (simp add: held_def)
  qed
  show ?thesis
    unfolding ended_def released_def using nh
    by (simp add: deadletter_def Let_def wf to_dlq to_dlq_attempts held ch leave_slots slots_ok_but)
qed

end
