(* ===== verification/Pool_Preserve.thy ===== *)
theory Pool_Preserve
  imports Pool_Moves
begin

text \<open>
  Every operation of the pool keeps \<open>pool_wf\<close>, the balance of the accepted jobs, the agreement of the
  busy counter and of the semaphore with the running jobs, the limit of attempts and the promise
  of the futures, whatever the other goroutines do while it waits
  within \<open>rely\<close>.
\<close>

lemma charge_iff: "x \<in> set (p_inflight p) \<longleftrightarrow> charge x p = 1"
  by (simp add: charge_def)

lemma stays_inflight: "stays x p0 p \<Longrightarrow> x \<in> set (p_inflight p0) \<Longrightarrow> x \<in> set (p_inflight p)"
  by (simp add: charge_iff stays_def)

lemma stays_observer [simp]:
  "stays x p0 (note_act a p) = stays x p0 p" "stays x p0 (emit e ev p) = stays x p0 p"
  "stays x p0 (emitJob e t y n er msg p) = stays x p0 p" "stays x p0 (job_hook h y n er p) = stays x p0 p"
  "stays x p0 (callback_call f y er p) = stays x p0 p" "stays x p0 (store_job y p) = stays x p0 p"
  "stays x p0 (bump (k_rateDelayed_update g) p) = stays x p0 p" "stays x p0 (bump (k_failed_update g) p) = stays x p0 p"
  "stays x p0 (bump (k_retried_update g) p) = stays x p0 p" "stays x p0 (bump (k_timedout_update g) p) = stays x p0 p"
  "stays x p0 (bump (k_panicked_update g) p) = stays x p0 p"
  "stays x p0 (p\<lparr>p_buckets := b\<rparr>) = stays x p0 p"
  by (simp_all add: stays_def held_def charge_def)

lemma stays_upd [simp]: "(\<And>q. job_const q (f q)) \<Longrightarrow> stays x p0 (upd_job x f p) = stays x p0 p"
proof -
  assume f: "\<And>q. job_const q (f q)"
  have o: "qj_opts (f q) = qj_opts q" "qj_future (f q) = qj_future q" for q using f by (simp_all add: job_const_def)
  have "job_const (p_heap p0 x) (f (p_heap p x)) = job_const (p_heap p0 x) (p_heap p x)"
    using f [of "p_heap p x"] by (auto simp: job_const_def)
  then show ?thesis by (simp add: stays_def held_def charge_def o upd_attempts [OF f])
qed

lemma released_observer [simp]:
  "released x p0 b (emitJob e t y n er msg p) = released x p0 b p"
  "released x p0 b (signalQueueWake p) = released x p0 b p"
  by (simp_all add: released_def signalQueueWake_def held_def)

lemma job_item_value [simp]: "it_Value (job_item x p) = x"
  by (simp add: job_item_def)

text \<open>The result of a push after some waiting.\<close>

lemma handed:
  assumes "stays x p0 q" "if ok then released x q (balance q + charge x q - 1) p' \<and> p_heap p' = p_heap q else p' = q"
  shows "if ok then released x p0 (balance p0 + charge x p0 - 1) p' else stays x p0 p'"
proof (cases ok)
  case True
  with assms have "released x q (balance p0 + charge x p0 - 1) p'" by (simp add: stays_def)
  from released_stays [OF assms(1) this] True show ?thesis by simp
qed (use assms in simp)

subsection \<open>Requeueing\<close>

lemma pushBlock_spec:
  assumes st: "stays (it_Value it) p0 p" and rr: "rely_rounds (it_Value it) rs" and r: "pushBlock e rs it p = Some (ok, p')"
  shows "if ok then released (it_Value it) p0 (balance p0 + charge (it_Value it) p0 - 1) p' else stays (it_Value it) p0 p'"
proof -
  let ?x = "it_Value it"
  obtain d where "spin_push (try_q it) d rs p = Some (ok, p')" using r by (auto simp: pushBlock_def Let_def)
  then have "\<exists>q. stays ?x p0 q \<and> try_q it q = (ok, p')"
  proof (rule spin_push_end [where K = "stays ?x p0"])
    show "stays ?x p0 p" by (rule st)
    show "\<forall>(t, f) \<in> set rs. \<forall>p. stays ?x p0 p \<longrightarrow> stays ?x p0 (f p)" by (rule rely_rounds_stays [OF rr])
    show "stays ?x p0 p'" if "stays ?x p0 p" "try_q it p = (False, p')" for p p'
      using that try_q_spec [of p it False p'] by (auto simp: stays_def)
  qed
  then obtain q where q: "stays ?x p0 q" "try_q it q = (ok, p')" by blast
  then have "pool_wf q" "held ?x q" by (auto simp: stays_def)
  from handed [OF q(1) try_q_spec [OF this q(2)]] show ?thesis .
qed

lemma requeue_or_dead_released:
  assumes st: "stays x p0 p" and x: "x \<in> set (p_inflight p0)" and rr: "rely_rounds x rs"
    and r: "requeue_or_dead e rs x p = Some p'"
  shows "released x p0 (balance p0) p'"
proof -
  obtain ok q where q: "pushBlock e rs (job_item x p) p = Some (ok, q)"
    and p': "p' = (if ok then signalQueueWake q else deadletter e x (Some ErrQueueFull) q)"
    using r by (auto simp: requeue_or_dead_def requeue_def split: option.splits if_splits)
  have ch: "charge x p0 = 1" using x by (simp add: charge_def)
  note spec = pushBlock_spec [of "job_item x p" p0 p, simplified, OF st rr q]
  show ?thesis
  proof (cases ok)
    case True
    with spec p' ch show ?thesis by simp
  next
    case False
    with spec have s: "stays x p0 q" by simp
    have "ended x q (balance q) (deadletter e x (Some ErrQueueFull) q)"
      using s by (intro deadletter_released) (simp_all add: stays_inflight [OF s x], simp add: stays_def)
    from ended_stays [OF s this] s False p' show ?thesis by (simp add: ended_def stays_def)
  qed
qed

subsection \<open>Before and after the run\<close>

lemma release_futures:
  assumes p: "futures_ok q" and a: "answered q x"
  shows "futures_ok (leave x (releaseJob x q))"
proof (rule leave_futures)
  have f: "p_futures (releaseJob x q) = p_futures q" "p_cfg (releaseJob x q) = p_cfg q" by (simp_all add: releaseJob_def)
  have h: "qj_future (p_heap (releaseJob x q) y) = qj_future (p_heap q y)" for y
    by (simp add: releaseJob_def zero_job_def)
  show "futures_ok (releaseJob x q)"
    by (rule futures_ok_mono [OF f h _ p]) (auto simp: releaseJob_def live_def fast_ptrs_def)
  show "answered (releaseJob x q) x" using a h f by (simp add: answered_def)
qed

lemma released_to_pool:
  assumes wf: "pool_wf q" and x: "x \<in> set (p_inflight q)" and u: "untracked x q"
    and an: "futures_ok q \<longrightarrow> answered q x"
  shows "ended x q (balance q + 1) (leave x (releaseJob x q))"
proof -
  have h: "held x q" "charge x q = 1" using x by (simp_all add: held_def charge_def)
  have "\<not> held x (leave x (releaseJob x q))"
    using leave_not_held [OF wf, of x] by (simp add: releaseJob_def held_def)
  moreover have "slots_ok q \<longrightarrow> slots_but x (key_of q x) (leave x (releaseJob x q))"
    using slots_ok_but [OF _ refl, of q x] by (simp add: releaseJob_def leave_slots)
  moreover have "futures_ok q \<longrightarrow> futures_ok (leave x (releaseJob x q))" using release_futures an by blast
  ultimately show ?thesis using to_pool [OF wf h(1) u] h by (auto simp: ended_def released_def releaseJob_def)
qed

lemma cancel_record_spec:
  assumes "pool_wf p"
  shows "pool_wf (cancel_record e x p)" "balance (cancel_record e x p) = balance p - 1"
    "busy_gap (cancel_record e x p) = busy_gap p" "p_inflight (cancel_record e x p) = p_inflight p"
    "p_running (cancel_record e x p) = p_running p" "p_cfg (cancel_record e x p) = p_cfg p" "p_next (cancel_record e x p) = p_next p"
    "p_state (cancel_record e x p) = p_state p" "attempts_ok (cancel_record e x p) = attempts_ok p"
    "may_run (p_heap (cancel_record e x p) x) = may_run (p_heap p x)" "slots_ok (cancel_record e x p) = slots_ok p"
    "key_of (cancel_record e x p) x = key_of p x" "futures_ok p \<Longrightarrow> futures_ok (cancel_record e x p)"
    "futures_ok (cancel_record e x p) \<Longrightarrow> answered (cancel_record e x p) x"
    "p_jobs (cancel_record e x p) = p_jobs (untrack_job (qj_opts (p_heap p x)) p)"
  unfolding cancel_record_def Let_def
  by (simp_all add: assms may_run_def) (simp add: key_of_def, auto simp: answered_def futures_ok_def complete_future_answers)

lemma succeed_record_spec:
  assumes "pool_wf p"
  shows "pool_wf (succeed_record e x p)" "balance (succeed_record e x p) = balance p - 1"
    "busy_gap (succeed_record e x p) = busy_gap p" "p_inflight (succeed_record e x p) = p_inflight p"
    "p_running (succeed_record e x p) = p_running p" "p_cfg (succeed_record e x p) = p_cfg p" "p_next (succeed_record e x p) = p_next p"
    "p_state (succeed_record e x p) = p_state p" "attempts_ok (succeed_record e x p) = attempts_ok p"
    "may_run (p_heap (succeed_record e x p) x) = may_run (p_heap p x)" "slots_ok (succeed_record e x p) = slots_ok p"
    "key_of (succeed_record e x p) x = key_of p x" "futures_ok p \<Longrightarrow> futures_ok (succeed_record e x p)"
    "futures_ok (succeed_record e x p) \<Longrightarrow> answered (succeed_record e x p) x"
    "p_jobs (succeed_record e x p) = p_jobs (untrack_job (qj_opts (p_heap p x)) p)"
  unfolding succeed_record_def Let_def
  by (simp_all add: assms may_run_def) (simp add: key_of_def, auto simp: answered_def futures_ok_def complete_future_answers)

lemma cancel_queued_released:
  assumes wf: "pool_wf p" and x: "x \<in> set (p_inflight p)"
  shows "ended x p (balance p) (cancel_queued e x p)"
proof -
  note c = cancel_record_spec [OF wf, of e x]
  have "untracked x (cancel_record e x p)"
    using untracked_after_delete [OF wf, of x] by (simp add: untracked_def c)
  from released_to_pool [OF c(1) _ this] x show ?thesis
    by (simp add: cancel_queued_def ended_def released_def c)
qed

lemma succeed_job_released:
  assumes wf: "pool_wf p" and x: "x \<in> set (p_inflight p)"
  shows "ended x p (balance p) (succeed_job e x p)"
proof -
  note c = succeed_record_spec [OF wf, of e x]
  have "untracked x (succeed_record e x p)"
    using untracked_after_delete [OF wf, of x] by (simp add: untracked_def c)
  from released_to_pool [OF c(1) _ this] x show ?thesis
    by (simp add: succeed_job_def ended_def released_def c)
qed

lemma start_job_spec:
  assumes wf: "pool_wf p" and x: "x \<in> set (p_inflight p)"
  shows "pool_wf (start_job e x p)" "balance (start_job e x p) = balance p" "busy_gap (start_job e x p) = busy_gap p"
    "p_inflight (start_job e x p) = p_inflight p" "x \<in> set (p_running (start_job e x p))"
    "p_cfg (start_job e x p) = p_cfg p" "futures_ok (start_job e x p) = futures_ok p" "p_next (start_job e x p) = p_next p" "p_state (start_job e x p) = p_state p" "qj_opts (p_heap (start_job e x p) x) = qj_opts (p_heap p x)"
    "qj_attempt (p_heap (start_job e x p) x) = qj_attempt (p_heap p x) + 1"
  unfolding start_job_def Let_def by (simp_all add: wf) (simp add: busy_gap_def)

lemma inflight_only:
  assumes wf: "pool_wf p" and x: "x \<in> set (p_inflight p)"
  shows "x \<notin># queued_ptrs p" "x \<notin> set (p_dlq p)"
proof -
  have c: "count (places p) x \<le> 1" using wf by (simp add: pool_wf_def)
  have "count (places p) x = count (queued_ptrs p) x + count (mset (p_inflight p)) x + count (mset (p_dlq p)) x + count (mset (p_jobPool p)) x"
    by (simp add: places_def queued_ptrs_def)
  moreover have "count (mset (p_inflight p)) x = 1" using held_once(1) [OF wf x] by simp
  ultimately have "count (queued_ptrs p) x = 0" "count (mset (p_dlq p)) x = 0" using c by linarith+
  then show "x \<notin># queued_ptrs p" "x \<notin> set (p_dlq p)" by (simp_all add: count_eq_zero_iff)
qed

lemma users_simps [simp]:
  "users key k [] = 0" "users key k (x # run) = (if key x = k then Suc (users key k run) else users key k run)"
  by (simp_all add: users_def)

text \<open>A job starts with the slot that \<open>tryAcquire\<close> gave it.\<close>

lemma start_job_slots:
  assumes ok: "slots_ok p" and x: "x \<in> set (p_inflight p)" "x \<notin> set (p_running p)"
    and a: "tryAcquire (o_ConcurrencyKey (qj_opts (p_heap p x))) (o_MaxConcurrentPerKey (qj_opts (p_heap p x))) (p_sem p) = (True, s)"
  shows "slots_ok (start_job e x (p\<lparr>p_sem := s\<rparr>))"
proof -
  let ?p = "start_job e x (p\<lparr>p_sem := s\<rparr>)"
  have fr: "p_inflight ?p = p_inflight p" "p_running ?p = x # p_running p" "p_sem ?p = s" "key_of ?p = key_of p"
    "p_unlimited ?p = (p_unlimited p)(key_of p x := p_unlimited p (key_of p x) \<or> o_MaxConcurrentPerKey (qj_opts (p_heap p x)) \<le> 0)"
    by (simp_all add: start_job_def Let_def key_of_def fun_eq_iff)
  have u: "slots (key_of p) (p_running p) (p_sem p) (p_unlimited p)" using ok by (simp add: slots_ok_def)
  have "slots (key_of p) (x # p_running p) s (p_unlimited ?p)"
    unfolding slots_def
  proof (intro conjI allI impI)
    show "distinct (x # p_running p)" using u x(2) by (simp add: slots_def)
    fix k :: string assume k: "k \<noteq> []"
    have c: "0 \<le> p_sem p k" "p_sem p k \<le> int (users (key_of p) k (p_running p))"
      "\<not> p_unlimited p k \<longrightarrow> p_sem p k = int (users (key_of p) k (p_running p))"
      using u k by (auto simp: slots_def)
    show "0 \<le> s k" "s k \<le> int (users (key_of p) k (x # p_running p))"
      using a c by (auto simp: tryAcquire_def key_of_def split: if_splits)
    show "s k = int (users (key_of p) k (x # p_running p))" if "\<not> p_unlimited ?p k"
      using a c that k unfolding fr by (auto simp: tryAcquire_def key_of_def split: if_splits)
  qed
  with ok x(1) show ?thesis by (simp add: slots_ok_def fr)
qed

lemma start_job_attempts:
  assumes wf: "pool_wf p" and x: "x \<in> set (p_inflight p)" and a: "attempts_ok p" "may_run (p_heap p x)"
  shows "attempts_ok (start_job e x p)"
proof -
  note n = inflight_only [OF wf x]
  have fr: "p_cfg (start_job e x p) = p_cfg p" "queued_ptrs (start_job e x p) = queued_ptrs p"
    "p_inflight (start_job e x p) = p_inflight p" "p_running (start_job e x p) = x # p_running p" "p_dlq (start_job e x p) = p_dlq p"
    "y \<noteq> x \<Longrightarrow> p_heap (start_job e x p) y = p_heap p y" for y
    by (simp_all add: start_job_def Let_def queued_ptrs_def fast_ptrs_def)
  have "may_end (p_heap (start_job e x p) x)"
    using a(2) start_job_spec [OF wf x, of e] by (simp add: may_run_def may_end_def)
  then show ?thesis using a(1) n fr by (auto simp: attempts_ok_def) metis+
qed

lemma delayForRateLimit_spec:
  assumes wf: "pool_wf p" and x: "x \<in> set (p_inflight p)" and rr: "rely_rounds x rs"
    and r: "delayForRateLimit e rs x p = Some (b, p')"
  shows "if b then released x p (balance p) p' else stays x p p'"
proof -
  have st: "stays x p p" using wf x by (simp add: stays_refl held_def)
  have dead: "released x p (balance p) p'" if "requeue_or_dead e rs x q = Some p'" "stays x p q" for q
    using requeue_or_dead_released [OF that(2) x rr that(1)] .
  show ?thesis
    using r st
    by (auto simp: delayForRateLimit_def Let_def intro!: dead split: if_splits option.splits prod.splits)
qed

lemma execute_begin_spec:
  assumes wf: "pool_wf p" and x: "x \<in> set (p_inflight p)" and rr: "rely_rounds x rs"
    and r: "execute_begin e rs x p = Some (b, p')"
  shows "pool_wf p' \<and> balance p' = balance p \<and> busy_gap p' = busy_gap p \<and> p_cfg p' = p_cfg p \<and> p_next p \<le> p_next p' \<and> (halted (p_state p) \<longrightarrow> halted (p_state p')) \<and>
    (x \<notin> set (p_running p) \<longrightarrow> attempts_ok p \<longrightarrow> attempts_ok p') \<and>
    (x \<notin> set (p_running p) \<longrightarrow> slots_ok p \<longrightarrow> slots_ok p') \<and> (futures_ok p \<longrightarrow> futures_ok p') \<and>
    (if b then x \<in> set (p_inflight p') \<and> x \<in> set (p_running p')
     else \<not> held x p' \<and> (x \<in> set (p_running p') \<longleftrightarrow> x \<in> set (p_running p)))"
proof -
  define q where "q = emitJob e EventJobDequeued x (qj_attempt (p_heap p x)) None '''' p"
  have q: "pool_wf q" "x \<in> set (p_inflight q)" "balance q = balance p" "busy_gap q = busy_gap p"
    "p_cfg q = p_cfg p" "p_running q = p_running p" "p_next q = p_next p" "p_state q = p_state p"
    "attempts_ok q = attempts_ok p" "slots_ok q = slots_ok p" "futures_ok q = futures_ok p"
    using wf x by (simp_all add: q_def)
  have fin: ?thesis if "released x q (balance q) p'" "\<not> b"
    using that q slots_but_ok [of x "key_of q x" p'] by (auto simp: released_def attempts_ok_def)
  have st: "stays x q q" using q by (simp add: stays_refl held_def)
  consider (cancel) "p' = cancel_queued e x q" "\<not> b"
    | (paused) s where "stays x q s" "requeue_or_dead e rs x s = Some p'" "\<not> b"
    | (delayed) "delayForRateLimit e rs x q = Some (True, p')" "\<not> b"
    | (start) s s' where "delayForRateLimit e rs x q = Some (False, s)" "p' = start_job e x (s\<lparr>p_sem := s'\<rparr>)" "b"
        "tryAcquire (o_ConcurrencyKey (qj_opts (p_heap s x))) (o_MaxConcurrentPerKey (qj_opts (p_heap s x))) (p_sem s) = (True, s')"
    | (full) s where "delayForRateLimit e rs x q = Some (False, s)" "\<not> b"
        "\<exists>s1. stays x s s1 \<and> requeue_or_dead e rs x s1 = Some p'"
  proof -
    note cases = that
    show thesis
    proof (cases "case qj_ctx (p_heap q x) of None \<Rightarrow> False | Some c \<Rightarrow> ctx_Err q c \<noteq> None")
      case True
      then show thesis using r cases(1) by (auto simp: execute_begin_def q_def [symmetric] Let_def)
    next
      case False
      show thesis
      proof (cases "isQueuedPaused x q")
        case True
        let ?s = "upd_job x (\<lambda>q. q\<lparr>qj_state := JobQueued\<rparr>)
            (upd_job x (\<lambda>q. q\<lparr>qj_runAt := e_now e 14 + 50 * Millisecond\<rparr>) q)"
        from True False r have "requeue_or_dead e rs x ?s = Some p' \<and> \<not> b"
          by (auto simp: execute_begin_def q_def [symmetric] Let_def)
        moreover have "stays x q ?s" using st by simp
        ultimately show thesis using cases(2) by blast
      next
        case np: False
        obtain d s where d: "delayForRateLimit e rs x q = Some (d, s)"
          using r False np by (auto simp: execute_begin_def q_def [symmetric] Let_def split: option.splits)
        show thesis
        proof (cases d)
          case True
          with d r False np show thesis by (intro cases(3)) (auto simp: execute_begin_def q_def [symmetric] Let_def)
        next
          case nd: False
          have "stays x s s"
            using delayForRateLimit_spec [OF q(1,2) rr d] nd stays_refl by (auto simp: stays_def)
          obtain ok s' where acq: "tryAcquire (o_ConcurrencyKey (qj_opts (p_heap s x)))
              (o_MaxConcurrentPerKey (qj_opts (p_heap s x))) (p_sem s) = (ok, s')" by fastforce
          have d': "delayForRateLimit e rs x q = Some (False, s)" using d nd by simp
          show thesis
          proof (cases ok)
            case True
            with d' r False np acq show thesis
              by (intro cases(4) [OF d', of s']) (auto simp: execute_begin_def q_def [symmetric] Let_def)
          next
            case refused: False
            let ?s = "upd_job x (\<lambda>q. q\<lparr>qj_state := JobQueued\<rparr>)
                (upd_job x (\<lambda>q. q\<lparr>qj_runAt := e_now e 16 + 5 * Millisecond\<rparr>)
                  (emitJob e EventJobConcurrencyDelayed x (qj_attempt (p_heap s x)) None ''concurrency limit'' (s\<lparr>p_sem := s'\<rparr>)))"
            have "requeue_or_dead e rs x ?s = Some p' \<and> \<not> b"
              using d' r False np acq refused by (auto simp: execute_begin_def q_def [symmetric] Let_def)
            moreover have "s' = p_sem s" using acq refused by (auto simp: tryAcquire_def split: if_splits)
            then have "stays x s ?s" using \<open>stays x s s\<close> by simp
            ultimately show thesis using cases(5) [OF d'] by blast
          qed
        qed
      qed
    qed
  qed
  then show ?thesis
  proof cases
    case cancel
    with cancel_queued_released [OF q(1,2)] fin show ?thesis by (simp add: ended_def)
  next
    case paused
    from requeue_or_dead_released [OF paused(1) q(2) rr paused(2)] paused(3) fin show ?thesis by simp
  next
    case delayed
    from delayForRateLimit_spec [OF q(1,2) rr delayed(1)] delayed(2) fin show ?thesis by simp
  next
    case start
    have s: "stays x q s" using delayForRateLimit_spec [OF q(1,2) rr start(1)] by simp
    have w: "pool_wf (s\<lparr>p_sem := s'\<rparr>)" "x \<in> set (p_inflight (s\<lparr>p_sem := s'\<rparr>))"
      using s stays_inflight [OF s q(2)] by (simp_all add: stays_def)
    have "attempts_ok p'" if a: "x \<notin> set (p_running p)" "attempts_ok p"
    proof -
      have "attempts_ok s" "x \<notin> set (p_running s)" using s a q by (simp_all add: stays_def)
      with stays_inflight [OF s q(2)] have "may_run (p_heap s x)" by (simp add: attempts_ok_def)
      with \<open>attempts_ok s\<close> show ?thesis using start_job_attempts [OF w] start(2) by simp
    qed
    moreover have "slots_ok p'" if a: "x \<notin> set (p_running p)" "slots_ok p"
    proof -
      have "slots_ok s" "x \<notin> set (p_running s)" using s a q by (simp_all add: stays_def)
      then show ?thesis using start_job_slots [OF _ stays_inflight [OF s q(2)] _ start(4)] start(2) by simp
    qed
    ultimately show ?thesis using start_job_spec [OF w] start s q stays_inflight [OF s q(2)] by (simp add: stays_def)
  next
    case full
    have s: "stays x q s" using delayForRateLimit_spec [OF q(1,2) rr full(1)] by simp
    obtain s1 where "stays x s s1" "requeue_or_dead e rs x s1 = Some p'" using full(3) by blast
    from requeue_or_dead_released [OF stays_trans [OF s this(1)] q(2) rr this(2)] full(2) fin show ?thesis by simp
  qed
qed

text \<open>A job that starts has its slot within its limit.\<close>

lemma execute_begin_started:
  assumes "execute_begin e rs x p = Some (True, p')"
  shows "\<exists>s s'. delayForRateLimit e rs x (emitJob e EventJobDequeued x (qj_attempt (p_heap p x)) None [] p) = Some (False, s) \<and>
    tryAcquire (o_ConcurrencyKey (qj_opts (p_heap s x))) (o_MaxConcurrentPerKey (qj_opts (p_heap s x))) (p_sem s) = (True, s') \<and>
    p' = start_job e x (s\<lparr>p_sem := s'\<rparr>)"
  using assms by (auto simp: execute_begin_def Let_def split: if_splits option.splits prod.splits bool.splits)

lemma started_within_limit:
  assumes wf: "pool_wf p" and x: "x \<in> set (p_inflight p)" and rr: "rely_rounds x rs"
    and r: "execute_begin e rs x p = Some (True, p')"
    and k: "k = o_ConcurrencyKey (qj_opts (p_heap p x))" "k \<noteq> []" and l: "0 < o_MaxConcurrentPerKey (qj_opts (p_heap p x))"
  shows "p_sem p' k \<le> o_MaxConcurrentPerKey (qj_opts (p_heap p x))"
proof -
  let ?q = "emitJob e EventJobDequeued x (qj_attempt (p_heap p x)) None [] p"
  obtain s s' where s: "delayForRateLimit e rs x ?q = Some (False, s)" "p' = start_job e x (s\<lparr>p_sem := s'\<rparr>)"
    "tryAcquire (o_ConcurrencyKey (qj_opts (p_heap s x))) (o_MaxConcurrentPerKey (qj_opts (p_heap s x))) (p_sem s) = (True, s')"
    using execute_begin_started [OF r] by blast
  have "stays x ?q s" using delayForRateLimit_spec [of ?q x rs e False s] wf x rr s(1) by simp
  then have "qj_opts (p_heap s x) = qj_opts (p_heap p x)" by (simp add: stays_def job_const_def)
  then have "s' k \<le> o_MaxConcurrentPerKey (qj_opts (p_heap p x))"
    using s(3) k l by (auto simp: tryAcquire_def split: if_splits)
  moreover have "p_sem p' = s'" by (simp add: s(2) start_job_def Let_def)
  ultimately show ?thesis by simp
qed

lemma fail_job_released:
  assumes wf: "pool_wf p" and x: "x \<in> set (p_inflight p)" and rr: "rely_rounds x rs"
    and r: "fail_job e rs x er p = Some p'"
  shows "ended x p (balance p) p'"
proof -
  have st: "stays x p p" using wf x by (simp add: stays_refl held_def)
  have dead: "ended x p (balance p) p'"
    if "requeue_or_dead e rs x q = Some p'" "stays x p q" "qj_attempt (p_heap p x) < o_MaxAttempts (qj_opts (p_heap p x))" for q
  proof -
    have "attempts_ok p \<longrightarrow> may_run (p_heap p x)" using x that(3) by (auto simp: attempts_ok_def may_run_def may_end_def)
    with requeue_or_dead_released [OF that(2) x rr that(1)] show ?thesis by (auto simp: ended_def released_def)
  qed
  have dl: "ended x p (balance p) (deadletter e x r q)" if "stays x p q" for q r
    using ended_stays [OF that deadletter_released [of q x e r]] stays_inflight [OF that x] that by (simp add: stays_def)
  show ?thesis
    using r st
    by (cases er) (auto simp: fail_job_def retry_job_def Let_def simp del: State_less_simps intro!: dead dl split: if_splits)
qed

lemma run_result_stays:
  assumes "stays x p0 p" "run_result e wid x r p = (er, q)"
  shows "stays x p0 q"
  using assms
  by (auto simp: run_result_def recover_panic_def Let_def split: run_outcome.splits if_splits)

text \<open>The deferred calls give the slot back.\<close>

lemma users_remove1: "distinct run \<Longrightarrow> x \<in> set run \<Longrightarrow> users key k run = users key k (remove1 x run) + (if key x = k then 1 else 0)"
  by (induction run) auto

lemma end_run_slots:
  assumes b: "slots_but x k p" and x: "x \<in> set (p_running p)" "x \<notin> set (p_inflight p)"
  shows "slots_ok (end_run x k p)"
proof -
  let ?key = "(key_of p)(x := k)" and ?run = "remove1 x (p_running p)"
  have u: "slots ?key (p_running p) (p_sem p) (p_unlimited p)" and sub: "set (p_running p) \<subseteq> insert x (set (p_inflight p))"
    using b by (simp_all add: slots_but_def)
  then have d: "distinct (p_running p)" by (simp add: slots_def)
  have "slots ?key ?run (release k (p_sem p)) (p_unlimited p)"
    unfolding slots_def
  proof (intro conjI allI impI)
    fix j :: string assume j: "j \<noteq> []"
    have c: "0 \<le> p_sem p j" "p_sem p j \<le> int (users ?key j (p_running p))"
      "\<not> p_unlimited p j \<longrightarrow> p_sem p j = int (users ?key j (p_running p))"
      using u j by (auto simp: slots_def)
    note m = users_remove1 [OF d x(1), of ?key j]
    show "0 \<le> release k (p_sem p) j" using c by (simp add: release_def)
    show "release k (p_sem p) j \<le> int (users ?key j ?run)"
      using c m j by (auto simp: release_def split: if_splits)
    show "release k (p_sem p) j = int (users ?key j ?run)" if "\<not> p_unlimited p j"
      using c m that j by (auto simp: release_def split: if_splits)
  qed (use d in simp)
  moreover have "slots ?key ?run s u = slots (key_of p) ?run s u" for s u
    using d by (intro slots_cong) auto
  moreover have "key_of (end_run x k p) = key_of p" by (simp add: end_run_def Let_def key_of_def)
  moreover have "set ?run \<subseteq> set (p_inflight p)" using sub d by auto
  ultimately show ?thesis by (simp add: slots_ok_def end_run_def Let_def)
qed

lemma execute_finish_spec:
  assumes wf: "pool_wf p" and x: "x \<in> set (p_inflight p)" and run: "x \<in> set (p_running p)"
    and rr: "rely_rounds x rs" and r: "execute_finish e rs wid x t p = Some p'"
  shows "pool_wf p' \<and> balance p' = balance p \<and> busy_gap p' = busy_gap p \<and> p_cfg p' = p_cfg p \<and> p_next p \<le> p_next p' \<and>
    (halted (p_state p) \<longrightarrow> halted (p_state p')) \<and> (attempts_ok p \<longrightarrow> attempts_ok p') \<and> (slots_ok p \<longrightarrow> slots_ok p') \<and>
    (futures_ok p \<longrightarrow> futures_ok p') \<and> \<not> held x p'"
proof -
  obtain er q where q: "run_result e wid x t p = (er, q)" by fastforce
  have st: "stays x p q" using run_result_stays [OF _ q] wf x by (simp add: stays_refl held_def)
  have xq: "x \<in> set (p_inflight q)" by (rule stays_inflight [OF st x])
  have wq: "pool_wf q" using st by (simp add: stays_def)
  obtain s where s: "(if er = None then Some (succeed_job e x q) else fail_job e rs x er q) = Some s"
    and p': "p' = end_run x (o_ConcurrencyKey (qj_opts (p_heap p x))) s"
    using r q by (auto simp: execute_finish_def Let_def)
  have "ended x q (balance q) s"
    using s succeed_job_released [OF wq xq, of e] fail_job_released [OF wq xq rr] by (auto split: if_splits)
  then have en: "ended x p (balance p) s" using ended_stays [OF st] st by (simp add: stays_def)
  then have rel: "released x p (balance p) s" by (simp add: ended_def)
  have at: "attempts_ok p \<longrightarrow> attempts_ok p'"
  proof
    assume "attempts_ok p"
    then have "attempts_ok s" "x \<notin> set (p_inflight s)" using en by (simp_all add: ended_def released_def held_def)
    then show "attempts_ok p'" unfolding p' end_run_def Let_def
      by (auto simp: attempts_defs) (metis in_set_remove1)+
  qed
  have sl: "slots_ok p \<longrightarrow> slots_ok p'"
    using end_run_slots [of x "key_of p x" s] rel run p' by (auto simp: released_def held_def key_of_def)
  from rel have "x \<in> set (p_running s)" using run by (simp add: released_def)
  then have "int (length (p_running s)) = int (length (remove1 x (p_running s))) + 1"
    by (simp add: length_remove1) (metis Suc_pred length_pos_if_in_set of_nat_Suc add.commute)
  with rel at sl show ?thesis unfolding p' end_run_def Let_def
    by (simp add: released_def) (simp add: busy_gap_def held_def)
qed

end
