(* ===== verification/Pool_Preserve_Submit.thy ===== *)
theory Pool_Preserve_Submit
  imports Pool_Preserve
begin

text \<open>
  The invariant through \<open>submit\<close>: a new job object is in the submitter's hands only, is indexed
  under its identity, and ends in exactly one queue or back in the \<open>sync.Pool\<close>.

  \<open>steady f\<close> is what a goroutine without a job relies on.  The functions of the rounds may finish the
  jobs \<open>B\<close> that the other goroutines hold when the call begins; \<open>polite B f\<close> adds \<open>rely\<close> for every other
  job.
\<close>

definition steady :: "(pool \<Rightarrow> pool) \<Rightarrow> bool" where
  "steady f \<longleftrightarrow> (\<forall>p. pool_wf p \<longrightarrow> pool_wf (f p) \<and> balance (f p) = balance p \<and> busy_gap (f p) = busy_gap p \<and>
     p_cfg (f p) = p_cfg p \<and> p_next p \<le> p_next (f p) \<and> (halted (p_state p) \<longrightarrow> halted (p_state (f p))) \<and>
     (attempts_ok p \<longrightarrow> attempts_ok (f p)) \<and> (slots_ok p \<longrightarrow> slots_ok (f p)) \<and> (futures_ok p \<longrightarrow> futures_ok (f p)))"

definition polite :: "nat set \<Rightarrow> (pool \<Rightarrow> pool) \<Rightarrow> bool" where
  "polite B f \<longleftrightarrow> steady f \<and> (\<forall>x. x \<notin> B \<longrightarrow> rely x f)"

definition polite_rounds :: "nat set \<Rightarrow> round list \<Rightarrow> bool" where
  "polite_rounds B rs \<longleftrightarrow> (\<forall>(t, f) \<in> set rs. polite B f)"

lemma polite_id: "polite B (\<lambda>p. p)"
  by (simp add: polite_def steady_def rely_id)

lemma polite_rely: "polite_rounds B rs \<Longrightarrow> x \<notin> B \<Longrightarrow> rely_rounds x rs"
  by (auto simp: polite_rounds_def rely_rounds_def polite_def)

text \<open>The jobs of \<open>B\<close> exist, and the \<open>sync.Pool\<close> does not hand them out.\<close>

definition others_hold :: "nat set \<Rightarrow> env \<Rightarrow> pool \<Rightarrow> bool" where
  "others_hold B e p \<longleftrightarrow> (\<forall>y \<in> B. y < p_next p \<and> e_pick e \<noteq> Some y)"

text \<open>The same books, a sound pool.\<close>

definition sound :: "pool \<Rightarrow> pool \<Rightarrow> bool" where
  "sound p0 p \<longleftrightarrow> pool_wf p \<and> balance p = balance p0 \<and> busy_gap p = busy_gap p0 \<and> p_cfg p = p_cfg p0 \<and>
     p_next p0 \<le> p_next p \<and> (halted (p_state p0) \<longrightarrow> halted (p_state p)) \<and> (attempts_ok p0 \<longrightarrow> attempts_ok p) \<and>
     (slots_ok p0 \<longrightarrow> slots_ok p) \<and> (futures_ok p0 \<longrightarrow> futures_ok p)"

lemma others_hold_sound: "others_hold B e p0 \<Longrightarrow> sound p0 p \<Longrightarrow> others_hold B e p"
  by (auto simp: others_hold_def sound_def)

lemma sound_refl: "pool_wf p \<Longrightarrow> sound p p"
  by (simp add: sound_def)

lemma sound_trans: "sound p q \<Longrightarrow> sound q r \<Longrightarrow> sound p r"
  by (simp add: sound_def)

lemma sound_steady: "sound p0 p \<Longrightarrow> steady f \<Longrightarrow> sound p0 (f p)"
  by (auto simp: sound_def steady_def intro: order_trans)

lemma sound_observer [simp]:
  "sound p0 (note_act a p) = sound p0 p" "sound p0 (emit e ev p) = sound p0 p"
  "sound p0 (bump (k_submitted_update g) p) = sound p0 p" "sound p0 (bump (k_rejected_update g) p) = sound p0 p"
  "sound p0 (p\<lparr>p_buckets := b\<rparr>) = sound p0 p" "sound p0 (p\<lparr>p_seq := sq\<rparr>) = sound p0 p"
  "sound p0 (p\<lparr>p_idemp := im\<rparr>) = sound p0 p"
  by (simp_all add: sound_def)

subsection \<open>A new job object\<close>

lemma get_job_spec:
  assumes wf: "pool_wf p" and g: "get_job e p = (x, q)"
  shows "pool_wf q" "x < p_next q" "x \<notin># places q" "untracked x q" "balance q = balance p" "busy_gap q = busy_gap p"
    "p_cfg q = p_cfg p" "p_heap q = p_heap p" "p_submitting q = p_submitting p" "p_jobs q = p_jobs p"
    "p_next p \<le> p_next q" "p_state q = p_state p" "others_hold B e p \<Longrightarrow> x \<notin> B" "attempts_ok q = attempts_ok p" "slots_ok q = slots_ok p"
    "futures_ok q = futures_ok p"
proof -
  show "futures_ok q = futures_ok p" using g by (auto simp: get_job_def split: option.splits if_splits)
  show "slots_ok q = slots_ok p" using g by (auto simp: get_job_def split: option.splits if_splits)
  show "attempts_ok q = attempts_ok p"
    using g by (auto simp: get_job_def attempts_defs split: option.splits if_splits)
  have "pool_wf q \<and> x < p_next q \<and> x \<notin># places q \<and> untracked x q"
  proof (cases "\<exists>y. e_pick e = Some y \<and> y \<in> set (p_jobPool p)")
    case True
    then have x: "e_pick e = Some x" "x \<in> set (p_jobPool p)" "q = p\<lparr>p_jobPool := remove1 x (p_jobPool p)\<rparr>"
      using g by (auto simp: get_job_def)
    have sub: "add_mset x (places q) = places p"
      using x(2) by (simp add: x(3) places_def fast_ptrs_def)
    have "count (places q) x = 0"
      using wf arg_cong [OF sub, of "\<lambda>m. count m x"] by (auto simp: pool_wf_def dest: spec [of _ x])
    moreover have "x < p_next p"
    proof -
      have "x \<in># places p" unfolding sub [symmetric] by simp
      with wf show ?thesis unfolding pool_wf_def by blast
    qed
    moreover have "pool_wf q"
      by (rule places_le_wf [OF wf])
        (use wf x sub in \<open>auto simp: pool_wf_def queues_ok_def tracked_ok_def dest: notin_set_remove1 simp flip: sub\<close>)
    moreover have "untracked x q" using wf x by (auto simp: pool_wf_def tracked_ok_def untracked_def)
    ultimately show ?thesis using x by (simp add: not_in_iff)
  next
    case False
    then have x: "x = p_next p" "q = p\<lparr>p_next := p_next p + 1\<rparr>"
      using g by (auto simp: get_job_def split: option.splits if_splits)
    have pl: "places q = places p" by (simp add: x places_def fast_ptrs_def)
    have "pool_wf q"
      using wf unfolding pool_wf_def pl by (auto simp: x queues_ok_def tracked_ok_def less_Suc_eq)
    moreover have "x \<notin># places q" using wf unfolding pl pool_wf_def x(1) by blast
    moreover have "untracked x q" using wf by (auto simp: x pool_wf_def tracked_ok_def untracked_def)
    ultimately show ?thesis by (simp add: x)
  qed
  then show "pool_wf q" "x < p_next q" "x \<notin># places q" "untracked x q" by auto
  show "balance q = balance p" "busy_gap q = busy_gap p" "p_cfg q = p_cfg p" "p_heap q = p_heap p"
    "p_submitting q = p_submitting p" "p_jobs q = p_jobs p" "p_next p \<le> p_next q" "p_state q = p_state p"
    using g by (auto simp: get_job_def balance_def inside_def busy_gap_def split: option.splits if_splits)
  show "others_hold B e p \<Longrightarrow> x \<notin> B"
    using g by (auto simp: get_job_def others_hold_def split: option.splits if_splits)
qed

text \<open>Taking the object into the submitter's hands and filling it in.\<close>

lemma take_job_wf:
  assumes wf: "pool_wf q" and x: "x < p_next q" "x \<notin># places q" "untracked x q"
  shows "pool_wf ((upd_job x f q)\<lparr>p_submitting := x # p_submitting q\<rparr>)"
proof -
  let ?p = "(upd_job x f q)\<lparr>p_submitting := x # p_submitting q\<rparr>"
  have pl: "places ?p = add_mset x (places q)" by (simp add: places_def fast_ptrs_def)
  have "count (places ?p) y \<le> 1" for y
    using wf x(2) unfolding pl by (cases "y = x") (auto simp: pool_wf_def not_in_iff)
  moreover have "\<forall>y \<in># places ?p. y < p_next ?p" using wf x(1) unfolding pl by (auto simp: pool_wf_def)
  moreover have "tracked_ok ?p"
    unfolding tracked_ok_def
  proof (intro conjI ballI)
    fix j assume j: "j \<in> set (p_jobs ?p)"
    obtain i y where iy: "j = (i, y)" by fastforce
    have "y \<noteq> x" using x(3) j iy by (force simp: untracked_def)
    with wf j iy show "case j of (i, y) \<Rightarrow> i \<noteq> [] \<and> y < p_next ?p \<and> y \<notin> set (p_jobPool ?p) \<and>
        o_ID (qj_opts (p_heap ?p y)) = i"
      by (auto simp: pool_wf_def tracked_ok_def)
  qed (use wf in \<open>simp_all add: pool_wf_def tracked_ok_def\<close>)
  ultimately show ?thesis using wf by (simp add: pool_wf_def queues_ok_def)
qed

lemma take_job_attempts:
  assumes a: "attempts_ok q" "x \<notin># places q" and r: "may_run (f (p_heap q x))"
  shows "attempts_ok ((upd_job x f q)\<lparr>p_submitting := x # p_submitting q\<rparr>)"
proof -
  have n: "x \<notin># queued_ptrs q" "x \<notin> set (p_inflight q)" "x \<notin> set (p_dlq q)"
    using a(2) by (auto simp: places_def queued_ptrs_def)
  have "queued_ptrs ((upd_job x f q)\<lparr>p_submitting := x # p_submitting q\<rparr>) = add_mset x (queued_ptrs q)"
    by (simp add: queued_ptrs_def fast_ptrs_def)
  with a(1) n r show ?thesis by (auto simp: attempts_ok_def)
qed

lemma take_job_slots:
  assumes "slots_ok q" "x \<notin># places q"
  shows "slots_ok ((upd_job x f q)\<lparr>p_submitting := s\<rparr>)"
proof -
  have "x \<notin> set (p_inflight q)" using assms(2) by (auto simp: places_def)
  then show ?thesis by (intro slots_ok_mono [OF _ _ _ _ _ assms(1)]) auto
qed

lemma take_job_futures:
  assumes "futures_ok q"
  shows "futures_ok ((upd_job x f q)\<lparr>p_submitting := x # p_submitting q\<rparr>)"
proof -
  let ?p = "(upd_job x f q)\<lparr>p_submitting := x # p_submitting q\<rparr>"
  have "live ?p = insert x (live q)" by (auto simp: live_def fast_ptrs_def)
  moreover have "answered ?p y = answered q y" if "y \<noteq> x" for y using that by (simp add: answered_def)
  ultimately show ?thesis using assms by (auto simp: futures_ok_def)
qed

lemma new_cancel_futures:
  "futures_ok p \<Longrightarrow> futures_ok (p\<lparr>p_futures := (p_futures p)(i := (p_futures p i)\<lparr>fu_cancel := c\<rparr>)\<rparr>)"
  by (auto simp: futures_defs future_inv_def)

lemma submitting_balance [simp]:
  "balance (p\<lparr>p_submitting := s\<rparr>) = balance p" "busy_gap (p\<lparr>p_submitting := s\<rparr>) = busy_gap p"
  by (simp_all add: balance_def inside_def busy_gap_def)

lemma new_job_spec:
  assumes wf: "pool_wf p" and n: "new_job e j f opt now runAt p = (x, p')" and m: "attempts_ok p \<longrightarrow> 1 \<le> o_MaxAttempts opt"
  shows "sound p p'" "x \<in> set (p_submitting p')" "qj_opts (p_heap p' x) = opt" "qj_future (p_heap p' x) = f"
    "others_hold B e p \<Longrightarrow> x \<notin> B"
proof -
  define c where "c = (f \<noteq> None \<or> c_EnableJobTracking (p_cfg p) \<or> o_ID opt \<noteq> [])"
  define p1 where "p1 = (if c then p\<lparr>p_nextCtx := p_nextCtx p + 1\<rparr> else p)"
  obtain x1 q where g: "get_job e p1 = (x1, q)" by fastforce
  define q1 where "q1 = q\<lparr>p_seq := p_seq q + 1\<rparr>"
  define k where "k = (if c then Some (p_nextCtx p) else None)"
  define q2 where "q2 = upd_job x1 (\<lambda>q. q\<lparr>qj_state := JobQueued\<rparr>) (upd_job x1 (\<lambda>_. zero_job\<lparr>qj_seq := p_seq q1,
      qj_job := Some (if p_middleware p1 \<noteq> [] then Chain (p_middleware p1) j else j), qj_opts := opt, qj_createdAt := now,
      qj_runAt := runAt, qj_future := f, qj_ctx := Some (if c then JobCtx (p_nextCtx p) else PoolCtx), qj_cancel := k, qj_pool := True\<rparr>) q1)"
  have xp: "x = x1" "p' = (case f of None \<Rightarrow> q2\<lparr>p_submitting := x1 # p_submitting q2\<rparr>
      | Some i \<Rightarrow> q2\<lparr>p_submitting := x1 # p_submitting q2,
          p_futures := (p_futures q2)(i := (p_futures q2 i)\<lparr>fu_cancel := k\<rparr>)\<rparr>)"
    using n g unfolding new_job_def by (auto simp: Let_def c_def p1_def q1_def q2_def k_def split: option.splits if_splits)
  have w1: "pool_wf p1" "balance p1 = balance p" "busy_gap p1 = busy_gap p" "p_cfg p1 = p_cfg p" "p_next p1 = p_next p" "p_state p1 = p_state p"
    using wf by (simp_all add: p1_def)
  note gs = get_job_spec [OF w1(1) g]
  have q1: "pool_wf q1" "x1 < p_next q1" "x1 \<notin># places q1" "untracked x1 q1"
    using gs by (simp_all add: q1_def places_def fast_ptrs_def untracked_def)
  define h where "h = (\<lambda>_ :: queuedJob. p_heap q2 x1)"
  have h: "q2 = upd_job x1 h q1" by (simp add: h_def q2_def upd_job_def)
  have hr: "attempts_ok p \<longrightarrow> may_run (h (p_heap q1 x1))"
    using m by (auto simp: h_def q2_def may_run_def zero_job_def)
  have a1: "attempts_ok p \<longrightarrow> attempts_ok q1" using gs(14) by (simp add: q1_def p1_def)
  have a2: "attempts_ok p \<longrightarrow> attempts_ok (q2\<lparr>p_submitting := x1 # p_submitting q2\<rparr>)"
    using take_job_attempts [OF _ q1(3), of h] a1 hr by (simp add: h)
  have "slots_ok p \<longrightarrow> slots_ok q1" using gs(15) by (simp add: q1_def p1_def)
  then have sl: "slots_ok p \<longrightarrow> slots_ok (q2\<lparr>p_submitting := x1 # p_submitting q2\<rparr>)"
    using take_job_slots [OF _ q1(3), where f = h] by (simp add: h)
  have "futures_ok p \<longrightarrow> futures_ok q1" using gs(16) by (simp add: q1_def p1_def)
  then have fo: "futures_ok p \<longrightarrow> futures_ok (q2\<lparr>p_submitting := x1 # p_submitting q2\<rparr>)"
    using take_job_futures [of q1 x1 h] by (simp add: h)
  then have fu: "futures_ok p \<longrightarrow> futures_ok (q2\<lparr>p_submitting := x1 # p_submitting q2,
      p_futures := (p_futures q2)(i := (p_futures q2 i)\<lparr>fu_cancel := k\<rparr>)\<rparr>)" for i
    using new_cancel_futures [of "q2\<lparr>p_submitting := x1 # p_submitting q2\<rparr>" i k] by simp
  have w2: "pool_wf (q2\<lparr>p_submitting := x1 # p_submitting q2\<rparr>)"
    using take_job_wf [OF q1, of h] by (simp add: h)
  have "others_hold B e p \<Longrightarrow> others_hold B e p1" by (simp add: others_hold_def p1_def)
  with gs(13) show "others_hold B e p \<Longrightarrow> x \<notin> B" by (simp add: xp)
  have b2: "balance q2 = balance p" "busy_gap q2 = busy_gap p" "p_cfg q2 = p_cfg p" "p_next p \<le> p_next q2" "p_state q2 = p_state p"
    using gs w1 by (simp_all add: h q1_def)
  show "sound p p'" using w2 b2 a2 sl fo fu by (simp add: sound_def xp split: option.split)
  show "x \<in> set (p_submitting p')" by (simp add: xp split: option.split)
  show "qj_opts (p_heap p' x) = opt" "qj_future (p_heap p' x) = f" by (simp_all add: xp q2_def zero_job_def split: option.split)
qed

lemma set_update_subset: "set (AList.update k v al) \<subseteq> insert (k, v) (set al)"
  by (induction al) auto

lemma announce_spec:
  assumes wf: "pool_wf p" and x: "x \<in> set (p_submitting p)" and o: "qj_opts (p_heap p x) = opt"
  shows "sound p (announce_job e x opt p)" "p_submitting (announce_job e x opt p) = p_submitting p"
    "p_heap (announce_job e x opt p) = p_heap p"
proof -
  define q where "q = callback_call OnQueued x None (emitJob e EventJobSubmitted x 0 None ''''
     (if OnJobSubmit \<in> set (p_hooks p) then note_act (JobHook OnJobSubmit opt 0 None) p else p))"
  have q: "pool_wf q" "sound p q" "p_submitting q = p_submitting p" "p_heap q = p_heap p" "p_cfg q = p_cfg p"
    using wf by (simp_all add: q_def sound_def)
  have a: "announce_job e x opt p = store_job x (if c_EnableJobTracking (p_cfg q) \<and> o_ID opt \<noteq> []
      then q\<lparr>p_jobs := AList.update (o_ID opt) x (p_jobs q)\<rparr> else q)"
    by (simp add: announce_job_def q_def Let_def)
  have at: "attempts_ok (q\<lparr>p_jobs := jt\<rparr>) = attempts_ok p" for jt
    by (simp add: q_def attempts_defs)
  have "pool_wf (q\<lparr>p_jobs := AList.update (o_ID opt) x (p_jobs q)\<rparr>)" if "c_EnableJobTracking (p_cfg q)" "o_ID opt \<noteq> []"
  proof -
    have xs: "x \<notin> set (p_jobPool q)" "x < p_next q" using held_once(2) [OF q(1), of x] x q by auto
    have "case y of (i, z) \<Rightarrow> i \<noteq> [] \<and> z < p_next q \<and> z \<notin> set (p_jobPool q) \<and> o_ID (qj_opts (p_heap q z)) = i"
      if y: "y \<in> set (AList.update (o_ID opt) x (p_jobs q))" for y
    proof -
      have "y = (o_ID opt, x) \<or> y \<in> set (p_jobs q)" using y set_update_subset by fast
      then show ?thesis using q(1,4) o xs \<open>o_ID opt \<noteq> []\<close> by (auto simp: pool_wf_def tracked_ok_def)
    qed
    then have "tracked_ok (q\<lparr>p_jobs := AList.update (o_ID opt) x (p_jobs q)\<rparr>)"
      using q(1) that(1) by (simp add: pool_wf_def tracked_ok_def distinct_update)
    then show ?thesis using q(1) by (simp add: pool_wf_def places_def fast_ptrs_def queues_ok_def)
  qed
  then show "sound p (announce_job e x opt p)"
    using q by (auto simp: a sound_def at) (simp_all add: balance_def inside_def)
  show "p_submitting (announce_job e x opt p) = p_submitting p" "p_heap (announce_job e x opt p) = p_heap p"
    using q by (simp_all add: a)
qed

subsection \<open>Queueing the job\<close>

lemma push_cases: "(if a then A else if b then B d else C) = r \<Longrightarrow> r = A \<or> (\<exists>d. r = B d) \<or> r = C"
  by (cases a; cases b) auto

lemma pushFast_spec:
  assumes st: "stays x p0 p" and rr: "rely_rounds x rs" and r: "pushFast e rs x p = Some (ok, p')"
  shows "if ok then released x p0 (balance p0 + charge x p0 - 1) p' else stays x p0 p'"
proof -
  have keep: "stays x p0 p'" if "stays x p0 p" "try_fast x p = (False, p')" for p p'
    using that try_fast_spec [of p x False p'] by (auto simp: stays_def)
  note rnd = rely_rounds_stays [OF rr, of p0]
  have "\<exists>q. stays x p0 q \<and> try_fast x q = (ok, p')"
  proof -
    from push_cases [where B = "\<lambda>d. spin_push (try_fast x) d rs p", OF r [unfolded pushFast_def]] show ?thesis
    proof (elim disjE exE)
      assume "Some (ok, p') = Some (try_fast x p)"
      with st show ?thesis by (intro exI [of _ p]) simp
    next
      fix d assume "Some (ok, p') = spin_push (try_fast x) d rs p"
      from spin_push_end [where K = "stays x p0", OF this [symmetric] st rnd keep] show ?thesis .
    next
      assume "Some (ok, p') = sleep_push (\<lambda>p. fifo_waits (p_fastq p)) (try_fast x) rs p"
      from sleep_push_end [where K = "stays x p0", OF this [symmetric] st rnd] show ?thesis .
    qed
  qed
  then obtain q where q: "stays x p0 q" "try_fast x q = (ok, p')" by blast
  then have "pool_wf q" "held x q" by (auto simp: stays_def)
  from handed [OF q(1) try_fast_spec [OF this q(2)]] show ?thesis .
qed

lemma enqueue_spec:
  assumes st: "stays x p0 p" and rr: "rely_rounds x rs" and r: "enqueue_job e rs x opt now runAt p = Some (ok, p')"
  shows "if ok then released x p0 (balance p0 + charge x p0 - 1) p' else stays x p0 p'"
proof (cases "useFastQueue opt now runAt")
  case True
  with r show ?thesis by (intro pushFast_spec [OF st rr]) (simp add: enqueue_job_def)
next
  case False
  define it where "it = \<lparr>it_Value = x, it_Priority = o_Priority opt, it_Seq = qj_seq (p_heap p x), it_RunAt = runAt\<rparr>"
  have v: "it_Value it = x" by (simp add: it_def)
  have wh: "pool_wf p" "held x p" using st by (auto simp: stays_def)
  obtain q where q: "try_q it p = (ok, q) \<or> drop_q it p = (ok, q) \<and> c_Backpressure (p_cfg p) = BackpressureDropOldest \<or> pushBlock e rs it p = Some (ok, q)"
    "p' = (if ok then signalQueueWake q else q)"
    using r False
    by (cases "c_Backpressure (p_cfg p)") (auto simp: enqueue_job_def it_def Let_def split: option.splits prod.splits)
  have "if ok then released x p0 (balance p0 + charge x p0 - 1) q else stays x p0 q"
    using q(1)
  proof (elim disjE conjE)
    assume "try_q it p = (ok, q)"
    from handed [OF st try_q_spec [of p it ok q, unfolded v, OF wh this]] show ?thesis .
  next
    assume "drop_q it p = (ok, q)" "c_Backpressure (p_cfg p) = BackpressureDropOldest"
    from handed [OF st drop_q_spec [of p it ok q, unfolded v, OF wh this]] show ?thesis .
  next
    assume "pushBlock e rs it p = Some (ok, q)"
    from pushBlock_spec [of it p0 p rs e ok q, unfolded v, OF st rr this] show ?thesis .
  qed
  then show ?thesis using q(2) by (cases ok) simp_all
qed

lemma spill_wf:
  assumes wf: "pool_wf p" and h: "held x p" and ss: "ss = p_spill p @ [x]"
  shows "pool_wf (leave x (p\<lparr>p_spill := ss\<rparr>))"
    and "balance (leave x (p\<lparr>p_spill := ss\<rparr>)) = balance p + charge x p - 1"
proof -
  show "pool_wf (leave x (p\<lparr>p_spill := ss\<rparr>))"
    by (rule move_wf [OF wf h])
      (use wf ss in \<open>auto simp: places_def fast_ptrs_def queues_ok_def tracked_ok_def pool_wf_def\<close>)
  show "balance (leave x (p\<lparr>p_spill := ss\<rparr>)) = balance p + charge x p - 1"
    unfolding leave_balance by (simp add: balance_def inside_def charge_def ss)
qed

lemma spill_attempts:
  assumes "attempts_ok p" "may_run (p_heap p x)" "ss = p_spill p @ [x]"
  shows "attempts_ok (leave x (p\<lparr>p_spill := ss\<rparr>))"
  by (rule leave_attempts) (use assms in \<open>auto simp: attempts_defs\<close>)

lemma spill_futures: "futures_ok p \<Longrightarrow> ss = p_spill p @ [x] \<Longrightarrow> futures_ok (leave x (p\<lparr>p_spill := ss\<rparr>))"
  by (rule push_futures) (use live_leave [of p x] in \<open>auto simp: live_def fast_ptrs_def\<close>)

lemma signal_sound [simp]:
  "pool_wf (signalQueueWake p) = pool_wf p" "balance (signalQueueWake p) = balance p" "busy_gap (signalQueueWake p) = busy_gap p"
  "attempts_ok (signalQueueWake p) = attempts_ok p" "slots_ok (signalQueueWake p) = slots_ok p" "futures_ok (signalQueueWake p) = futures_ok p" "p_cfg (signalQueueWake p) = p_cfg p" "p_next (signalQueueWake p) = p_next p" "p_state (signalQueueWake p) = p_state p"
  by (simp_all add: signalQueueWake_def)

lemma trySpill_spec:
  assumes wf: "pool_wf p" and h: "held x p" and r: "trySpill e x p = (ok, p')"
  shows "if ok then pool_wf p' \<and> balance p' = balance p + charge x p - 1 \<and> busy_gap p' = busy_gap p \<and> p_cfg p' = p_cfg p \<and> p_next p' = p_next p \<and> p_state p' = p_state p \<and>
    (attempts_ok p \<and> may_run (p_heap p x) \<longrightarrow> attempts_ok p') \<and> (slots_ok p \<longrightarrow> slots_but x (key_of p x) p') \<and>
    (futures_ok p \<longrightarrow> futures_ok p') \<and> p_running p' = p_running p else p' = p"
proof (cases ok)
  case False
  with r show ?thesis by (auto simp: trySpill_def Let_def split: if_splits)
next
  case True
  have "p' = signalQueueWake (note_act (SpillRecord (info (p_heap (emitJob e EventQueueSpill x
      (qj_attempt (p_heap p x)) None ''spilled to overflow'' (leave x (p\<lparr>p_spill := p_spill p @ [x]\<rparr>))) x)))
      (emitJob e EventQueueSpill x (qj_attempt (p_heap p x)) None ''spilled to overflow'' (leave x (p\<lparr>p_spill := p_spill p @ [x]\<rparr>))))"
    using True r by (auto simp: trySpill_def Let_def split: if_splits)
  moreover have "slots_but y k (signalQueueWake q) = slots_but y k q" for y k q by (simp add: signalQueueWake_def)
  moreover have "p_running (signalQueueWake q) = p_running q" for q by (simp add: signalQueueWake_def)
  ultimately show ?thesis using True by (simp add: spill_wf [OF wf h refl] spill_attempts leave_ok_slots spill_futures)
qed

lemma submit_end_sound:
  assumes "if ok then released x p0 (balance p0 - 1) p else stays x p0 p"
    and sub: "charge x p0 = 0" and n: "slots_ok p0 \<longrightarrow> x \<notin> set (p_running p0)" and m: "attempts_ok p0 \<longrightarrow> may_run (p_heap p0 x)" and o: "qj_opts (p_heap p0 x) = opt" "qj_future (p_heap p0 x) = f"
    and r: "submit_end e x f opt ok p = (res, p')"
  shows "sound p0 p'"
proof (cases ok)
  case True
  then have rel: "released x p0 (balance p0 - 1) p" using assms(1) by simp
  have "sound p0 (bump (k_accepted_update (\<lambda>n. n + 1)) p)"
    using rel m n slots_but_ok [of x "key_of p0 x" p] unfolding released_def sound_def by simp
  moreover have "p' = emitJob e EventJobQueued x 0 None '''' (emitJob e EventJobAccepted x 0 None '''' (bump (k_accepted_update (\<lambda>n. n + 1)) p))"
    using True r by (simp add: submit_end_def Let_def)
  ultimately show ?thesis by (simp add: sound_def)
next
  case False
  then have st: "stays x p0 p" using assms(1) by simp
  then have w: "pool_wf p" "held x p" "charge x p = 0" "qj_opts (p_heap p x) = opt" "balance p = balance p0"
    "busy_gap p = busy_gap p0" "p_cfg p = p_cfg p0" "p_next p0 \<le> p_next p" "halted (p_state p0) \<longrightarrow> halted (p_state p)"
    using sub o by (auto simp: stays_def job_const_def)
  have a: "attempts_ok p0 \<longrightarrow> attempts_ok p \<and> may_run (p_heap p x)"
    using st m by (auto simp: stays_def job_const_runs)
  have fo: "futures_ok p0 \<longrightarrow> futures_ok p" "qj_future (p_heap p x) = f" using st o(2) by (auto simp: stays_def job_const_def)
  have sl: "slots_ok p0 \<longrightarrow> slots_ok p \<and> x \<notin> set (p_running p)" using st n by (auto simp: stays_def)
  obtain sp q where sp: "trySpill e x p = (sp, q)" by fastforce
  note spec = trySpill_spec [OF w(1,2) sp]
  show ?thesis
  proof (cases sp)
    case True
    then have "sound p0 (bump (k_accepted_update (\<lambda>n. n + 1)) q)"
      using spec w a sl fo slots_but_ok [of x "key_of p x" q] unfolding sound_def by simp
    moreover have "p' = emitJob e EventJobAccepted x 0 None ''spilled'' (bump (k_accepted_update (\<lambda>n. n + 1)) q)"
      using False True r sp by (simp add: submit_end_def Let_def)
    ultimately show ?thesis by (simp add: sound_def)
  next
    case nsp: False
    define q1 where "q1 = complete_future f (Some ErrQueueFull) (untrack_job opt (emitJob e EventJobRejected x 0 (Some ErrQueueFull) ''''
        (bump (k_rejected_update (\<lambda>n. n + 1)) p)))"
    have p': "p' = leave x (releaseJob x q1)"
      using False nsp spec r sp by (simp add: submit_end_def Let_def q1_def)
    have q1: "attempts_ok q1 = attempts_ok p" "pool_wf q1" "held x q1" "charge x q1 = 0" "balance q1 = balance p" "busy_gap q1 = busy_gap p" "p_cfg q1 = p_cfg p" "p_next q1 = p_next p" "p_state q1 = p_state p"
      using w by (simp_all add: q1_def held_def charge_def)
    have "p_jobs q1 = p_jobs (untrack_job opt p)" by (simp add: q1_def)
    then have "untracked x q1"
      using untracked_after_delete [OF w(1), of x] unfolding w(4) untracked_def by simp
    moreover have "slots_ok p0 \<longrightarrow> slots_ok p'"
    proof
      assume "slots_ok p0"
      with sl have "slots_ok q1" "x \<notin> set (p_running q1)" by (simp_all add: q1_def)
      then have "slots_but x (key_of q1 x) p'" by (simp add: p' releaseJob_def leave_slots slots_ok_but)
      moreover have "x \<notin> set (p_running p')" using \<open>x \<notin> set (p_running q1)\<close> by (simp add: p' releaseJob_def)
      ultimately show "slots_ok p'" by (rule slots_but_ok)
    qed
    moreover have "futures_ok p0 \<longrightarrow> futures_ok p'"
    proof
      assume "futures_ok p0"
      with fo have "futures_ok q1" by (simp add: q1_def)
      moreover from this have "answered q1 x" using fo(2) by (auto simp: q1_def answered_def futures_ok_def complete_future_answers)
      ultimately show "futures_ok p'" unfolding p' by (rule release_futures)
    qed
    ultimately show ?thesis using to_pool [OF q1(2,3)] q1 w a by (auto simp: p' sound_def releaseJob_def)
  qed
qed

lemma submit_queued_sound:
  assumes wf: "pool_wf p" and rr: "polite_rounds B rs" and B: "others_hold B e p" and r: "submit_queued e rs j f opt p = Some (res, p')"
    and m: "attempts_ok p \<longrightarrow> 1 \<le> o_MaxAttempts opt"
  shows "sound p p'"
proof -
  define now runAt where "now = e_now e 2" and "runAt = submit_runAt opt now"
  obtain x p1 where n: "new_job e j f opt now runAt p = (x, p1)" by fastforce
  define p2 where "p2 = announce_job e x opt p1"
  obtain ok p3 where q: "enqueue_job e rs x opt now runAt p2 = Some (ok, p3)"
    and en: "submit_end e x f opt ok p3 = (res, p')"
    using r n by (auto simp: submit_queued_def Let_def now_def runAt_def p2_def split: option.splits)
  note ns = new_job_spec [OF wf n m]
  have w1: "pool_wf p1" using ns(1) by (simp add: sound_def)
  note as = announce_spec [OF w1 ns(2,3), of e, folded p2_def]
  have w2: "pool_wf p2" "x \<in> set (p_submitting p2)" "qj_opts (p_heap p2 x) = opt" using as ns by (simp_all add: sound_def)
  have ch: "charge x p2 = 0" using held_once(2) [OF w2(1,2)] by (simp add: charge_def)
  have "stays x p2 p2" using w2 by (simp add: stays_refl held_def)
  from enqueue_spec [OF this polite_rely [OF rr ns(5) [OF B]] q] ch
  have "if ok then released x p2 (balance p2 - 1) p3 else stays x p2 p3" by (cases ok) auto
  moreover have "attempts_ok p2 \<longrightarrow> may_run (p_heap p2 x)" using w2(2) by (simp add: attempts_ok_def queued_ptrs_def)
  moreover have "slots_ok p2 \<longrightarrow> x \<notin> set (p_running p2)" using held_once(2) [OF w2(1,2)] by (auto simp: slots_ok_def)
  moreover have "qj_future (p_heap p2 x) = f" using as(3) ns(4) by simp
  ultimately have "sound p2 p'" by (intro submit_end_sound [OF _ ch _ _ w2(3) _ en])
  then show ?thesis
    using sound_trans [OF ns(1)] sound_trans [OF as(1)] by blast
qed

subsection \<open>The whole call\<close>

definition steady_rates :: "(time \<times> time \<times> (pool \<Rightarrow> pool)) list \<Rightarrow> bool" where
  "steady_rates rs \<longleftrightarrow> (\<forall>(t, t', f) \<in> set rs. steady f)"

lemma bucket_allow_sound: "bucket_allow e now b p = (ok, p') \<Longrightarrow> sound p0 p \<Longrightarrow> sound p0 p'"
  by (auto simp: bucket_allow_def split: prod.splits)

lemma rate_block_sound:
  "rate_block e b d rs p = Some (er, p') \<Longrightarrow> steady_rates rs \<Longrightarrow> sound p0 p \<Longrightarrow> sound p0 p'"
proof (induction rs arbitrary: p)
  case (Cons r rs)
  obtain t t' g where r: "r = (t, t', g)" by (cases r)
  obtain ok q where q: "bucket_allow e t b p = (ok, q)" by fastforce
  note sq = bucket_allow_sound [OF q Cons.prems(3)]
  have "steady g" "steady_rates rs" using Cons.prems(2) by (auto simp: steady_rates_def r)
  with Cons.IH [of "g q"] sq sound_steady [OF sq] Cons.prems(1) show ?case
    by (auto simp: r q simp del: State_less_simps split: if_splits)
qed simp

lemma admitRate_sound:
  "admitRate e rs key p = Some (er, p') \<Longrightarrow> steady_rates rs \<Longrightarrow> sound p0 p \<Longrightarrow> sound p0 p'"
  by (auto simp: admitRate_def split: option.splits RateLimitMode.splits prod.splits if_splits
      intro: rate_block_sound bucket_allow_sound)

lemma try_basic_spec:
  assumes wf: "pool_wf p" and t: "try_basic j p = (ok, p')"
  shows "if ok then pool_wf p' \<and> balance p' = balance p - 1 \<and> busy_gap p' = busy_gap p \<and> p_cfg p' = p_cfg p \<and> p_next p' = p_next p \<and> p_state p' = p_state p \<and>
    attempts_ok p' = attempts_ok p \<and> slots_ok p' = slots_ok p \<and>
    futures_ok p' = futures_ok p else p' = p"
proof -
  obtain q where q: "FIFO_TryPush j (p_basicq p) = (ok, q)" "p' = p\<lparr>p_basicq := q\<rparr>"
    using t by (auto simp: try_basic_def split: prod.splits)
  have i: "fifo_inv (p_basicq p)" using wf by (simp add: pool_wf_def queues_ok_def)
  note i' = fq.fifo_push_inv [OF i q(1)] and c = fq.fifo_push [OF i q(1)]
  have l: "fq_len q = fq_len (p_basicq p) + (if ok then 1 else 0)" using arg_cong [OF c, of length] by simp
  show ?thesis
  proof (cases ok)
    case True
    have "pool_wf p'" using wf i' q(2) by (simp add: pool_wf_def places_def fast_ptrs_def queues_ok_def tracked_ok_def)
    with True q l show ?thesis by (simp add: balance_def inside_def busy_gap_def attempts_defs)
  next
    case False
    then have "q = p_basicq p" using q(1) by (auto simp: FIFO_TryPush_def split: if_splits)
    with False q show ?thesis by simp
  qed
qed

lemma submit_basic_sound:
  assumes wf: "pool_wf p" and rr: "polite_rounds B rs" and r: "submit_basic e rs j p = Some (res, p')"
  shows "sound p p'"
proof -
  obtain ok q where q: "pushBasic e rs (Some j) p = Some (ok, q)"
    and p': "p' = (if ok then bump (k_accepted_update (\<lambda>n. n + 1)) q else bump (k_rejected_update (\<lambda>n. n + 1)) q)"
    using r by (auto simp: submit_basic_def split: option.splits if_splits)
  have rnd: "\<forall>(t, f) \<in> set rs. \<forall>q. sound p q \<longrightarrow> sound p (f q)"
    using rr sound_steady by (auto simp: polite_rounds_def polite_def)
  have keep: "sound p q'" if "sound p q" "try_basic (Some j) q = (False, q')" for q q'
    using that try_basic_spec [of q "Some j" False q'] by (auto simp: sound_def)
  have "\<exists>q0. sound p q0 \<and> try_basic (Some j) q0 = (ok, q)"
  proof -
    from push_cases [where B = "\<lambda>d. spin_push (try_basic (Some j)) d rs p", OF q [unfolded pushBasic_def]] show ?thesis
    proof (elim disjE exE)
      assume "Some (ok, q) = Some (try_basic (Some j) p)"
      with sound_refl [OF wf] show ?thesis by (intro exI [of _ p]) simp
    next
      fix d assume "Some (ok, q) = spin_push (try_basic (Some j)) d rs p"
      from spin_push_end [where K = "sound p", OF this [symmetric] sound_refl [OF wf] rnd keep] show ?thesis .
    next
      assume "Some (ok, q) = sleep_push (\<lambda>p. fifo_waits (p_basicq p)) (try_basic (Some j)) rs p"
      from sleep_push_end [where K = "sound p", OF this [symmetric] sound_refl [OF wf] rnd] show ?thesis .
    qed
  qed
  then obtain q0 where q0: "sound p q0" "try_basic (Some j) q0 = (ok, q)" by blast
  then have "pool_wf q0" by (simp add: sound_def)
  from try_basic_spec [OF this q0(2)] q0(1) show ?thesis
    by (cases ok) (auto simp: p' sound_def)
qed

lemma submit_options_sound: "submit_options opts p = (opt, p') \<Longrightarrow> sound p0 p \<Longrightarrow> sound p0 p'"
  by (auto simp: submit_options_def draw_id_def Let_def split: if_splits)

lemma submit_options_attempts: "submit_options opts p = (opt, p') \<Longrightarrow> 1 \<le> c_DefaultMaxAttempts (p_cfg p) \<Longrightarrow> 1 \<le> o_MaxAttempts opt"
  by (auto simp: submit_options_def draw_id_def config_defaults_def Let_def split: if_splits)

lemma submit_sound:
  assumes wf: "pool_wf p" and ar: "steady_rates ars" and rr: "polite_rounds B rs" and B: "others_hold B e p"
    and r: "submit e ars rs j f opts p = Some (res, p')"
  shows "sound p p'"
proof -
  define p1 where "p1 = emit e (mk_event EventJobSubmitting) (bump (k_submitted_update (\<lambda>n. n + 1)) p)"
  have s1: "sound p p1" using sound_refl [OF wf] by (simp add: p1_def)
  show ?thesis
  proof (cases "submit_refusal (p_state p1) j")
    case (Some er)
    with r s1 show ?thesis by (auto simp: submit_def Let_def p1_def submit_rejected_def)
  next
    case None
    obtain opt p2 where o: "submit_options opts p1 = (opt, p2)" by fastforce
    have s2: "sound p p2" by (rule submit_options_sound [OF o s1])
    then have w2: "pool_wf p2" by (simp add: sound_def)
    show ?thesis
    proof (cases "useBasicFastPath opt f p2")
      case True
      with r None o have "submit_basic e rs (the j) p2 = Some (res, p')" by (simp add: submit_def Let_def p1_def)
      from submit_basic_sound [OF w2 rr this] show ?thesis by (rule sound_trans [OF s2])
    next
      case False
      with r None o have t: "submit_tracked e ars rs (the j) f opt p2 = Some (res, p')" by (simp add: submit_def Let_def p1_def)
      show ?thesis
      proof (cases "o_IdempotencyKey opt \<noteq> [] \<and> p_idemp p2 (o_IdempotencyKey opt) \<noteq> None")
        case True
        with t s2 show ?thesis by (auto simp: submit_tracked_def submit_rejected_def)
      next
        case nd: False
        define p3 where "p3 = (if o_IdempotencyKey opt \<noteq> [] then p2\<lparr>p_idemp := (p_idemp p2)(o_IdempotencyKey opt \<mapsto> o_ID opt)\<rparr> else p2)"
        have s3: "sound p p3" using s2 by (simp add: p3_def)
        obtain er p4 where a: "admitRate e ars (o_RateLimitKey opt) p3 = Some (er, p4)"
          using t nd by (auto simp: submit_tracked_def p3_def Let_def split: option.splits)
        have s4: "sound p p4" by (rule admitRate_sound [OF a ar s3])
        then have w4: "pool_wf p4" by (simp add: sound_def)
        show ?thesis
        proof (cases er)
          case None
          with t nd a have "submit_queued e rs (the j) f opt p4 = Some (res, p')"
            by (auto simp: submit_tracked_def p3_def Let_def)
          moreover have "attempts_ok p4 \<longrightarrow> 1 \<le> o_MaxAttempts opt"
            using submit_options_attempts [OF o] s1 s4 by (simp add: sound_def attempts_ok_def)
          ultimately have "sound p4 p'" by (rule submit_queued_sound [OF w4 rr others_hold_sound [OF B s4]])
          then show ?thesis by (rule sound_trans [OF s4])
        next
          case (Some x)
          with t nd a s4 show ?thesis by (auto simp: submit_tracked_def p3_def Let_def submit_rejected_def)
        qed
      qed
    qed
  qed
qed

end
