(* ===== verification/Pool_Preserve_Control.thy ===== *)
theory Pool_Preserve_Control
  imports Pool_Preserve_Submit
begin

text \<open>
  The guarantee side: what the operations that never wait do to the rest of the pool.  \<open>calm p p'\<close>
  says that the books agree and that every job in somebody's hands stays there with the same
  options, future and attempt; such an operation may be what the others do in a round
  (\<open>calm_polite\<close>).  Polling the queues, the control operations, cancellation and the handling of
  dead letters are calm.
\<close>

definition kept :: "nat \<Rightarrow> pool \<Rightarrow> pool \<Rightarrow> bool" where
  "kept x p p' \<longleftrightarrow> held x p' \<and> charge x p' = charge x p \<and> job_const (p_heap p x) (p_heap p' x) \<and>
     (x \<in> set (p_running p') \<longleftrightarrow> x \<in> set (p_running p))"

definition calm :: "pool \<Rightarrow> pool \<Rightarrow> bool" where
  "calm p p' \<longleftrightarrow> sound p p' \<and> (\<forall>x. held x p \<longrightarrow> kept x p p')"

lemma kept_refl: "held x p \<Longrightarrow> kept x p p"
  by (simp add: kept_def job_const_def)

lemma calm_refl: "pool_wf p \<Longrightarrow> calm p p"
  by (simp add: calm_def sound_refl kept_refl)

lemma calm_trans: "calm p q \<Longrightarrow> calm q r \<Longrightarrow> calm p r"
  by (auto simp: calm_def kept_def job_const_def intro: sound_trans)

lemma calm_wf: "calm p q \<Longrightarrow> pool_wf q"
  by (simp add: calm_def sound_def)

lemma calm_polite: "(\<And>p. pool_wf p \<Longrightarrow> calm p (f p)) \<Longrightarrow> polite B f"
  by (auto simp: polite_def steady_def rely_def calm_def sound_def stays_def kept_def)

lemma polite_calm: "polite {} f \<Longrightarrow> pool_wf p \<Longrightarrow> calm p (f p)"
  by (auto simp: polite_def steady_def rely_def calm_def sound_def stays_def kept_def)

text \<open>An operation that leaves the hands alone.\<close>

lemma calm_same:
  assumes "sound p p'" "p_submitting p' = p_submitting p" "p_inflight p' = p_inflight p" "p_running p' = p_running p"
    and "\<And>x. held x p \<Longrightarrow> job_const (p_heap p x) (p_heap p' x)"
  shows "calm p p'"
  using assms by (auto simp: calm_def kept_def held_def charge_def)

lemma job_const_refl [simp]: "job_const q q"
  by (simp add: job_const_def)

subsection \<open>Taking a job\<close>

text \<open>A pointer that nobody holds comes into a worker's hands.\<close>

lemma take_calm:
  assumes wf: "pool_wf p" and pl: "places p' = places p" and h: "p_inflight p' = x # p_inflight p"
    "p_submitting p' = p_submitting p" "p_running p' = p_running p" "p_heap p' = p_heap p"
    and rest: "queues_ok p'" "tracked_ok p'" "p_next p' = p_next p" "balance p' = balance p" "busy_gap p' = busy_gap p"
      "p_cfg p' = p_cfg p" "p_state p' = p_state p" "p_dlq p' = p_dlq p" "queued_ptrs p = add_mset x (queued_ptrs p')"
    and sem: "p_sem p' = p_sem p" "p_unlimited p' = p_unlimited p" "p_futures p' = p_futures p"
  shows "calm p p'"
proof -
  have w': "pool_wf p'" by (rule places_le_wf [OF wf]) (use pl rest in simp_all)
  have sl: "slots_ok p \<longrightarrow> slots_ok p'" by (intro impI, rule slots_ok_mono) (use h sem in auto)
  have "set_mset (queued_ptrs p) = insert x (set_mset (queued_ptrs p'))" using rest by simp
  then have "live p = live p'" using h by (auto simp: live_def queued_ptrs_def)
  then have fo: "futures_ok p \<longrightarrow> futures_ok p'" using futures_ok_mono [of p' p] rest h sem by simp
  have "x \<in> set (p_inflight p')" by (simp add: h)
  then have "count (mset (p_inflight p')) x = 1" "x \<notin> set (p_submitting p')" using held_once(1) [OF w', of x] by auto
  then have n: "\<not> held x p" by (simp add: h held_def)
  have "kept y p p'" if "held y p" for y
  proof -
    have "y \<noteq> x" using n that by auto
    with that show ?thesis by (auto simp: kept_def held_def charge_def h)
  qed
  moreover have "attempts_ok p \<longrightarrow> attempts_ok p'" using rest h by (auto simp: attempts_ok_def may_run_end)
  then have "sound p p'" using w' rest sl fo by (simp add: sound_def)
  ultimately show ?thesis by (simp add: calm_def)
qed

lemma pop_fast_calm:
  assumes wf: "pool_wf p" and r: "pop_fast p = (res, p')"
  shows "calm p p'" "res = Some y \<Longrightarrow> \<exists>x. y = Some x \<and> p_inflight p' = x # p_inflight p" "res = None \<Longrightarrow> p' = p"
proof -
  obtain v q where q: "FIFO_TryPop (p_fastq p) = (v, q)" by fastforce
  have i: "fifo_inv (p_fastq p)" using wf by (simp add: pool_wf_def queues_ok_def)
  note i' = fq.fifo_pop_inv [OF i q] and c = fq.fifo_pop [OF i q]
  have "calm p p' \<and> (res = Some y \<longrightarrow> (\<exists>x. y = Some x \<and> p_inflight p' = x # p_inflight p)) \<and> (res = None \<longrightarrow> p' = p)"
  proof (cases v)
    case None
    then have "q = p_fastq p" using q by (auto simp: FIFO_TryPop_def split: if_splits prod.splits)
    with None r q wf show ?thesis by (auto simp: pop_fast_def calm_refl)
  next
    case (Some w)
    then have c: "fifo_contents (p_fastq p) = w # fifo_contents q" using c by simp
    obtain x where x: "w = Some x" using wf c by (cases w) (auto simp: pool_wf_def queues_ok_def)
    have p': "p' = p\<lparr>p_fastq := q, p_inflight := x # p_inflight p\<rparr>" and res: "res = Some (Some x)"
      using r q Some x by (auto simp: pop_fast_def)
    have l: "fq_len (p_fastq p) = Suc (fq_len q)" using arg_cong [OF c, of length] by simp
    have "calm p p'"
      by (rule take_calm [OF wf, of _ x])
        (use wf c x l i' in \<open>auto simp: p' places_def fast_ptrs_def queues_ok_def tracked_ok_def pool_wf_def balance_def inside_def busy_gap_def queued_ptrs_def\<close>)
    with p' res show ?thesis by simp
  qed
  then show "calm p p'" "res = Some y \<Longrightarrow> \<exists>x. y = Some x \<and> p_inflight p' = x # p_inflight p" "res = None \<Longrightarrow> p' = p" by auto
qed

lemma popSpill_calm:
  assumes wf: "pool_wf p" and r: "popSpill p = (res, p')"
  shows "calm p p'" "res = Some x \<Longrightarrow> p_inflight p' = x # p_inflight p" "res = None \<Longrightarrow> p' = p"
proof -
  have "calm p p'"
  proof (cases "p_spill p")
    case Nil
    with r wf show ?thesis by (auto simp: popSpill_def calm_refl)
  next
    case (Cons x rest)
    then have p': "p' = p\<lparr>p_spill := rest, p_inflight := x # p_inflight p\<rparr>" using r by (simp add: popSpill_def)
    show ?thesis
      by (rule take_calm [OF wf, of _ x])
        (use wf Cons in \<open>auto simp: p' places_def fast_ptrs_def queues_ok_def tracked_ok_def pool_wf_def balance_def inside_def busy_gap_def queued_ptrs_def\<close>)
  qed
  then show "calm p p'" "res = Some x \<Longrightarrow> p_inflight p' = x # p_inflight p" "res = None \<Longrightarrow> p' = p"
    using r by (auto simp: popSpill_def split: list.splits)
qed

lemma pop_q_calm:
  assumes wf: "pool_wf p" and r: "pop_q now p = (res, p')"
  shows "calm p p'" "res = Some x \<Longrightarrow> p_inflight p' = x # p_inflight p" "res = None \<Longrightarrow> p' = p"
proof -
  obtain v q where q: "PQ_TryPop now (p_q p) = (v, q)" by fastforce
  have i: "pq_inv (p_q p)" using wf by (simp add: pool_wf_def queues_ok_def)
  note i' = PQ_TryPop_inv [OF i q] and c = PQ_TryPop_elems [OF q]
  have "calm p p' \<and> (res = Some x \<longrightarrow> p_inflight p' = x # p_inflight p) \<and> (res = None \<longrightarrow> p' = p)"
  proof (cases v)
    case None
    then have "q = p_q p" using q by (auto simp: PQ_TryPop_def PQ_take_def split: if_splits option.splits)
    with None r q wf show ?thesis by (auto simp: pop_q_def calm_refl)
  next
    case (Some it)
    then have c: "pq_elems (p_q p) = add_mset it (pq_elems q)" using c by simp
    have p': "p' = p\<lparr>p_q := q, p_inflight := it_Value it # p_inflight p\<rparr>" and res: "res = Some (it_Value it)"
      using r q Some by (auto simp: pop_q_def)
    have "calm p p'"
      by (rule take_calm [OF wf, of _ "it_Value it"])
        (use wf c i' in \<open>auto simp: p' places_def fast_ptrs_def queues_ok_def tracked_ok_def pool_wf_def balance_def inside_def busy_gap_def queued_ptrs_def length_items\<close>)
    with p' res show ?thesis by simp
  qed
  then show "calm p p'" "res = Some x \<Longrightarrow> p_inflight p' = x # p_inflight p" "res = None \<Longrightarrow> p' = p" by auto
qed

lemma pop_basic_calm:
  assumes wf: "pool_wf p" and r: "pop_basic p = (res, p')"
  shows "calm p p'" "res = Some j \<Longrightarrow> p_basicTaken p' = p_basicTaken p + 1" "res = None \<Longrightarrow> p' = p"
proof -
  obtain v q where q: "FIFO_TryPop (p_basicq p) = (v, q)" by fastforce
  have i: "fifo_inv (p_basicq p)" using wf by (simp add: pool_wf_def queues_ok_def)
  note i' = fq.fifo_pop_inv [OF i q] and c = fq.fifo_pop [OF i q]
  have "calm p p' \<and> (res = Some j \<longrightarrow> p_basicTaken p' = p_basicTaken p + 1) \<and> (res = None \<longrightarrow> p' = p)"
  proof (cases v)
    case None
    then have "q = p_basicq p" using q by (auto simp: FIFO_TryPop_def split: if_splits prod.splits)
    with None r q wf show ?thesis by (auto simp: pop_basic_def calm_refl)
  next
    case (Some w)
    then have c: "fifo_contents (p_basicq p) = w # fifo_contents q" using c by simp
    have p': "p' = p\<lparr>p_basicq := q, p_basicTaken := p_basicTaken p + 1\<rparr>" and res: "res = Some w"
      using r q Some by (auto simp: pop_basic_def)
    have l: "fq_len (p_basicq p) = Suc (fq_len q)" using arg_cong [OF c, of length] by simp
    have w': "pool_wf p'" using wf i' by (simp add: p' wf_defs)
    have "calm p p'"
      by (rule calm_same) (use w' l in \<open>auto simp: p' sound_def balance_def inside_def busy_gap_def attempts_defs\<close>)
    with p' res show ?thesis by simp
  qed
  then show "calm p p'" "res = Some j \<Longrightarrow> p_basicTaken p' = p_basicTaken p + 1" "res = None \<Longrightarrow> p' = p" by auto
qed

lemma worker_poll_calm:
  assumes wf: "pool_wf p" and r: "worker_poll now p = (w, p')"
  shows "calm p p' \<and>
    (case w of WJob x \<Rightarrow> p_inflight p' = x # p_inflight p | WBasic j \<Rightarrow> p_basicTaken p' = p_basicTaken p + 1 | _ \<Rightarrow> p' = p)"
proof -
  obtain b p1 where b: "pop_basic p = (b, p1)" by fastforce
  obtain f p2 where f: "pop_fast p1 = (f, p2)" by fastforce
  obtain s p3 where s: "popSpill p2 = (s, p3)" by fastforce
  obtain q p4 where q: "pop_q now p3 = (q, p4)" by fastforce
  note bc = pop_basic_calm [OF wf b]
  note fc = pop_fast_calm [OF calm_wf [OF bc(1)] f]
  note sc = popSpill_calm [OF calm_wf [OF fc(1)] s]
  note qc = pop_q_calm [OF calm_wf [OF sc(1)] q]
  show ?thesis
  proof (cases "p_state p = stateTerminated \<or> p_state p = statePaused")
    case True
    with r wf show ?thesis by (auto simp: worker_poll_def calm_refl split: if_splits)
  next
    case False
    show ?thesis
    proof (cases b)
      case (Some j)
      with r b bc False show ?thesis by (auto simp: worker_poll_def)
    next
      case bn: None
      then have p1: "p1 = p" using bc by simp
      show ?thesis
      proof (cases f)
        case (Some y)
        with fc(2) obtain x where "y = Some x" "p_inflight p2 = x # p_inflight p1" by blast
        with Some r b f fc(1) False bn p1 show ?thesis by (auto simp: worker_poll_def)
      next
        case fn: None
        then have p2: "p2 = p" using fc p1 by simp
        show ?thesis
        proof (cases s)
          case (Some x)
          with r b f s sc(1,2) False bn fn p2 show ?thesis by (auto simp: worker_poll_def)
        next
          case sn: None
          then have p3: "p3 = p" using sc p2 by simp
          with r b f s q qc False bn fn sn show ?thesis by (cases q) (auto simp: worker_poll_def)
        qed
      qed
    qed
  qed
qed

subsection \<open>Control operations\<close>

lemma basic_begin_wf:
  assumes "pool_wf p" "p_basicTaken p > 0"
  shows "calm p (basic_begin p)"
proof (rule calm_same)
  show "sound p (basic_begin p)"
    using assms by (simp add: sound_def basic_begin_def Let_def wf_defs) (simp add: balance_def inside_def busy_gap_def attempts_defs)
qed (simp_all add: basic_begin_def Let_def)

lemma basic_finish_wf:
  assumes "pool_wf p" "p_basicRunning p > 0"
  shows "calm p (basic_finish r p)"
proof (rule calm_same)
  show "sound p (basic_finish r p)"
    using assms
    by (cases r; cases "\<exists>x. r = Returned (Some x)")
      (auto simp: sound_def basic_finish_def Let_def wf_defs balance_def inside_def busy_gap_def of_nat_diff attempts_defs)
qed (cases r; simp add: basic_finish_def Let_def)+

lemma calm_observer:
  assumes "pool_wf p"
  shows "calm p (note_act a p)" "calm p (emit e ev p)" "calm p (p\<lparr>p_queueWake := wk\<rparr>)" "calm p (p\<lparr>p_pausedQueues := pq\<rparr>)"
    "calm p (p\<lparr>p_workers := w\<rparr>)" "halted (p_state p) \<longrightarrow> halted st \<Longrightarrow> calm p (p\<lparr>p_state := st\<rparr>)" "calm p (p\<lparr>p_started := t\<rparr>)" "calm p (p\<lparr>p_ctxCancelled := c\<rparr>)"
    "calm p (p\<lparr>p_buckets := bs, p_rates := rt, p_nextBucket := n\<rparr>)" "calm p (p\<lparr>p_queueDefaults := qd\<rparr>)"
    "calm p (p\<lparr>p_defaultOptions := opt\<rparr>)" "calm p (p\<lparr>p_idemp := ik\<rparr>)" "calm p (p\<lparr>p_scaleStop := ss\<rparr>)"
  by (rule calm_same; use assms in \<open>simp add: sound_def\<close>)+

lemma signalQueueWake_calm: "pool_wf p \<Longrightarrow> calm p (signalQueueWake p)"
  by (simp add: signalQueueWake_def calm_observer)

lemma PauseQueue_calm: "pool_wf p \<Longrightarrow> calm p (PauseQueue e name p)"
  by (auto simp: PauseQueue_def intro!: calm_refl calm_trans [OF _ signalQueueWake_calm] calm_trans [OF _ calm_observer(2)] calm_observer(4))

lemma ResumeQueue_calm: "pool_wf p \<Longrightarrow> calm p (ResumeQueue e name p)"
  by (auto simp: ResumeQueue_def intro!: calm_refl calm_trans [OF _ signalQueueWake_calm] calm_trans [OF _ calm_observer(2)] calm_observer(4))

lemma SetRateLimit_calm: "pool_wf p \<Longrightarrow> calm p (SetRateLimit now key r p)"
  unfolding SetRateLimit_def by (rule calm_same) (simp_all add: sound_def)

lemma settings_calm:
  assumes "pool_wf p"
  shows "calm p (SetQueuePolicy name policy p)" "calm p (UpdateQueueWeight name n p)" "calm p (SetDefaultOptions opt p)"
    "calm p (Replace_key key p)"
  using assms
  by (simp_all add: SetQueuePolicy_def UpdateQueueWeight_def SetDefaultOptions_def Replace_key_def Let_def calm_refl calm_observer)

lemma spawnWorkers: "((\<lambda>p. snd (spawnWorker p)) ^^ n) p = p\<lparr>p_workers := p_workers p + int n\<rparr>"
  by (induction n) (simp_all add: spawnWorker_def Let_def)

lemma Start_calm: "pool_wf p \<Longrightarrow> calm p (Start e p)"
  unfolding Start_def Let_def spawnWorkers
  by (rule calm_same) (simp_all add: sound_def)

lemma worker_start_calm: "pool_wf p \<Longrightarrow> calm p (worker_start e wid p)"
  unfolding worker_start_def Let_def by (rule calm_same) (simp_all add: sound_def)

lemma worker_exit_calm: "pool_wf p \<Longrightarrow> calm p (worker_exit e wid p)"
  unfolding worker_exit_def Let_def by (rule calm_same) (simp_all add: sound_def)

lemma autoscale_calm: "pool_wf p \<Longrightarrow> calm p (autoscale_tick p)"
  unfolding autoscale_tick_def Let_def spawnWorker_def by (rule calm_same) (simp_all add: sound_def)

lemma Pause_sound:
  "\<forall>f \<in> set fs. polite B f \<Longrightarrow> pool_wf p \<Longrightarrow> sound p (snd (Pause e fs p))"
proof (induction e fs p rule: Pause.induct)
  case (2 e f fs p)
  define q where "q = f (emit e (mk_event EventPoolPausing) p)"
  have "sound p q" using 2(2,3) sound_steady [of p "emit e (mk_event EventPoolPausing) p" f]
    by (simp add: q_def sound_refl polite_def)
  with 2 show ?case
    by (auto simp: Let_def q_def [symmetric] sound_refl) (auto simp: sound_def)
qed (simp add: sound_def)

lemma Resume_sound:
  "\<forall>f \<in> set fs. polite B f \<Longrightarrow> pool_wf p \<Longrightarrow> sound p (snd (Resume e fs p))"
proof (induction e fs p rule: Resume.induct)
  case (2 e f fs p)
  define q where "q = f (emit e (mk_event EventPoolResuming) p)"
  have "sound p q" using 2(2,3) sound_steady [of p "emit e (mk_event EventPoolResuming) p" f]
    by (simp add: q_def sound_refl polite_def)
  with 2 show ?case
    by (auto simp: Let_def q_def [symmetric] sound_refl) (auto simp: sound_def)
qed (simp add: sound_def)

lemma Close_frame [simp]:
  "fq_len (FIFO_Close q) = fq_len q" "pq_elems (PQ_Close r) = pq_elems r" "pq_items (PQ_Close r) = pq_items r"
  by (simp_all add: FIFO_Close_def PQ_Close_def PQ_signalLocked_def pq_elems_def)

lemma close_fifos_calm: "pool_wf p \<Longrightarrow> calm p (close_fifos p)"
  by (rule calm_same)
    (simp_all add: close_fifos_def sound_def, simp_all add: wf_defs balance_def inside_def busy_gap_def attempts_defs futures_defs)

lemma close_q_calm: "pool_wf p \<Longrightarrow> calm p (p\<lparr>p_q := PQ_Close (p_q p)\<rparr>)"
  by (rule calm_same) (simp_all add: sound_def wf_defs balance_def inside_def busy_gap_def attempts_defs futures_defs PQ_Close_inv)

lemma close_queues_calm:
  assumes "calm p0 p"
  shows "calm p0 ((close_fifos p)\<lparr>p_q := PQ_Close (p_q (close_fifos p))\<rparr>)"
  using close_fifos_calm [OF calm_wf [OF assms]] close_q_calm calm_wf calm_trans [OF assms] calm_trans by metis

text \<open>A step after a calm stretch that touches only fields outside the invariant.\<close>

lemma calm_then:
  assumes "calm p0 p"
  shows "calm p0 (note_act a p)" "calm p0 (emit e ev p)" "halted st \<Longrightarrow> calm p0 (p\<lparr>p_state := st\<rparr>)" "calm p0 (p\<lparr>p_ctxCancelled := c\<rparr>)"
    "calm p0 (p\<lparr>p_scaleStop := ss\<rparr>)"
  by (rule calm_trans [OF assms], simp add: calm_observer calm_wf [OF assms])+

lemma Terminate_calm: "pool_wf p \<Longrightarrow> calm p (Terminate e p)"
  unfolding Terminate_def Let_def
  by (auto intro!: calm_then close_queues_calm calm_refl)

lemma shutdown_stop_calm: "pool_wf p \<Longrightarrow> shutdown_stop e p = Some p' \<Longrightarrow> calm p p'"
  unfolding shutdown_stop_def Let_def
  by (auto intro!: calm_then close_queues_calm calm_refl split: if_splits)

lemma shutdown_begin_calm: "pool_wf p \<Longrightarrow> shutdown_begin e s p = (w, p') \<Longrightarrow> calm p p'"
  by (auto simp: shutdown_begin_def shutdown_stop_calm calm_refl simp del: State_less_simps split: if_splits option.splits)

lemma shutdown_end_calm: "pool_wf p \<Longrightarrow> calm p (shutdown_end e p)"
  unfolding shutdown_end_def Let_def by (auto intro!: calm_then calm_refl)

lemma pops_calm:
  assumes "pool_wf p"
  shows "calm p (snd (pop_basic p))" "calm p (snd (pop_fast p))" "calm p (snd (popSpill p))" "calm p (snd (pop_q now p))"
  using pop_basic_calm(1) pop_fast_calm(1) popSpill_calm(1) pop_q_calm(1) assms by (metis prod.collapse)+

subsection \<open>Cancellation and dead letters\<close>

lemma cancel_ctx_calm: "pool_wf p \<Longrightarrow> calm p (cancel_ctx c p)"
  by (rule calm_same) (auto simp: cancel_ctx_def sound_def split: option.split)

lemma upd_job_calm: "pool_wf p \<Longrightarrow> (\<And>q. job_const q (f q)) \<Longrightarrow> calm p (upd_job x f p)"
  by (rule calm_same) (auto simp: sound_def job_const_def)

lemma ReportProgress_calm: "pool_wf p \<Longrightarrow> calm p (ReportProgress e c n msg p)"
  by (cases c; unfold ReportProgress_def Let_def; rule calm_same)
    (simp_all add: sound_def del: fun_upd_apply, simp_all add: job_const_def)

lemma complete_future_calm: "pool_wf p \<Longrightarrow> calm p (complete_future u er p)"
  by (rule calm_same) (auto simp: sound_def)

lemma untrack_calm: "pool_wf p \<Longrightarrow> calm p (untrack i p)"
  by (rule calm_same) (auto simp: sound_def busy_gap_def)

lemma CancelJob_calm:
  assumes wf: "pool_wf p" and r: "CancelJob e i p = (ok, p')"
  shows "calm p p'"
proof (cases "map_of (p_jobs p) i")
  case None
  with r wf show ?thesis by (simp add: CancelJob_def calm_refl)
next
  case (Some x)
  define p1 where "p1 = upd_job x (\<lambda>q. q\<lparr>qj_finishedAt := e_now e 0\<rparr>) (upd_job x (\<lambda>q. q\<lparr>qj_state := JobCancelled\<rparr>) p)"
  define p2 where "p2 = cancel_ctx (qj_cancel (p_heap p1 x)) p1"
  define p3 where "p3 = complete_future (qj_future (p_heap p2 x)) (Some ErrCancelled) p2"
  have p': "p' = untrack i p3" using r Some by (simp add: CancelJob_def Let_def p1_def p2_def p3_def)
  have "calm p p1" unfolding p1_def by (rule calm_same) (simp_all add: sound_def wf, simp add: job_const_def)
  moreover have "calm p1 p2" unfolding p2_def by (rule cancel_ctx_calm [OF calm_wf [OF \<open>calm p p1\<close>]])
  moreover have "calm p2 p3" unfolding p3_def by (rule complete_future_calm [OF calm_wf [OF \<open>calm p1 p2\<close>]])
  moreover have "calm p3 p'" unfolding p' by (rule untrack_calm [OF calm_wf [OF \<open>calm p2 p3\<close>]])
  ultimately show ?thesis using calm_trans by blast
qed

lemma resultJob_calm: "pool_wf p \<Longrightarrow> calm p (snd (resultJob_Run r u p))"
proof (rule calm_same)
  have "futures_ok (p\<lparr>p_futures := (p_futures p)(i := setValue v (p_futures p i))\<rparr>) = futures_ok p" for i v
    by (auto simp: futures_defs future_inv_def setValue_def)
  then show "pool_wf p \<Longrightarrow> sound p (snd (resultJob_Run r u p))"
    by (simp add: resultJob_Run_def sound_def split: option.split prod.split)
qed (simp_all add: resultJob_Run_def split: option.split prod.split)

lemma Future_Cancel_calm:
  assumes wf: "pool_wf p" and r: "Future_Cancel u p = Some (ok, p')"
  shows "calm p p'"
proof -
  obtain c f where f: "future_Cancel (p_futures p u) = Some (c, ok, f)"
    and p': "p' = cancel_ctx c (p\<lparr>p_futures := (p_futures p)(u := f)\<rparr>)"
    using r by (auto simp: Future_Cancel_def)
  let ?q = "p\<lparr>p_futures := (p_futures p)(u := f)\<rparr>"
  have "future_inv (p_futures p u) \<longrightarrow> future_inv f \<and> (fu_done (p_futures p u) \<longrightarrow> fu_done f)"
    using f by (auto simp: future_Cancel_def close_done_def future_inv_def split: if_splits option.splits)
  then have "futures_ok p \<longrightarrow> futures_ok ?q" by (auto simp: futures_defs)
  then have "calm p ?q" by (intro calm_same) (simp_all add: sound_def wf)
  then show ?thesis unfolding p' using cancel_ctx_calm calm_wf calm_trans by blast
qed

lemma cancel_range_calm: "pool_wf p \<Longrightarrow> cancel_range e is p = (n, p') \<Longrightarrow> calm p p'"
proof (induction "is" arbitrary: p n p')
  case (Cons a rest)
  obtain i d where a: "a = (i, d)" by fastforce
  obtain ok q where c: "CancelJob e i p = (ok, q)" by fastforce
  obtain m r where m: "cancel_range e rest q = (m, r)" by fastforce
  note cq = CancelJob_calm [OF Cons.prems(1) c]
  show ?case using Cons.prems Cons.IH [OF calm_wf [OF cq] m] cq calm_trans
    by (auto simp: a c m calm_refl split: if_splits)
qed (simp add: calm_refl)

lemma PurgeDeadLetters_calm:
  assumes "pool_wf p"
  shows "calm p (snd (PurgeDeadLetters p))"
proof (rule calm_same)
  let ?p = "p\<lparr>p_dlq := []\<rparr>"
  have "pool_wf ?p"
    by (rule places_le_wf [OF assms])
      (use assms in \<open>auto simp: places_def fast_ptrs_def queues_ok_def tracked_ok_def pool_wf_def\<close>)
  then show "sound p (snd (PurgeDeadLetters p))"
    by (simp add: PurgeDeadLetters_def sound_def balance_def inside_def) (simp add: attempts_defs)
qed (simp_all add: PurgeDeadLetters_def)

text \<open>Replaying: each of the jobs taken from the dead-letter queue goes to the priority queue, and is
  accepted once more, or goes back.\<close>

lemma kept_trans: "kept x p q \<Longrightarrow> kept x q r \<Longrightarrow> kept x p r"
  by (auto simp: kept_def job_const_def)

lemma replay_step:
  assumes wf: "pool_wf p" and x: "x \<in> set (p_inflight p)" and t: "try_q (job_item x q) q = (ok, q')"
    and q: "q = upd_job x (\<lambda>q. q\<lparr>qj_runAt := e_now e 0\<rparr>) (upd_job x (\<lambda>q. q\<lparr>qj_attempt := 0\<rparr>) p)"
    and r: "r = (if ok then bump (k_accepted_update (\<lambda>n. n + 1)) q' else leave x (q'\<lparr>p_dlq := p_dlq q' @ [x]\<rparr>))"
  shows "pool_wf r" "balance r = balance p + 1" "busy_gap r = busy_gap p" "p_cfg r = p_cfg p" "p_next r = p_next p"
    "p_inflight r = remove1 x (p_inflight p)" "p_state r = p_state p" "y \<noteq> x \<Longrightarrow> held y p \<Longrightarrow> kept y p r"
proof -
  have wq: "pool_wf q" "x \<in> set (p_inflight q)" "balance q = balance p" "busy_gap q = busy_gap p" "p_cfg q = p_cfg p"
    "p_next q = p_next p" "p_state q = p_state p" "p_inflight q = p_inflight p" "p_submitting q = p_submitting p" "p_running q = p_running p"
    using wf x by (simp_all add: q)
  have h: "held x q" "charge x q = 1" using wq by (simp_all add: held_def charge_def)
  have xs: "x \<notin> set (p_submitting q)" using held_once(1) [OF wq(1,2)] by simp
  note sp = try_q_spec [of q "job_item x q", simplified, OF wq(1) h(1) t]
  have fr: "p_next q' = p_next q \<and> p_state q' = p_state q \<and> p_submitting q' = p_submitting q \<and>
      p_inflight q' = (if ok then remove1 x (p_inflight q) else p_inflight q) \<and> p_running q' = p_running q \<and> p_heap q' = p_heap q"
    using t xs by (auto simp: try_q_def remove1_idem split: prod.splits)
  have "pool_wf r \<and> balance r = balance p + 1 \<and> busy_gap r = busy_gap p \<and> p_cfg r = p_cfg p \<and> p_next r = p_next p \<and>
      p_inflight r = remove1 x (p_inflight p) \<and> p_state r = p_state p \<and> p_submitting r = p_submitting p"
  proof (cases ok)
    case True
    with sp h wq fr show ?thesis by (simp add: r released_def)
  next
    case False
    then have "q' = q" using sp by simp
    with False to_dlq [OF wq(1) h(1) refl] h wq xs show ?thesis by (simp add: r remove1_idem)
  qed
  moreover have "y \<noteq> x \<Longrightarrow> held y p \<Longrightarrow> kept y p r"
  proof -
    assume y: "y \<noteq> x" "held y p"
    have "p_heap r y = p_heap p y" "p_running r = p_running p" using y fr by (simp_all add: r q)
    with calculation y show "kept y p r" by (simp add: kept_def held_def charge_def)
  qed
  ultimately show "pool_wf r" "balance r = balance p + 1" "busy_gap r = busy_gap p" "p_cfg r = p_cfg p" "p_next r = p_next p"
    "p_inflight r = remove1 x (p_inflight p)" "p_state r = p_state p" "y \<noteq> x \<Longrightarrow> held y p \<Longrightarrow> kept y p r" by auto
qed

text \<open>While dead letters are replayed, those not yet reset may have used up their attempts.\<close>

definition replaying :: "nat list \<Rightarrow> pool \<Rightarrow> bool" where
  "replaying items p \<longleftrightarrow> 1 \<le> c_DefaultMaxAttempts (p_cfg p) \<and> (\<forall>x \<in># queued_ptrs p. may_run (p_heap p x)) \<and>
     (\<forall>x \<in> set (p_inflight p). may_end (p_heap p x) \<and> (x \<notin> set (p_running p) \<longrightarrow> x \<notin> set items \<longrightarrow> may_run (p_heap p x))) \<and>
     (\<forall>x \<in> set (p_dlq p). may_end (p_heap p x))"

lemma replaying_Nil: "replaying [] p = attempts_ok p"
  by (simp add: replaying_def attempts_ok_def)

lemma replaying_step:
  assumes wf: "pool_wf p" and x: "x \<in> set (p_inflight p)" and t: "try_q (job_item x q) q = (ok, q')"
    and q: "q = upd_job x (\<lambda>q. q\<lparr>qj_runAt := e_now e 0\<rparr>) (upd_job x (\<lambda>q. q\<lparr>qj_attempt := 0\<rparr>) p)"
    and r: "r = (if ok then bump (k_accepted_update (\<lambda>n. n + 1)) q' else leave x (q'\<lparr>p_dlq := p_dlq q' @ [x]\<rparr>))"
    and rep: "replaying (x # items) p"
  shows "replaying items r"
proof -
  have mx: "may_run (p_heap q x)" "may_end (p_heap q x)"
    using rep x by (auto simp: q replaying_def may_run_def may_end_def)
  have other: "y \<noteq> x \<Longrightarrow> p_heap q y = p_heap p y" for y by (simp add: q)
  have fr: "p_cfg q = p_cfg p" "queued_ptrs q = queued_ptrs p" "p_inflight q = p_inflight p" "p_running q = p_running p" "p_dlq q = p_dlq p"
    by (simp_all add: q queued_ptrs_def fast_ptrs_def)
  have rq: "replaying items q"
    using rep inflight_only [OF wf x] other mx unfolding replaying_def fr by (metis set_ConsD)
  obtain pq where pq: "PQ_Push (job_item x q) (p_q q) = (ok, pq)" "q' = (if ok then leave x (q\<lparr>p_q := pq\<rparr>) else q)"
    using t by (auto simp: try_q_def split: prod.splits)
  have "queued_ptrs r \<subseteq># (if ok then add_mset x (queued_ptrs q) else queued_ptrs q)"
    using PQ_Push_elems [OF pq(1)] pq(2) by (auto simp: r queued_ptrs_def fast_ptrs_def ac_simps intro!: subset_mset.add_mono)
  then have "\<forall>y \<in># queued_ptrs r. y = x \<or> y \<in># queued_ptrs q" by (auto dest!: mset_subset_eqD split: if_splits)
  moreover have "p_cfg r = p_cfg q" "p_heap r = p_heap q" "p_running r = p_running q" "set (p_inflight r) \<subseteq> set (p_inflight q)"
    "set (p_dlq r) \<subseteq> insert x (set (p_dlq q))"
    using pq(2) by (auto simp: r dest!: subsetD [OF set_remove1_subset])
  ultimately show ?thesis using rq mx unfolding replaying_def by (metis insertE subsetD)
qed

lemma replay_loop_spec:
  "replay_loop e items n er p = (n', er', p') \<Longrightarrow> pool_wf p \<Longrightarrow> distinct items \<Longrightarrow> set items \<subseteq> set (p_inflight p) \<Longrightarrow>
   pool_wf p' \<and> balance p' = balance p + of_nat (length items) \<and> busy_gap p' = busy_gap p \<and> p_cfg p' = p_cfg p \<and>
   p_next p' = p_next p \<and> p_state p' = p_state p \<and> (replaying items p \<longrightarrow> attempts_ok p') \<and>
   (\<forall>y. y \<notin> set items \<longrightarrow> held y p \<longrightarrow> kept y p p')"
proof (induction items arbitrary: n er p)
  case Nil
  then show ?case by (auto simp: kept_refl replaying_Nil)
next
  case (Cons x items)
  define q where "q = upd_job x (\<lambda>q. q\<lparr>qj_runAt := e_now e 0\<rparr>) (upd_job x (\<lambda>q. q\<lparr>qj_attempt := 0\<rparr>) p)"
  obtain ok q' where t: "try_q (job_item x q) q = (ok, q')" by fastforce
  define r where "r = (if ok then bump (k_accepted_update (\<lambda>n. n + 1)) q' else leave x (q'\<lparr>p_dlq := p_dlq q' @ [x]\<rparr>))"
  have x: "x \<in> set (p_inflight p)" using Cons.prems(4) by simp
  note st = replay_step [OF Cons.prems(2) x t q_def r_def]
  have in_r: "set items \<subseteq> set (p_inflight r)"
    using Cons.prems(3,4) by (auto simp: st(6)) (metis in_set_remove1 subsetD)
  obtain n1 er1 where "replay_loop e items n1 er1 r = (n', er', p')"
    using Cons.prems(1) t by (cases ok) (simp_all add: Let_def r_def flip: q_def)
  from Cons.IH [OF this st(1)] Cons.prems(3) in_r
  have ih: "pool_wf p' \<and> balance p' = balance r + of_nat (length items) \<and> busy_gap p' = busy_gap r \<and> p_cfg p' = p_cfg r \<and>
    p_next p' = p_next r \<and> p_state p' = p_state r \<and> (replaying items r \<longrightarrow> attempts_ok p') \<and> (\<forall>y. y \<notin> set items \<longrightarrow> held y r \<longrightarrow> kept y r p')" by simp
  moreover have "kept y p p'" if "y \<notin> set (x # items)" "held y p" for y
    using st(8) [of y] that ih kept_trans by (auto simp: kept_def)
  ultimately show ?case using st replaying_step [OF Cons.prems(2) x t q_def r_def, of items] by simp
qed

lemma replay_loop_slots:
  "replay_loop e items n er p = (n', er', p') \<Longrightarrow>
   p_sem p' = p_sem p \<and> p_running p' = p_running p \<and> p_unlimited p' = p_unlimited p"
proof (induction e items n er p rule: replay_loop.induct)
  case (2 e x items n er p)
  have "p_sem q' = p_sem q \<and> p_running q' = p_running q \<and> p_unlimited q' = p_unlimited q" if "try_q it q = (ok, q')" for it q ok q'
    using that by (auto simp: try_q_def split: prod.splits if_splits)
  with 2 show ?case by (force simp: Let_def split: prod.splits if_splits)
qed simp

lemma replay_loop_futures:
  "replay_loop e items n er p = (n', er', p') \<Longrightarrow>
   p_futures p' = p_futures p \<and> (\<forall>x. qj_future (p_heap p' x) = qj_future (p_heap p x)) \<and> p_fastq p' = p_fastq p \<and>
   p_spill p' = p_spill p \<and> set_mset (pq_elems (p_q p)) \<subseteq> set_mset (pq_elems (p_q p'))"
proof (induction e items n er p rule: replay_loop.induct)
  case (2 e x items n er p)
  define q where "q = upd_job x (\<lambda>q. q\<lparr>qj_runAt := e_now e 0\<rparr>) (upd_job x (\<lambda>q. q\<lparr>qj_attempt := 0\<rparr>) p)"
  obtain ok pq where pq: "PQ_Push (job_item x q) (p_q q) = (ok, pq)" by fastforce
  have "p_q q = p_q p" "p_futures q = p_futures p" "p_fastq q = p_fastq p" "p_spill q = p_spill p"
    "qj_future (p_heap q y) = qj_future (p_heap p y)" for y by (simp_all add: q_def)
  with 2 PQ_Push_elems [OF pq] pq show ?case by (cases ok) (auto simp: Let_def try_q_def simp flip: q_def)
qed simp

lemma ReplayDeadLetters_calm:
  assumes wf: "pool_wf p" and r: "ReplayDeadLetters e p = (res, p')"
  shows "calm p p'"
proof (cases "p_state p \<ge> stateStopping")
  case True
  with r wf show ?thesis by (simp add: ReplayDeadLetters_def calm_refl del: State_less_simps)
next
  case False
  define q where "q = p\<lparr>p_dlq := [], p_inflight := p_dlq p @ p_inflight p\<rparr>"
  obtain n er where l: "replay_loop e (p_dlq p) 0 None q = (n, er, p')"
    using r False by (auto simp: ReplayDeadLetters_def q_def Let_def simp del: State_less_simps split: prod.splits)
  have pl: "places q = places p" by (simp add: q_def places_def fast_ptrs_def)
  have wq: "pool_wf q"
    by (rule places_le_wf [OF wf]) (use wf in \<open>auto simp: pl\<close>, auto simp: q_def queues_ok_def tracked_ok_def pool_wf_def)
  have "count (mset (p_dlq p)) x \<le> 1" for x
    using wf by (auto simp: pool_wf_def places_def dest!: spec [of _ x])
  then have d: "distinct (p_dlq p)" by (rule distinct_count_le)
  have lo: "balance p' = balance q + of_nat (length (p_dlq p)) \<and> pool_wf p' \<and> busy_gap p' = busy_gap q \<and> p_cfg p' = p_cfg q \<and>
      p_next p' = p_next q \<and> p_state p' = p_state q \<and> (replaying (p_dlq p) q \<longrightarrow> attempts_ok p') \<and> (\<forall>y. y \<notin> set (p_dlq p) \<longrightarrow> held y q \<longrightarrow> kept y q p')"
    using replay_loop_spec [OF l wq d] by (simp add: q_def)
  have rp: "attempts_ok p \<longrightarrow> replaying (p_dlq p) q"
    by (auto simp: q_def replaying_def attempts_defs)
  have bq: "balance q + of_nat (length (p_dlq p)) = balance p" "busy_gap q = busy_gap p" "p_cfg q = p_cfg p" "p_next q = p_next p" "p_state q = p_state p"
    by (simp_all add: q_def balance_def inside_def busy_gap_def)
  have kq: "y \<notin> set (p_dlq p) \<and> kept y p q" if "held y p" for y
  proof -
    have "y \<notin> set (p_dlq p)" using held_once [OF wf, of y] that by (auto simp: held_def)
    with that show ?thesis by (simp add: kept_def q_def held_def charge_def)
  qed
  have k: "kept y p p'" if "held y p" for y
    using kq [OF that] lo kept_trans [of y p q p'] by (auto simp: kept_def)
  have "slots_ok p \<longrightarrow> slots_ok p'"
  proof (intro impI, rule slots_ok_mono)
    show "p_sem p' = p_sem p" "p_running p' = p_running p" "p_unlimited p' = p_unlimited p"
      using replay_loop_slots [OF l] by (simp_all add: q_def)
    show "set (p_running p) \<subseteq> set (p_inflight p')" if "set (p_running p) \<subseteq> set (p_inflight p)"
      using that k by (auto simp: kept_def charge_iff held_def)
    show "qj_opts (p_heap p' y) = qj_opts (p_heap p y)" if "y \<in> set (p_inflight p)" for y
      using that k [of y] by (simp add: kept_def job_const_def held_def)
  qed
  moreover have "futures_ok p \<longrightarrow> futures_ok p'"
  proof (intro impI, rule futures_ok_mono)
    note l' = replay_loop_futures [OF l]
    show "p_futures p' = p_futures p" "qj_future (p_heap p' x) = qj_future (p_heap p x)" for x using l' by (simp_all add: q_def)
    show "p_cfg p' = p_cfg p" using lo bq by simp
    have "set (p_submitting p) \<union> set (p_inflight p) \<subseteq> live p'" using k by (auto simp: kept_def held_def live_def)
    then show "live p \<subseteq> live p'" using l' by (auto simp: live_def fast_ptrs_def q_def)
  qed
  ultimately show ?thesis using lo rp bq k by (simp add: calm_def sound_def)
qed

end
