(* ===== verification/Pool_System.thy ===== *)
theory Pool_System
  imports Pool_Preserve_Control
begin

text \<open>
  The pool as a whole: what \<open>New\<close> returns, the step relation over every operation of every
  goroutine, and the invariants of all reachable pools.
\<close>

subsection \<open>A new pool\<close>

definition blank :: "pool \<Rightarrow> bool" where
  "blank p \<longleftrightarrow> p_state p = stateNew \<and>
     p_q p = NewPriorityQueue (c_QueueSize (p_cfg p)) \<and> p_basicq p = NewFIFO None (c_QueueSize (p_cfg p)) \<and>
     p_fastq p = NewFIFO None (c_QueueSize (p_cfg p)) \<and>
     p_submitting p = [] \<and> p_inflight p = [] \<and> p_running p = [] \<and> p_spill p = [] \<and> p_dlq p = [] \<and> p_jobPool p = [] \<and>
     p_jobs p = [] \<and> p_basicTaken p = 0 \<and> p_basicRunning p = 0 \<and> p_gone p = 0 \<and> p_c p = zero_counters \<and>
     p_sem p = newKeyedSemaphore \<and> p_heap p = (\<lambda>_. zero_job) \<and> p_futures p = (\<lambda>_. newFutureAny)"

lemma NewFIFO_len [simp]: "fq_len (NewFIFO z n) = 0"
  by (simp add: NewFIFO_def)

lemma NewPriorityQueue_empty [simp]: "pq_elems (NewPriorityQueue n) = {#}" "pq_items (NewPriorityQueue n) = []"
  by (simp_all add: pq_elems_def NewPriorityQueue_def)

lemma blank_wf:
  assumes "blank p"
  shows "pool_wf p" "balance p = 0" "busy_gap p = 0" "QueueDepth p = 0"
  using assms
  by (simp_all add: blank_def wf_defs fifo_inv_New pq_inv_New balance_def inside_def busy_gap_def zero_counters_def
      QueueDepth_def SpillDepth_def PQ_Len_def FIFO_Len_def)

lemma blank_attempts: "blank p \<Longrightarrow> config_ok (p_cfg p) \<Longrightarrow> attempts_ok p"
proof -
  have e: "fifo_contents (NewFIFO None n :: nat option fifo) = []" for n by (simp flip: length_0_conv)
  show "blank p \<Longrightarrow> config_ok (p_cfg p) \<Longrightarrow> attempts_ok p" by (simp add: e blank_def attempts_defs config_ok_def)
qed

lemma blank_slots: "blank p \<Longrightarrow> slots_ok p"
  by (simp add: blank_def slots_ok_def slots_def newKeyedSemaphore_def)

lemma blank_futures: "blank p \<Longrightarrow> futures_ok p"
  by (simp add: blank_def futures_ok_def answered_def future_inv_def newFutureAny_def zero_job_def)

lemma emit_blank [simp]: "blank (emit e ev p) = blank p"
  by (simp add: blank_def)

text \<open>\<open>GOMAXPROCS\<close> small enough for the arithmetic of \<open>PresetHighThroughput\<close>.\<close>

fun sane_option :: "pool_option \<Rightarrow> bool" where
  "sane_option (PresetHighThroughput g) \<longleftrightarrow> runtimeWorkers g < 2 ^ 59"
| "sane_option _ \<longleftrightarrow> True"

lemma runtimeWorkers_pos: "1 \<le> runtimeWorkers g"
  by (simp add: runtimeWorkers_def split: option.split)

lemma preset_blank: "blank p \<Longrightarrow> blank (preset f p)"
  by (simp add: preset_def resetQueues_def upd_cfg_def blank_def Let_def)

lemma upd_cfg_blank: "blank p \<Longrightarrow> (\<And>c. c_QueueSize (f c) = c_QueueSize c) \<Longrightarrow> blank (upd_cfg f p)"
  by (simp add: upd_cfg_def blank_def)

lemma apply_option_blank: "blank p \<Longrightarrow> blank (apply_option now opt p)"
proof (cases opt)
  case (WithQueueSize n)
  assume "blank p"
  then show ?thesis by (simp add: WithQueueSize resetQueues_def upd_cfg_def) (simp add: blank_def)
qed (auto simp: preset_blank WithName_cfg_def WithWorkers_cfg_def WithWorkerRange_cfg_def Let_def intro!: upd_cfg_blank
      simp flip: One_nat_def,
    simp_all add: blank_def with_lifecycle_def SetRateLimit_def SetQueuePolicy_def)

lemma config_ok_range:
  "config_ok c \<Longrightarrow> 1 \<le> a \<Longrightarrow> a \<le> b \<Longrightarrow> config_ok (c\<lparr>c_MinWorkers := a, c_MaxWorkers := b\<rparr>)"
  by (simp add: config_ok_def)

lemma apply_option_config:
  assumes c: "config_ok (p_cfg p)" and s: "sane_option opt"
  shows "config_ok (p_cfg (apply_option now opt p))"
proof (cases opt)
  case (PresetHighThroughput g)
  have "wrap64 (runtimeWorkers g * 2) = runtimeWorkers g * 2" "wrap64 (runtimeWorkers g * 2 * 4) = runtimeWorkers g * 2 * 4"
    using s runtimeWorkers_pos [of g] by (auto simp: PresetHighThroughput intro!: wrap64_id)
  with c runtimeWorkers_pos [of g] show ?thesis
    by (simp add: PresetHighThroughput preset_def upd_cfg_def resetQueues_def PresetHighThroughput_cfg_def config_ok_def Let_def)
next
  case (PresetLowLatency g)
  with c runtimeWorkers_pos [of g] show ?thesis
    by (simp add: preset_def upd_cfg_def resetQueues_def PresetLowLatency_cfg_def config_ok_def Let_def)
qed (use c in \<open>auto simp: preset_def upd_cfg_def resetQueues_def WithName_cfg_def WithWorkers_cfg_def WithWorkerRange_cfg_def
    PresetReliable_cfg_def PresetBackgroundQueue_cfg_def PresetAPIBuffer_cfg_def config_ok_def Let_def
    with_lifecycle_def SetRateLimit_def SetQueuePolicy_def\<close>)

lemma New_blank: "blank (New e c opts)"
proof -
  have "blank (fold (apply_option t) opts p)" if "blank p" for t p
    using that by (induction opts arbitrary: p) (simp_all add: apply_option_blank)
  then show ?thesis by (simp add: New_def Let_def) (simp add: fresh_pool_def blank_def)
qed

lemma New_config:
  assumes "list_all sane_option opts"
  shows "config_ok (p_cfg (New e c opts))"
proof -
  have "config_ok (p_cfg (fold (apply_option t) opts p))" if "config_ok (p_cfg p)" for t p
    using that assms by (induction opts arbitrary: p) (simp_all add: apply_option_config)
  then show ?thesis by (simp add: New_def Let_def) (simp add: fresh_pool_def normalizeConfig_ok)
qed

subsection \<open>Steps\<close>

text \<open>One operation of one goroutine: a call of the application, or a stretch of a worker.  \<open>execute\<close>
  is two steps, around the job's own \<open>Run\<close>; \<open>Shutdown\<close> is two, around its wait for the workers.
  Where an operation waits, the others act in its rounds within what it relies on.\<close>

inductive pool_step :: "pool \<Rightarrow> pool \<Rightarrow> bool" where
  Start: "pool_step p (Start e p)"
| Submit: "steady_rates ars \<Longrightarrow> polite_rounds B rs \<Longrightarrow> others_hold B e p \<Longrightarrow>
    submit e ars rs j f opts p = Some (res, p') \<Longrightarrow> pool_step p p'"
| Poll: "worker_poll now p = (w, p') \<Longrightarrow> pool_step p p'"
| TakeBasic: "pool_step p (snd (pop_basic p))"
| TakeFast: "pool_step p (snd (pop_fast p))"
| TakeSpill: "pool_step p (snd (popSpill p))"
| TakeQ: "pool_step p (snd (pop_q now p))"
| Wake: "pool_step p (p\<lparr>p_queueWake := False\<rparr>)"
| Begin: "x \<in> set (p_inflight p) \<Longrightarrow> x \<notin> set (p_running p) \<Longrightarrow> rely_rounds x rs \<Longrightarrow>
    execute_begin e rs x p = Some (b, p') \<Longrightarrow> pool_step p p'"
| Finish: "x \<in> set (p_inflight p) \<Longrightarrow> x \<in> set (p_running p) \<Longrightarrow> rely_rounds x rs \<Longrightarrow>
    execute_finish e rs wid x r p = Some p' \<Longrightarrow> pool_step p p'"
| BasicBegin: "p_basicTaken p > 0 \<Longrightarrow> pool_step p (basic_begin p)"
| BasicFinish: "p_basicRunning p > 0 \<Longrightarrow> pool_step p (basic_finish out p)"
| WorkerStart: "pool_step p (worker_start e wid p)"
| WorkerExit: "pool_step p (worker_exit e wid p)"
| Autoscale: "pool_step p (autoscale_tick p)"
| Resize: "pool_step p (Resize n p)"
| Pause: "\<forall>f \<in> set fs. polite B f \<Longrightarrow> pool_step p (snd (Pause e fs p))"
| Resume: "\<forall>f \<in> set fs. polite B f \<Longrightarrow> pool_step p (snd (Resume e fs p))"
| ShutdownBegin: "shutdown_begin e (p_state p) p = (wt, p') \<Longrightarrow> pool_step p p'"
| ShutdownEnd: "p_workers p = 0 \<Longrightarrow> halted (p_state p) \<Longrightarrow> pool_step p (shutdown_end e p)"
| Terminate: "pool_step p (Terminate e p)"
| Cancel: "CancelJob e i p = (ok, p') \<Longrightarrow> pool_step p p'"
| FutureValue: "pool_step p (snd (resultJob_Run r u p))"
| FutureCancel: "Future_Cancel u p = Some (ok, p') \<Longrightarrow> pool_step p p'"
| CancelAll: "cancel_range e is p = (n, p') \<Longrightarrow> pool_step p p'"
| Replay: "ReplayDeadLetters e p = (res, p') \<Longrightarrow> pool_step p p'"
| Purge: "pool_step p (snd (PurgeDeadLetters p))"
| PauseQueue: "pool_step p (PauseQueue e name p)"
| ResumeQueue: "pool_step p (ResumeQueue e name p)"
| RateLimit: "pool_step p (SetRateLimit now key r p)"
| Policy: "pool_step p (SetQueuePolicy name policy p)"
| Weight: "pool_step p (UpdateQueueWeight name prio p)"
| Defaults: "pool_step p (SetDefaultOptions opt p)"
| Replace: "pool_step p (Replace_key key p)"
| Progress: "pool_step p (ReportProgress e ctxJob percent message p)"

text \<open>What every step keeps.\<close>

definition keeps :: "pool \<Rightarrow> pool \<Rightarrow> bool" where
  "keeps p p' \<longleftrightarrow> pool_wf p' \<and> balance p' = balance p \<and> busy_gap p' = busy_gap p \<and> p_next p \<le> p_next p' \<and>
     (halted (p_state p) \<longrightarrow> halted (p_state p')) \<and> (attempts_ok p \<longrightarrow> attempts_ok p') \<and>
     (slots_ok p \<longrightarrow> slots_ok p') \<and> (futures_ok p \<longrightarrow> futures_ok p')"

lemma sound_keeps: "sound p p' \<Longrightarrow> keeps p p'"
  by (simp add: sound_def keeps_def)

lemma calm_keeps: "calm p p' \<Longrightarrow> keeps p p'"
  by (simp add: calm_def sound_keeps)

lemma Resize_keeps: "pool_wf p \<Longrightarrow> keeps p (Resize n p)"
  unfolding Resize_def Let_def spawnWorkers upd_cfg_def keeps_def
  by (simp add: wf_defs balance_def inside_def busy_gap_def attempts_defs futures_defs)

lemma pool_step_keeps: "pool_step p p' \<Longrightarrow> pool_wf p \<Longrightarrow> keeps p p'"
proof (induction rule: pool_step.induct)
  case (Begin x p rs e b p')
  then show ?case using execute_begin_spec [OF Begin.prems Begin.hyps(1,3,4)] by (simp add: keeps_def)
next
  case (Finish x p rs e wid r p')
  then show ?case using execute_finish_spec [OF Finish.prems Finish.hyps(1,2,3,4)] by (simp add: keeps_def)
next
  case (Submit ars B rs e p j f opts res p')
  then show ?case by (intro sound_keeps submit_sound)
next
  case (Poll now p w p')
  then show ?case using worker_poll_calm calm_keeps by blast
qed (auto intro: calm_keeps Start_calm basic_begin_wf basic_finish_wf worker_start_calm worker_exit_calm autoscale_calm Resize_keeps
    sound_keeps Pause_sound Resume_sound shutdown_begin_calm shutdown_end_calm Terminate_calm CancelJob_calm resultJob_calm Future_Cancel_calm cancel_range_calm
    ReplayDeadLetters_calm PurgeDeadLetters_calm PauseQueue_calm ResumeQueue_calm SetRateLimit_calm settings_calm pops_calm calm_observer(3) ReportProgress_calm)

lemma pool_steps_keep: "pool_step\<^sup>*\<^sup>* p p' \<Longrightarrow> pool_wf p \<Longrightarrow> keeps p p'"
proof (induction rule: rtranclp_induct)
  case base
  then show ?case by (simp add: keeps_def)
next
  case (step q r)
  with pool_step_keeps [of q r] show ?case by (auto simp: keeps_def)
qed

lemma reachable_sound:
  assumes "pool_step\<^sup>*\<^sup>* (New e c opts) p"
  shows "pool_wf p" "balance p = 0" "busy_gap p = 0"
  using pool_steps_keep [OF assms] blank_wf [OF New_blank, of e c opts] by (simp_all add: keeps_def)

lemma reachable_attempts:
  assumes "pool_step\<^sup>*\<^sup>* (New e c opts) p" "list_all sane_option opts"
  shows "attempts_ok p"
  using pool_steps_keep [OF assms(1)] blank_wf [OF New_blank, of e c opts]
    blank_attempts [OF New_blank New_config [OF assms(2)]] by (simp add: keeps_def)

lemma reachable_futures: "pool_step\<^sup>*\<^sup>* (New e c opts) p \<Longrightarrow> futures_ok p"
  using pool_steps_keep [of "New e c opts" p] blank_wf(1) [OF New_blank, of e c opts] blank_futures [OF New_blank, of e c opts]
  by (simp add: keeps_def)

lemma reachable_slots: "pool_step\<^sup>*\<^sup>* (New e c opts) p \<Longrightarrow> slots_ok p"
  using pool_steps_keep [of "New e c opts" p] blank_wf(1) [OF New_blank, of e c opts] blank_slots [OF New_blank, of e c opts]
  by (simp add: keeps_def)

end
