(* ===== verification/Pool_Properties.thy ===== *)
theory Pool_Properties
  imports Pool_System
begin

text \<open>
  What every reachable pool satisfies, with a concrete pool for the witnesses: two workers' worth of
  queue, job tracking and job identities on, started.
\<close>

definition ex_env :: env where
  "ex_env = \<lparr>e_now = (\<lambda>n. 1000 + int n), e_stamp = (\<lambda>n. 2000 + int n), e_rnd = (\<lambda>n. 0), e_oob = (\<lambda>_. 0),
     e_ub = (\<lambda>_ _. 0), e_hs = \<lparr>hs_panics = (\<lambda>_ _. False), hs_effect = (\<lambda>_ _ l. l)\<rparr>, e_pick = None\<rparr>"

definition ex_config :: config where
  "ex_config = DefaultConfig\<lparr>c_QueueSize := 2, c_EnableJobTracking := True, c_EnableJobIDs := True\<rparr>"

definition ex_pool :: pool where
  "ex_pool = Start ex_env (New ex_env ex_config [])"

lemma ex_pool_reach: "pool_step\<^sup>*\<^sup>* (New ex_env ex_config []) ex_pool"
  unfolding ex_pool_def by (rule r_into_rtranclp, rule Start)

lemma ex_pool_wf: "pool_wf ex_pool" "balance ex_pool = 0" "busy_gap ex_pool = 0"
  using reachable_sound [OF ex_pool_reach] by auto

lemma ex_submit:
  obtains q where "submit ex_env [] [] (Some (UserJob 1)) None [] ex_pool = Some ((Some 0, None), q)"
    "QueueDepth q = 1" "k_accepted (p_c q) = 1" "fst ` set (p_jobs q) = {''job-1''}" "fast_ptrs q = [0]" "p_state q = stateRunning"
proof -
  have "case submit ex_env [] [] (Some (UserJob 1)) None [] ex_pool of
      None \<Rightarrow> False
    | Some (r, q) \<Rightarrow> r = (Some 0, None) \<and> QueueDepth q = 1 \<and> k_accepted (p_c q) = 1 \<and> map fst (p_jobs q) = [''job-1''] \<and>
        fast_ptrs q = [0] \<and> p_state q = stateRunning"
    by code_simp
  then show thesis using that by (auto split: option.splits simp flip: set_map)
qed

lemma no_rounds: "steady_rates []" "polite_rounds {} []" "others_hold {} e p"
  by (simp_all add: steady_rates_def polite_rounds_def others_hold_def)

lemma ex_submit_reach:
  obtains q where "pool_step\<^sup>*\<^sup>* (New ex_env ex_config []) q" "QueueDepth q = 1" "k_accepted (p_c q) = 1"
    "fast_ptrs q = [0]" "p_state q = stateRunning"
proof -
  obtain q where q: "submit ex_env [] [] (Some (UserJob 1)) None [] ex_pool = Some ((Some 0, None), q)"
    "QueueDepth q = 1" "k_accepted (p_c q) = 1" "fast_ptrs q = [0]" "p_state q = stateRunning" by (rule ex_submit)
  have "pool_step ex_pool q" by (rule Submit [OF no_rounds q(1)])
  with ex_pool_reach have "pool_step\<^sup>*\<^sup>* (New ex_env ex_config []) q" by (rule rtranclp.rtrancl_into_rtrancl)
  with q that show thesis by blast
qed

subsection \<open>Construction\<close>

text \<open>C25. Whatever configuration and options \<open>New\<close> is given (short of a number of processors that
  overflows a preset), the pool it returns has a usable configuration, three empty queues of the
  configured capacity - the presets and \<open>WithQueueSize\<close> replace the queues together with the size -
  and clean books; it is not started.\<close>

theorem New_ready:
  assumes "list_all sane_option opts"
  shows "config_ok (p_cfg (New e c opts)) \<and> p_state (New e c opts) = stateNew \<and>
    PQ_Cap (p_q (New e c opts)) = c_QueueSize (p_cfg (New e c opts)) \<and>
    FIFO_Cap (p_basicq (New e c opts)) = c_QueueSize (p_cfg (New e c opts)) \<and>
    FIFO_Cap (p_fastq (New e c opts)) = c_QueueSize (p_cfg (New e c opts)) \<and>
    QueueDepth (New e c opts) = 0 \<and> pool_wf (New e c opts) \<and> p_c (New e c opts) = zero_counters"
proof -
  have b: "blank (New e c opts)" by (rule New_blank)
  have c: "config_ok (p_cfg (New e c opts))" by (rule New_config [OF assms])
  then have "1 \<le> c_QueueSize (p_cfg (New e c opts))" by (simp add: config_ok_def)
  with b c blank_wf [OF b] show ?thesis
    by (simp add: blank_def PQ_Cap_def FIFO_Cap_def NewPriorityQueue_def NewFIFO_def)
qed

theorem New_ready_witness:
  "config_ok (p_cfg (New ex_env ex_config [WithWorkerRange 3 0, PresetHighThroughput (Some 8), WithQueueSize 5])) \<and>
   FIFO_Cap (p_fastq (New ex_env ex_config [WithWorkerRange 3 0, PresetHighThroughput (Some 8), WithQueueSize 5])) = 5"
proof -
  let ?opts = "[WithWorkerRange 3 0, PresetHighThroughput (Some 8), WithQueueSize 5]"
  have "c_QueueSize (p_cfg (New ex_env ex_config ?opts)) = 5"
    by (simp add: New_def Let_def preset_def upd_cfg_def resetQueues_def fresh_pool_def)
  then show ?thesis using New_ready [of ?opts ex_env ex_config] by (simp add: runtimeWorkers_def)
qed

subsection \<open>Invariants of reachable pools\<close>

text \<open>C1. A job is in one place: after any operations of any goroutines, no pointer occurs twice among
  the jobs being submitted, those in the workers' hands, those in the fast queue, the spill list,
  the priority queue and the dead-letter queue, and the job objects free for reuse.  So no job
  is run by two workers, and a recycled job object is referred to by nobody else.\<close>

theorem job_in_one_place:
  assumes "pool_step\<^sup>*\<^sup>* (New e c opts) p"
  shows "distinct (p_submitting p @ p_inflight p @ fast_ptrs p @ p_spill p @ map it_Value (pq_items (p_q p)) @ p_dlq p @ p_jobPool p)"
proof -
  let ?l = "p_submitting p @ p_inflight p @ fast_ptrs p @ p_spill p @ map it_Value (pq_items (p_q p)) @ p_dlq p @ p_jobPool p"
  have "mset ?l = places p" by (simp add: places_def pq_elems_def)
  then have c: "count (mset ?l) x \<le> 1" for x using reachable_sound(1) [OF assms] by (simp only: pool_wf_def)
  then show ?thesis by (rule distinct_count_le)
qed

theorem job_in_one_place_witness:
  "\<exists>q. fast_ptrs q = [0] \<and> 0 \<notin> set (p_inflight q) \<and> 0 \<notin> set (p_jobPool q)"
proof -
  obtain q where q: "pool_step\<^sup>*\<^sup>* (New ex_env ex_config []) q" "fast_ptrs q = [0]" by (rule ex_submit_reach)
  from job_in_one_place [OF q(1)] q(2) show ?thesis by (intro exI [of _ q]) auto
qed

text \<open>C2. Every accepted job is accounted for: it is in a queue, in a worker's hands, completed, dead
  or gone (cancelled while queued, or evicted by \<open>DropOldestPush\<close>).  The equation is the one of the
  64-bit counters, so it holds across their wrap-around; a replayed dead letter counts as accepted
  again.\<close>

theorem accepted_accounted:
  assumes "pool_step\<^sup>*\<^sup>* (New e c opts) p"
  shows "k_accepted (p_c p) = of_nat (length (fifo_contents (p_basicq p)) + p_basicTaken p + p_basicRunning p +
      length (fifo_contents (p_fastq p)) + length (p_spill p) + length (pq_items (p_q p)) + length (p_inflight p)) +
    k_completed (p_c p) + k_dlq (p_c p) + p_gone p"
  using reachable_sound(2) [OF assms] by (simp add: balance_def inside_def algebra_simps)

theorem accepted_accounted_witness:
  "\<exists>q :: pool. k_accepted (p_c q) = 1 \<and> of_nat (length (fifo_contents (p_basicq q)) + p_basicTaken q + p_basicRunning q + 1 +
     length (p_spill q) + length (pq_items (p_q q)) + length (p_inflight q)) + k_completed (p_c q) + k_dlq (p_c q) + p_gone q = 1"
proof -
  obtain q where q: "pool_step\<^sup>*\<^sup>* (New ex_env ex_config []) q" "k_accepted (p_c q) = 1" "fast_ptrs q = [0]" by (rule ex_submit_reach)
  have "length (fifo_contents (p_fastq q)) = 1" using arg_cong [OF q(3), of length] by (simp add: fast_ptrs_def)
  note eq = accepted_accounted [OF q(1), unfolded this q(2), symmetric]
  show ?thesis by (rule exI [of _ q], rule conjI [OF q(2) eq])
qed

text \<open>C3. No job is run more often than its \<open>MaxAttempts\<close> allows: in every reachable pool each job
  that waits to be run - being submitted, in a queue, or in the hands of a worker that has not begun
  it - has an attempt left, and no job a worker has run, and no dead letter, has used more than it
  has.  Retries, delays, replays of dead letters and reuse of job objects included.\<close>

theorem attempts_limit:
  assumes "pool_step\<^sup>*\<^sup>* (New e c opts) p" "list_all sane_option opts"
  shows "(\<forall>x \<in> set (p_submitting p @ fast_ptrs p @ p_spill p @ map it_Value (pq_items (p_q p)) @
            filter (\<lambda>x. x \<notin> set (p_running p)) (p_inflight p)).
          0 \<le> qj_attempt (p_heap p x) \<and> qj_attempt (p_heap p x) < o_MaxAttempts (qj_opts (p_heap p x))) \<and>
    (\<forall>x \<in> set (p_inflight p @ p_dlq p). qj_attempt (p_heap p x) \<le> o_MaxAttempts (qj_opts (p_heap p x)))"
  using reachable_attempts [OF assms]
  by (auto simp: attempts_defs pq_elems_def may_run_def may_end_def)

theorem attempts_limit_witness:
  "\<exists>q. fast_ptrs q = [0] \<and> qj_attempt (p_heap q 0) < o_MaxAttempts (qj_opts (p_heap q 0))"
proof -
  obtain q where q: "pool_step\<^sup>*\<^sup>* (New ex_env ex_config []) q" "fast_ptrs q = [0]" by (rule ex_submit_reach)
  from attempts_limit [OF q(1)] q(2) show ?thesis by (intro exI [of _ q]) auto
qed

text \<open>C15. The busy counter is the number of jobs that run, of either kind: it never drifts, whatever
  panics, timeouts, retries and cancellations happen.\<close>

theorem busy_counts_running:
  assumes "pool_step\<^sup>*\<^sup>* (New e c opts) p"
  shows "k_busy (p_c p) = int (length (p_running p)) + int (p_basicRunning p) \<and> st_BusyWorkers (Stats now p) \<ge> 0"
  using reachable_sound(3) [OF assms] by (simp add: busy_gap_def Stats_def)

theorem busy_counts_running_witness:
  "k_busy (p_c (basic_begin (ex_pool\<lparr>p_basicTaken := 1\<rparr>))) = 1 \<and> k_busy (p_c ex_pool) = int (length (p_running ex_pool)) + int (p_basicRunning ex_pool)"
proof -
  have "k_busy (p_c ex_pool) = 0" by code_simp
  then show ?thesis using busy_counts_running [OF ex_pool_reach] by (simp add: basic_begin_def)
qed

text \<open>C4. The concurrency limit.  A job runs in one worker's hands only, and for every key the semaphore
  counts at most the running jobs with that key - no slot is ever lost, so when none runs the next one
  may start - and exactly those as long as no job with the key has been run without a limit (such
  a job takes no slot and gives one back).  Until then a job that starts with limit \<open>l\<close> is one of at most \<open>l\<close>
  running jobs with its key, whatever panics, timeouts, retries and cancellations happen.\<close>

theorem concurrency_limit:
  assumes reach: "pool_step\<^sup>*\<^sup>* (New e0 c opts) p" and k: "k \<noteq> []"
    and x: "x \<in> set (p_inflight p)" "x \<notin> set (p_running p)" "rely_rounds x rs"
    and bg: "execute_begin e rs x p = Some (b, p')"
  shows "distinct (p_running p') \<and> set (p_running p') \<subseteq> set (p_inflight p') \<and> 0 \<le> p_sem p' k \<and>
    p_sem p' k \<le> int (length (filter (\<lambda>y. o_ConcurrencyKey (qj_opts (p_heap p' y)) = k) (p_running p'))) \<and>
    (\<not> p_unlimited p' k \<longrightarrow>
      p_sem p' k = int (length (filter (\<lambda>y. o_ConcurrencyKey (qj_opts (p_heap p' y)) = k) (p_running p'))) \<and>
      (b \<and> o_ConcurrencyKey (qj_opts (p_heap p x)) = k \<and> 0 < o_MaxConcurrentPerKey (qj_opts (p_heap p x)) \<longrightarrow>
        int (length (filter (\<lambda>y. o_ConcurrencyKey (qj_opts (p_heap p' y)) = k) (p_running p'))) \<le>
          o_MaxConcurrentPerKey (qj_opts (p_heap p x))))"
proof -
  have "pool_step\<^sup>*\<^sup>* (New e0 c opts) p'" by (rule rtranclp.rtrancl_into_rtrancl [OF reach Begin [OF x bg]])
  note ok = reachable_slots [OF this]
  have "p_sem p' k \<le> o_MaxConcurrentPerKey (qj_opts (p_heap p x))"
    if "b" "o_ConcurrencyKey (qj_opts (p_heap p x)) = k" "0 < o_MaxConcurrentPerKey (qj_opts (p_heap p x))"
    using started_within_limit [OF reachable_sound(1) [OF reach] x(1,3)] bg that k by simp
  with ok k show ?thesis by (auto simp: slots_ok_def slots_def users_def key_of_def)
qed

theorem concurrency_limit_witness:
  "\<exists>p q. execute_begin ex_env [] 0 p = Some (True, q) \<and> p_running p = [] \<and> p_running q = [0] \<and> p_sem q ''db'' = 1 \<and>
     fst (tryAcquire ''db'' 1 (p_sem q)) = False"
proof -
  have "case submit ex_env [] [] (Some (UserJob 1)) None [no_options\<lparr>o_ConcurrencyKey := ''db'', o_MaxConcurrentPerKey := 1\<rparr>] ex_pool of
      None \<Rightarrow> False
    | Some (r, p1) \<Rightarrow>
        (case worker_poll 2000 p1 of
           (w, p) \<Rightarrow> p_inflight p = [0] \<and> p_running p = [] \<and>
             (case execute_begin ex_env [] 0 p of
                None \<Rightarrow> False
              | Some (b, q) \<Rightarrow> b \<and> p_running q = [0] \<and> \<not> p_unlimited q ''db'' \<and> o_ConcurrencyKey (qj_opts (p_heap q 0)) = ''db''))"
    by code_simp
  then obtain r p1 w p q where c: "submit ex_env [] [] (Some (UserJob 1)) None
      [no_options\<lparr>o_ConcurrencyKey := ''db'', o_MaxConcurrentPerKey := 1\<rparr>] ex_pool = Some (r, p1)" "worker_poll 2000 p1 = (w, p)"
    and p: "p_inflight p = [0]" "p_running p = []"
    and q: "execute_begin ex_env [] 0 p = Some (True, q)" "p_running q = [0]" "\<not> p_unlimited q ''db''"
      "o_ConcurrencyKey (qj_opts (p_heap q 0)) = ''db''"
    by (auto split: option.splits prod.splits)
  have "pool_step\<^sup>*\<^sup>* (New ex_env ex_config []) p"
    using ex_pool_reach Submit [OF no_rounds c(1)] Poll [OF c(2)] by (metis rtranclp.rtrancl_into_rtrancl)
  moreover have "rely_rounds 0 []" by (simp add: rely_rounds_def)
  ultimately have "p_sem q ''db'' = 1" using concurrency_limit [OF _ _ _ _ _ q(1), of ex_env ex_config "[]" "''db''"] p q by simp
  with p q show ?thesis by (intro exI [of _ p] exI [of _ q]) (simp add: tryAcquire_def)
qed

text \<open>C5. No future that a job holds is forgotten.  Completing or cancelling a future never closes its channel
  twice, and in every reachable pool whose policy is not \<open>BackpressureDropOldest\<close>, whether the job was
  turned down by a full queue, retried, cancelled, replayed or shut down, the future of a job object
  that is no longer in a queue or in a goroutine's hands is decided, so that \<open>Get\<close> returns at once.
  (With that policy it may wait for ever: \<open>drop_oldest_forgets_future\<close>.  A call of \<open>SubmitResult\<close> that
  is turned down before it makes a job object, for the state of the pool, its key or its rate, returns
  a future that no job holds and nobody decides: \<open>refused_future_hangs\<close>.)\<close>

theorem no_future_forgotten:
  assumes "pool_step\<^sup>*\<^sup>* (New e c opts) p"
  shows "complete v er (p_futures p u) \<noteq> None \<and> Future_Cancel u p \<noteq> None \<and>
    (c_Backpressure (p_cfg p) \<noteq> BackpressureDropOldest \<and> qj_future (p_heap p x) = Some u \<and>
       x \<notin> set (p_submitting p @ p_inflight p @ fast_ptrs p @ p_spill p @ map it_Value (pq_items (p_q p))) \<longrightarrow>
     fu_done (p_futures p u) \<and> future_Get t zero False ctxErr (p_futures p u) \<noteq> None)"
proof -
  have f: "futures_ok p" by (rule reachable_futures [OF assms])
  then have i: "future_inv (p_futures p u)" by (simp add: futures_ok_def)
  have "live p = set (p_submitting p @ p_inflight p @ fast_ptrs p @ p_spill p @ map it_Value (pq_items (p_q p)))"
    by (auto simp: live_def pq_elems_def)
  moreover have "complete v er (p_futures p u) \<noteq> None" "Future_Cancel u p \<noteq> None"
    using i by (auto simp: complete_def Future_Cancel_def future_Cancel_def close_done_def future_inv_def Let_def)
  ultimately show ?thesis using f by (auto simp: futures_ok_def answered_def future_Get_def)
qed

text \<open>A job whose context is cancelled leaves the pool when its execution begins.\<close>

lemma cancelled_job_leaves:
  assumes "qj_ctx (p_heap p x) = Some c" "ctx_Err p c \<noteq> None" "qj_future (p_heap p x) = Some u"
  shows "\<exists>p'. execute_begin e rs x p = Some (False, p') \<and> p_submitting p' = remove1 x (p_submitting p) \<and>
    p_inflight p' = remove1 x (p_inflight p) \<and> fast_ptrs p' = fast_ptrs p \<and> p_spill p' = p_spill p \<and> p_q p' = p_q p \<and>
    qj_future (p_heap p' x) = Some u \<and> p_cfg p' = p_cfg p"
proof -
  have "ctx_Err (emitJob e EventJobDequeued x (qj_attempt (p_heap p x)) None [] p) c = ctx_Err p c"
    by (cases c) (simp_all add: ctx_Err_def)
  with assms show ?thesis
    by (simp add: execute_begin_def Let_def cancel_queued_def cancel_record_def releaseJob_def fast_ptrs_def)
qed

text \<open>A submission that finds room in the fast queue.\<close>

lemma queued_fast:
  assumes "useFastQueue opt (e_now e 2) (submit_runAt opt (e_now e 2))" "c_Backpressure (p_cfg p) = BackpressureBlock"
    "c_SubmitTimeout (p_cfg p) \<le> 0" "FIFO_TryPush (Some (p_next p)) (p_fastq p) = (True, q)" "\<not> fifo_waits (p_fastq p)"
    "e_pick e = None" "p_submitting p = []" "p_inflight p = []"
  shows "\<exists>p'. submit_queued e [] j (Some u) opt p = Some ((Some (p_next p), None), p') \<and> p_fastq p' = q \<and> p_submitting p' = [] \<and>
    p_inflight p' = [] \<and> p_running p' = p_running p \<and> p_spill p' = p_spill p \<and> p_q p' = p_q p \<and> p_cfg p' = p_cfg p \<and>
    qj_future (p_heap p' (p_next p)) = Some u \<and> qj_ctx (p_heap p' (p_next p)) = Some (JobCtx (p_nextCtx p)) \<and>
    p_futures p' = (p_futures p)(u := (p_futures p u)\<lparr>fu_cancel := Some (p_nextCtx p)\<rparr>)"
  using assms
  by (simp add: submit_queued_def new_job_def announce_job_def enqueue_job_def pushFast_def try_fast_def submit_end_def get_job_def Let_def)

lemma ex_future:
  obtains r p where "submit ex_env [] [] (Some (UserJob 1)) (Some 4) [] ex_pool = Some (r, p)" "fifo_contents (p_fastq p) = [Some 0]"
    "p_submitting p = []" "p_inflight p = []" "p_running p = []" "p_spill p = []" "pq_items (p_q p) = []"
    "c_Backpressure (p_cfg p) = BackpressureBlock" "qj_future (p_heap p 0) = Some 4" "qj_ctx (p_heap p 0) = Some (JobCtx 0)"
    "p_futures p 4 = newFutureAny\<lparr>fu_cancel := Some 0\<rparr>"
proof -
  let ?p = "bump (k_submitted_update (\<lambda>n. n + 1)) ex_pool"
  obtain opt p where op: "submit_options [] ?p = (opt, p)" by fastforce
  have "case submit_options [] ?p of (opt, p) \<Rightarrow>
      useFastQueue opt (e_now ex_env 2) (submit_runAt opt (e_now ex_env 2)) \<and> o_IdempotencyKey opt = [] \<and> o_RateLimitKey opt = []"
    by code_simp
  then have opt: "useFastQueue opt (e_now ex_env 2) (submit_runAt opt (e_now ex_env 2))" "o_IdempotencyKey opt = []" "o_RateLimitKey opt = []"
    unfolding op by simp_all
  have "case submit_options [] ?p of (opt, p) \<Rightarrow>
      c_Backpressure (p_cfg p) = BackpressureBlock \<and> c_SubmitTimeout (p_cfg p) \<le> 0 \<and> p_fastq p = NewFIFO None 2 \<and> p_next p = 0 \<and>
      p_submitting p = [] \<and> p_inflight p = [] \<and> p_running p = [] \<and> p_spill p = [] \<and> pq_items (p_q p) = [] \<and> p_nextCtx p = 0"
    by code_simp
  then have p: "c_Backpressure (p_cfg p) = BackpressureBlock" "c_SubmitTimeout (p_cfg p) \<le> 0" "p_fastq p = NewFIFO None 2" "p_next p = 0"
      "p_submitting p = []" "p_inflight p = []" "p_running p = []" "p_spill p = []" "pq_items (p_q p) = []" "p_nextCtx p = 0"
    unfolding op by simp_all
  have q: "FIFO_TryPush (Some 0) (NewFIFO None 2) = (True, fifo_store (Some 0) (NewFIFO None 2))" "\<not> fifo_waits (NewFIFO None 2)"
    by (simp_all add: FIFO_TryPush_def NewFIFO_def fifo_waits_def)
  have "p_futures p = p_futures ?p" using op by (auto simp: submit_options_def draw_id_def Let_def split: if_splits)
  then have f: "p_futures p 4 = newFutureAny" by (simp add: ex_pool_def Start_def New_def fresh_pool_def Let_def spawnWorkers)
  obtain p' where p': "submit_queued ex_env [] (UserJob 1) (Some 4) opt p = Some ((Some 0, None), p')"
      "p_fastq p' = fifo_store (Some 0) (NewFIFO None 2)" "p_submitting p' = []" "p_inflight p' = []" "p_running p' = []" "p_spill p' = []"
      "p_q p' = p_q p" "p_cfg p' = p_cfg p" "qj_future (p_heap p' 0) = Some 4" "qj_ctx (p_heap p' 0) = Some (JobCtx 0)"
      "p_futures p' = (p_futures p)(4 := (p_futures p 4)\<lparr>fu_cancel := Some 0\<rparr>)"
    using queued_fast [of opt ex_env p _ "UserJob 1" 4] opt(1) p q by (auto simp: ex_env_def)
  have l: "p_lifecycle ex_pool = None" by code_simp
  have st: "p_state ex_pool = stateRunning" by code_simp
  have "submit ex_env [] [] (Some (UserJob 1)) (Some 4) [] ex_pool = Some ((Some 0, None), p')"
    using op opt p'(1) by (simp add: submit_def Let_def emit_def l st submit_refusal_def useBasicFastPath_def submit_tracked_def
        admitRate_def rateBucket_def)
  moreover have "fifo_contents (p_fastq p') = [Some 0]"
    unfolding p'(2) by code_simp
  ultimately show thesis using that p' p f by simp
qed

theorem no_future_forgotten_witness:
  "\<exists>p. pool_step\<^sup>*\<^sup>* (New ex_env ex_config []) p \<and> qj_future (p_heap p 0) = Some 4 \<and> p_inflight p = [] \<and> fu_done (p_futures p 4)"
proof -
  obtain r p1 where s: "submit ex_env [] [] (Some (UserJob 1)) (Some 4) [] ex_pool = Some (r, p1)" "fifo_contents (p_fastq p1) = [Some 0]"
    "p_submitting p1 = []" "p_inflight p1 = []" "p_running p1 = []" "p_spill p1 = []" "pq_items (p_q p1) = []"
    "c_Backpressure (p_cfg p1) = BackpressureBlock" "qj_future (p_heap p1 0) = Some 4" "qj_ctx (p_heap p1 0) = Some (JobCtx 0)"
    "p_futures p1 4 = newFutureAny\<lparr>fu_cancel := Some 0\<rparr>" by (rule ex_future)
  have r1: "pool_step\<^sup>*\<^sup>* (New ex_env ex_config []) p1"
    using ex_pool_reach Submit [OF no_rounds s(1)] by (rule rtranclp.rtrancl_into_rtrancl)
  have "fifo_inv (p_fastq p1)" using reachable_sound(1) [OF r1] by (simp add: pool_wf_def queues_ok_def)
  moreover obtain res fq where t: "FIFO_TryPop (p_fastq p1) = (res, fq)" by fastforce
  ultimately have fq: "FIFO_TryPop (p_fastq p1) = (Some (Some 0), fq)" "fifo_contents fq = []"
    using fq.fifo_pop [OF _ t] s(2) by (simp_all add: eq_commute [of "[]"] split: option.splits)
  define p2 where "p2 = p1\<lparr>p_fastq := fq, p_inflight := [0]\<rparr>"
  have p2: "p2 = snd (pop_fast p1)" by (simp add: p2_def pop_fast_def fq(1) s(4))
  obtain ok p3 where p3: "Future_Cancel 4 p2 = Some (ok, p3)" "p3 = p2\<lparr>p_futures := p_futures p3, p_cancelled := insert 0 (p_cancelled p2)\<rparr>"
    by (simp add: Future_Cancel_def future_Cancel_def close_done_def p2_def s(11) newFutureAny_def cancel_ctx_def)
  have h: "qj_ctx (p_heap p3 0) = Some (JobCtx 0)" "ctx_Err p3 (JobCtx 0) \<noteq> None" "qj_future (p_heap p3 0) = Some 4"
    "p_inflight p3 = [0]" "p_submitting p3 = []" "p_running p3 = []" "fast_ptrs p3 = []" "p_spill p3 = []" "pq_items (p_q p3) = []"
    "c_Backpressure (p_cfg p3) = BackpressureBlock"
    by (subst p3(2), simp add: p2_def s ctx_Err_def fast_ptrs_def fq)+
  obtain p where p: "execute_begin ex_env [] 0 p3 = Some (False, p)" "p_submitting p = []" "p_inflight p = []"
      "fast_ptrs p = []" "p_spill p = []" "p_q p = p_q p3" "qj_future (p_heap p 0) = Some 4" "p_cfg p = p_cfg p3"
    using cancelled_job_leaves [OF h(1-3), of ex_env "[]"] h by auto
  have "0 \<in> set (p_inflight p3)" "0 \<notin> set (p_running p3)" "rely_rounds 0 []" using h by (simp_all add: rely_rounds_def)
  from Begin [OF this p(1)] have "pool_step\<^sup>*\<^sup>* (New ex_env ex_config []) p"
    using r1 TakeFast [of p1, folded p2] FutureCancel [OF p3(1)] by (metis rtranclp.rtrancl_into_rtrancl)
  with no_future_forgotten [of ex_env ex_config "[]" p None None 4 0] p h show ?thesis by (intro exI [of _ p]) simp
qed

text \<open>C11. Stopping is final: once a pool is stopping, stopped or terminated, no operation makes it run
  again, and from then on every \<open>submit\<close> fails at once, with \<open>ErrTerminated\<close> after a termination
  and \<open>ErrClosed\<close> otherwise, and puts nothing anywhere.\<close>

theorem stopping_is_final:
  assumes "pool_step\<^sup>*\<^sup>* (New e0 c opts0) p" "halted (p_state p)" "pool_step\<^sup>*\<^sup>* p p'"
  shows "halted (p_state p') \<and>
    (\<exists>q. submit e ars rs j f opts p' =
        Some ((None, Some (if p_state p' = stateTerminated then ErrTerminated else ErrClosed)), q) \<and>
      places q = places p' \<and> p_basicq q = p_basicq p' \<and> p_jobs q = p_jobs p')"
proof -
  have h: "halted (p_state p')"
    using pool_steps_keep [OF assms(3)] reachable_sound(1) [OF assms(1)] assms(2) by (simp add: keeps_def)
  define q where "q = snd (submit_rejected e (rejected_event (if p_state p' = stateTerminated then ErrTerminated else ErrClosed))
      ErrClosed (emit e (mk_event EventJobSubmitting) (bump (k_submitted_update (\<lambda>n. n + 1)) p')))"
  have "submit e ars rs j f opts p' = Some ((None, Some (if p_state p' = stateTerminated then ErrTerminated else ErrClosed)), q)"
    using h by (cases "p_state p'") (simp_all add: submit_def Let_def submit_refusal_def submit_rejected_def q_def)
  moreover have "places q = places p' \<and> p_basicq q = p_basicq p' \<and> p_jobs q = p_jobs p'"
    by (simp add: q_def submit_rejected_def places_def fast_ptrs_def)
  ultimately show ?thesis using h by blast
qed

theorem stopping_is_final_witness:
  "\<exists>q. submit ex_env [] [] (Some (UserJob 1)) None [] (snd (Resume ex_env [] (Terminate ex_env ex_pool))) = Some ((None, Some ErrTerminated), q)"
proof -
  have "pool_step\<^sup>*\<^sup>* (New ex_env ex_config []) (Terminate ex_env ex_pool)"
    by (rule rtranclp.rtrancl_into_rtrancl [OF ex_pool_reach Terminate])
  moreover have "p_state (Terminate ex_env ex_pool) = stateTerminated" by (simp add: Terminate_def Let_def close_fifos_def)
  moreover have "pool_step\<^sup>*\<^sup>* (Terminate ex_env ex_pool) (snd (Resume ex_env [] (Terminate ex_env ex_pool)))"
    by (rule r_into_rtranclp, rule Resume) simp
  ultimately show ?thesis
    using stopping_is_final [of ex_env ex_config "[]" "Terminate ex_env ex_pool" "snd (Resume ex_env [] (Terminate ex_env ex_pool))"
        ex_env "[]" "[]" "Some (UserJob 1)" None "[]"]
    by auto
qed

end
