(* ===== verification/Pool_Calls.thy ===== *)
theory Pool_Calls
  imports Pool_Control
begin

text \<open>
  The calls an application makes: the forms of submission of \<open>pool.go\<close>, \<open>usability.go\<close>
  (queue handles, the job builder, idempotency, payload adapters, channels) and \<open>typed.go\<close>, and
  the helpers that run a pool until a signal.  A closure over a payload is the job it becomes; the
  copies the adapters make of byte slices and maps are the values themselves.
\<close>

type_synonym rate_rounds = "(time \<times> time \<times> (pool \<Rightarrow> pool)) list"

subsection \<open>Submission\<close>

definition Submit ::
  "env \<Rightarrow> rate_rounds \<Rightarrow> round list \<Rightarrow> job option \<Rightarrow> JobOptions list \<Rightarrow> pool \<Rightarrow> (err option \<times> pool) option" where
  "Submit e ars rs j opts p = map_option (\<lambda>((_, er), p). (er, p)) (submit e ars rs j None opts p)"

text \<open>\<open>SubmitFunc\<close> and \<open>SubmitAny\<close> wrap a function, which is never a nil job.\<close>

definition SubmitFunc ::
  "env \<Rightarrow> rate_rounds \<Rightarrow> round list \<Rightarrow> nat \<Rightarrow> JobOptions list \<Rightarrow> pool \<Rightarrow> (err option \<times> pool) option" where
  "SubmitFunc e ars rs fn opts p = Submit e ars rs (Some (UserJob fn)) opts p"

text \<open>\<open>Run\<close> of an \<open>AnyJob\<close>, in a context \<open>c\<close>: without a handler it succeeds at once.  \<open>n\<close> names
  the job \<open>SubmitAny\<close> makes of payload and handler.\<close>

definition AnyJob_Run :: "('c \<Rightarrow> 'p \<Rightarrow> err option) option \<Rightarrow> 'p \<Rightarrow> 'c \<Rightarrow> err option" where
  "AnyJob_Run handler payload c = (case handler of None \<Rightarrow> None | Some h \<Rightarrow> h c payload)"

definition SubmitAny ::
  "env \<Rightarrow> rate_rounds \<Rightarrow> round list \<Rightarrow> nat \<Rightarrow> JobOptions list \<Rightarrow> pool \<Rightarrow> (err option \<times> pool) option" where
  "SubmitAny e ars rs n opts p = Submit e ars rs (Some (UserJob n)) opts p"

text \<open>The payload adapters: \<open>fn\<close> names the closure over the handler and the copied payload.\<close>

definition SubmitBytes ::
  "env \<Rightarrow> rate_rounds \<Rightarrow> round list \<Rightarrow> nat \<Rightarrow> JobOptions list \<Rightarrow> pool \<Rightarrow> (err option \<times> pool) option" where
  "SubmitBytes e ars rs fn opts p = SubmitFunc e ars rs fn opts p"

definition SubmitMap ::
  "env \<Rightarrow> rate_rounds \<Rightarrow> round list \<Rightarrow> nat \<Rightarrow> JobOptions list \<Rightarrow> pool \<Rightarrow> (err option \<times> pool) option" where
  "SubmitMap e ars rs fn opts p = SubmitFunc e ars rs fn opts p"

definition SubmitStruct ::
  "env \<Rightarrow> rate_rounds \<Rightarrow> round list \<Rightarrow> nat \<Rightarrow> JobOptions list \<Rightarrow> pool \<Rightarrow> (err option \<times> pool) option" where
  "SubmitStruct e ars rs n opts p = SubmitAny e ars rs n opts p"

text \<open>\<open>SubmitResult\<close> returns a future, at the new address \<open>i\<close>, whatever the error.\<close>

definition SubmitResult ::
  "env \<Rightarrow> rate_rounds \<Rightarrow> round list \<Rightarrow> nat \<Rightarrow> nat \<Rightarrow> JobOptions list \<Rightarrow> pool \<Rightarrow> ((nat \<times> err option) \<times> pool) option" where
  "SubmitResult e ars rs i fn opts p =
     (let p = p\<lparr>p_futures := (p_futures p)(i := newFutureAny)\<rparr>
      in map_option (\<lambda>((_, er), p). ((i, er), p)) (submit e ars rs (Some (ResultJob fn i)) (Some i) opts p))"

text \<open>The closure of a typed pool's \<open>Submit\<close>: the caller's context is checked before the handler.\<close>

definition typed_closure :: "err option \<Rightarrow> 'o \<Rightarrow> ('i \<Rightarrow> 'o \<times> err option) \<Rightarrow> 'i \<Rightarrow> 'o \<times> err option" where
  "typed_closure ctxErr zero handler x = (case ctxErr of Some er \<Rightarrow> (zero, Some er) | None \<Rightarrow> handler x)"

text \<open>A typed pool is a pool with a handler; its other methods are those of the pool, \<open>op\<close>.\<close>

record ('i, 'o) TypedPool =
  tp_pool :: pool
  tp_handler :: "'i \<Rightarrow> 'o \<times> err option"

definition NewTyped :: "env \<Rightarrow> config \<Rightarrow> ('i \<Rightarrow> 'o \<times> err option) \<Rightarrow> pool_option list \<Rightarrow> ('i, 'o) TypedPool" where
  "NewTyped e c h opts = \<lparr>tp_pool = New e c opts, tp_handler = h\<rparr>"

definition TypedPool_call :: "(pool \<Rightarrow> 'r \<times> pool) \<Rightarrow> ('i, 'o) TypedPool \<Rightarrow> 'r \<times> ('i, 'o) TypedPool" where
  "TypedPool_call op t = (case op (tp_pool t) of (r, p) \<Rightarrow> (r, t\<lparr>tp_pool := p\<rparr>))"

definition TypedPool_Submit ::
  "env \<Rightarrow> rate_rounds \<Rightarrow> round list \<Rightarrow> nat \<Rightarrow> nat \<Rightarrow> JobOptions list \<Rightarrow> ('i, 'o) TypedPool \<Rightarrow> ((nat \<times> err option) \<times> ('i, 'o) TypedPool) option" where
  "TypedPool_Submit e ars rs i fn opts t =
     map_option (\<lambda>(r, p). (r, t\<lparr>tp_pool := p\<rparr>)) (SubmitResult e ars rs i fn opts (tp_pool t))"

text \<open>The closure of \<open>SubmitJSON\<close>: a payload that does not decode is a permanent error.\<close>

definition json_closure :: "bool \<Rightarrow> (string \<Rightarrow> err option) \<Rightarrow> (string \<Rightarrow> err option) \<Rightarrow> string \<Rightarrow> err option" where
  "json_closure has_dst unmarshal handler b =
     (if has_dst then (case unmarshal b of Some er \<Rightarrow> Permanent (Some er) | None \<Rightarrow> handler b) else handler b)"

subsection \<open>Queue handles\<close>

definition queue_options :: "string \<Rightarrow> JobOptions list \<Rightarrow> JobOptions" where
  "queue_options name opts = (firstOptions opts)\<lparr>o_Queue := name\<rparr>"

definition QueueHandle_Submit ::
  "env \<Rightarrow> rate_rounds \<Rightarrow> round list \<Rightarrow> string \<Rightarrow> job option \<Rightarrow> JobOptions list \<Rightarrow> pool \<Rightarrow> (err option \<times> pool) option" where
  "QueueHandle_Submit e ars rs name j opts p = Submit e ars rs j [queue_options name opts] p"

definition QueueHandle_SubmitResult ::
  "env \<Rightarrow> rate_rounds \<Rightarrow> round list \<Rightarrow> string \<Rightarrow> nat \<Rightarrow> nat \<Rightarrow> JobOptions list \<Rightarrow> pool \<Rightarrow> ((nat \<times> err option) \<times> pool) option" where
  "QueueHandle_SubmitResult e ars rs name i fn opts p = SubmitResult e ars rs i fn [queue_options name opts] p"

definition QueueHandle_SubmitAny ::
  "env \<Rightarrow> rate_rounds \<Rightarrow> round list \<Rightarrow> string \<Rightarrow> nat \<Rightarrow> JobOptions list \<Rightarrow> pool \<Rightarrow> (err option \<times> pool) option" where
  "QueueHandle_SubmitAny e ars rs name n opts p = SubmitAny e ars rs n [queue_options name opts] p"

definition QueueHandle_Pause :: "env \<Rightarrow> string \<Rightarrow> pool \<Rightarrow> pool" where
  "QueueHandle_Pause e name p = PauseQueue e name p"

definition QueueHandle_Resume :: "env \<Rightarrow> string \<Rightarrow> pool \<Rightarrow> pool" where
  "QueueHandle_Resume e name p = ResumeQueue e name p"

definition QueuePolicy_of :: "string \<Rightarrow> pool \<Rightarrow> QueuePolicy option" where
  "QueuePolicy_of name p = p_queueDefaults p name"

subsection \<open>Rates\<close>

definition UpdateRateLimit :: "time \<Rightarrow> string \<Rightarrow> RateLimit \<Rightarrow> pool \<Rightarrow> pool" where
  "UpdateRateLimit now key r p = SetRateLimit now key r p"

definition allowRate :: "env \<Rightarrow> time \<Rightarrow> string \<Rightarrow> pool \<Rightarrow> bool \<times> pool" where
  "allowRate e now key p = (case rateBucket key p of None \<Rightarrow> (True, p) | Some b \<Rightarrow> bucket_allow e now b p)"

subsection \<open>Workers' own values\<close>

text \<open>\<open>Worker\<close>, which \<open>workerInit\<close> and \<open>workerClose\<close> are given: an identity and a map.\<close>

record 'v Worker =
  wk_ID :: int
  wk_values :: "string \<Rightarrow> 'v option"

definition Worker_Set :: "string \<Rightarrow> 'v \<Rightarrow> 'v Worker \<Rightarrow> 'v Worker" where
  "Worker_Set key v w = w\<lparr>wk_values := (wk_values w)(key \<mapsto> v)\<rparr>"

definition Worker_Get :: "string \<Rightarrow> 'v Worker \<Rightarrow> 'v option" where
  "Worker_Get key w = wk_values w key"

subsection \<open>Idempotency\<close>

definition Once ::
  "env \<Rightarrow> rate_rounds \<Rightarrow> round list \<Rightarrow> string \<Rightarrow> job option \<Rightarrow> JobOptions list \<Rightarrow> pool \<Rightarrow> (err option \<times> pool) option" where
  "Once e ars rs key j opts p = Submit e ars rs j [Once_options key opts] p"

definition OncePer ::
  "env \<Rightarrow> rate_rounds \<Rightarrow> round list \<Rightarrow> string \<Rightarrow> duration \<Rightarrow> int \<Rightarrow> job option \<Rightarrow> JobOptions list \<Rightarrow> pool \<Rightarrow> (err option \<times> pool) option" where
  "OncePer e ars rs key ttl unixNano j opts p = Once e ars rs (OncePer_key key ttl unixNano) j opts p"

definition Replace ::
  "env \<Rightarrow> rate_rounds \<Rightarrow> round list \<Rightarrow> string \<Rightarrow> job option \<Rightarrow> JobOptions list \<Rightarrow> pool \<Rightarrow> (err option \<times> pool) option" where
  "Replace e ars rs key j opts p = Once e ars rs key j opts (Replace_key key p)"

definition JoinExisting ::
  "env \<Rightarrow> rate_rounds \<Rightarrow> round list \<Rightarrow> string \<Rightarrow> job option \<Rightarrow> JobOptions list \<Rightarrow> pool \<Rightarrow> (err option \<times> pool) option" where
  "JoinExisting e ars rs key j opts p = Once e ars rs key j opts p"

subsection \<open>The job builder\<close>

text \<open>Every method changes the builder and returns it.\<close>

record job_builder =
  jb_job :: "job option"
  jb_opt :: JobOptions

definition Job_builder :: "job option \<Rightarrow> job_builder" where
  "Job_builder j = \<lparr>jb_job = j, jb_opt = no_options\<rparr>"

datatype builder_call =
    BQueue string | BPriority int | BTimeout duration | BRetry int | BBackoff "backoff option"
  | BDelay duration | BAt time | BRateLimit string | BConcurrencyKey string int
  | BID string | BIdempotencyKey string | BMetadata string string | BCallback "callback option"

fun builder_set :: "builder_call \<Rightarrow> JobOptions \<Rightarrow> JobOptions" where
  "builder_set (BQueue name) o1 = o1\<lparr>o_Queue := name\<rparr>"
| "builder_set (BPriority v) o1 = o1\<lparr>o_Priority := v\<rparr>"
| "builder_set (BTimeout d) o1 = o1\<lparr>o_Timeout := d\<rparr>"
| "builder_set (BRetry n) o1 = o1\<lparr>o_MaxAttempts := n\<rparr>"
| "builder_set (BBackoff v) o1 = o1\<lparr>o_Backoff := v\<rparr>"
| "builder_set (BDelay d) o1 = o1\<lparr>o_Delay := d\<rparr>"
| "builder_set (BAt t) o1 = o1\<lparr>o_RunAt := t\<rparr>"
| "builder_set (BRateLimit k) o1 = o1\<lparr>o_RateLimitKey := k\<rparr>"
| "builder_set (BConcurrencyKey k m) o1 = o1\<lparr>o_ConcurrencyKey := k, o_MaxConcurrentPerKey := m\<rparr>"
| "builder_set (BID i) o1 = o1\<lparr>o_ID := i\<rparr>"
| "builder_set (BIdempotencyKey k) o1 = o1\<lparr>o_IdempotencyKey := k\<rparr>"
| "builder_set (BMetadata k v) o1 = o1\<lparr>o_Metadata := AList.update k v (o_Metadata o1)\<rparr>"
| "builder_set (BCallback cb) o1 = o1\<lparr>o_Callback := cb\<rparr>"

definition builder_do :: "builder_call \<Rightarrow> job_builder \<Rightarrow> job_builder" where
  "builder_do c b = b\<lparr>jb_opt := builder_set c (jb_opt b)\<rparr>"

definition builder_Submit ::
  "env \<Rightarrow> rate_rounds \<Rightarrow> round list \<Rightarrow> err option \<Rightarrow> job_builder \<Rightarrow> pool \<Rightarrow> (err option \<times> pool) option" where
  "builder_Submit e ars rs ctxErr b p =
     (case ctxErr of Some er \<Rightarrow> Some (Some er, p) | None \<Rightarrow> Submit e ars rs (jb_job b) [jb_opt b] p)"

subsection \<open>Channels\<close>

text \<open>What the select of \<open>SubmitChannel\<close> yields, with what the others did before it.\<close>

datatype channel_event =
    ChanCtxDone err
  | ChanClosed
  | ChanValue nat env rate_rounds "round list" "pool \<Rightarrow> pool"

text \<open>The loop; \<open>None\<close>: still waiting after these events, or in a submission.\<close>

fun SubmitChannel :: "JobOptions list \<Rightarrow> channel_event list \<Rightarrow> pool \<Rightarrow> (err option \<times> pool) option" where
  "SubmitChannel opts [] p = None"
| "SubmitChannel opts (ChanCtxDone er # evs) p = Some (Some er, p)"
| "SubmitChannel opts (ChanClosed # evs) p = Some (None, p)"
| "SubmitChannel opts (ChanValue v e ars rs others # evs) p =
     (case SubmitFunc e ars rs v opts (others p) of
        None \<Rightarrow> None
      | Some (Some er, p') \<Rightarrow> Some (Some er, p')
      | Some (None, p') \<Rightarrow> SubmitChannel opts evs p')"

subsection \<open>Running a pool\<close>

text \<open>The timeout of \<open>ShutdownOnSignal\<close>, and what it and its callers do; \<open>waits\<close> is what
  happens until the signal, \<open>others\<close> what happens while \<open>Shutdown\<close> waits.\<close>

definition signal_timeout :: "duration \<Rightarrow> duration" where
  "signal_timeout timeout = (if timeout \<le> 0 then 30 * Second else timeout)"

definition ShutdownOnSignal :: "env \<Rightarrow> (pool \<Rightarrow> pool) \<Rightarrow> (duration \<Rightarrow> pool \<Rightarrow> pool) \<Rightarrow> duration \<Rightarrow> pool \<Rightarrow> err option \<times> pool" where
  "ShutdownOnSignal e waits others timeout p =
     Shutdown e (others (signal_timeout timeout)) CtxDeadlineExceeded (waits p)"

definition RunUntilSignal :: "env \<Rightarrow> (pool \<Rightarrow> pool) \<Rightarrow> (duration \<Rightarrow> pool \<Rightarrow> pool) \<Rightarrow> pool \<Rightarrow> err option \<times> pool" where
  "RunUntilSignal e waits others p = ShutdownOnSignal e waits others (30 * Second) (Start e p)"

text \<open>\<open>None\<close>: it panics.\<close>

definition MustShutdown :: "env \<Rightarrow> (pool \<Rightarrow> pool) \<Rightarrow> pool \<Rightarrow> pool option" where
  "MustShutdown e others p =
     (case Shutdown e others CtxDeadlineExceeded p of (None, p') \<Rightarrow> Some p' | (Some _, p') \<Rightarrow> None)"

text \<open>The \<open>Must\<close> constructors panic on an error of \<open>New\<close>, which returns none: \<open>normalizeConfig\<close> repairs
  every configuration.\<close>

definition MustNew :: "env \<Rightarrow> config \<Rightarrow> pool_option list \<Rightarrow> pool" where
  "MustNew e c opts = New e c opts"

definition MustNewPool :: "env \<Rightarrow> pool_option list \<Rightarrow> pool" where
  "MustNewPool e opts = MustNew e DefaultConfig opts"

definition MustNewTyped :: "env \<Rightarrow> config \<Rightarrow> ('i \<Rightarrow> 'o \<times> err option) \<Rightarrow> pool_option list \<Rightarrow> ('i, 'o) TypedPool" where
  "MustNewTyped e c h opts = NewTyped e c h opts"

definition NewPool :: "env \<Rightarrow> pool_option list \<Rightarrow> pool" where
  "NewPool e opts = New e DefaultConfig opts"

definition NewTestPool :: "env \<Rightarrow> pool" where
  "NewTestPool e =
     Start e (MustNewPool e [WithWorkers 1, WithQueueSize 1024, WithAutoScale False, WithJobTracking True])"

subsection \<open>What the calls hand to submit\<close>

lemma Submit_submit:
  "Submit e ars rs j opts p = Some (er, q) \<longleftrightarrow> (\<exists>x. submit e ars rs j None opts p = Some ((x, er), q))"
  by (auto simp: Submit_def)

text \<open>A channel whose loop ends with nil had every value before its end accepted.\<close>

fun channel_values :: "channel_event list \<Rightarrow> nat list" where
  "channel_values (ChanValue v e ars rs others # evs) = v # channel_values evs"
| "channel_values _ = []"

lemma SubmitChannel_nil:
  "SubmitChannel opts evs p = Some (None, q) \<Longrightarrow>
   \<exists>pre rest. evs = pre @ ChanClosed # rest \<and> length (channel_values pre) = length pre"
proof (induction opts evs p rule: SubmitChannel.induct)
  case (3 opts evs p)
  show ?case by (rule exI [of _ "[]"], rule exI [of _ evs]) simp
next
  case (4 opts v e ars rs others evs p)
  from "4.prems" obtain p' where "SubmitFunc e ars rs v opts (others p) = Some (None, p')" "SubmitChannel opts evs p' = Some (None, q)"
    by (auto split: option.splits prod.splits)
  with "4.IH" obtain pre rest where "evs = pre @ ChanClosed # rest" "length (channel_values pre) = length pre" by blast
  then show ?case by (intro exI [where x = "ChanValue v e ars rs others # pre"] exI [where x = rest]) simp
qed simp_all

end
