(* ===== verification/Submit_Properties.thy ===== *)
theory Submit_Properties
  imports Pool_Properties Pool_Calls
begin

text \<open>
  What a call of \<open>submit\<close> returns and counts, for any interference in its waits that leaves the
  counters to it; when it blocks, what it evicts, and what becomes of the future of a call it turns down.
\<close>

text \<open>A view of the pool that the steps of the call do not disturb on the way, and interference that
  does not disturb it either.\<close>

definition same :: "pool \<Rightarrow> pool \<Rightarrow> bool" where
  "same p q \<longleftrightarrow> p_c p = p_c q \<and> p_idemp p = p_idemp q \<and> p_state p = p_state q"

definition view :: "(pool \<Rightarrow> 'v) \<Rightarrow> bool" where
  "view v \<longleftrightarrow> (\<forall>p q. same p q \<longrightarrow> v p = v q)"

definition quiet_rounds :: "(pool \<Rightarrow> 'v) \<Rightarrow> round list \<Rightarrow> bool" where
  "quiet_rounds v rs \<longleftrightarrow> (\<forall>(t, f) \<in> set rs. \<forall>p. v (f p) = v p)"

definition quiet_rates :: "(pool \<Rightarrow> 'v) \<Rightarrow> (time \<times> time \<times> (pool \<Rightarrow> pool)) list \<Rightarrow> bool" where
  "quiet_rates v rs \<longleftrightarrow> (\<forall>(t, t', f) \<in> set rs. \<forall>p. v (f p) = v p)"

text \<open>More generally, a condition that the interference keeps.\<close>

definition keep_rounds :: "(pool \<Rightarrow> bool) \<Rightarrow> round list \<Rightarrow> bool" where
  "keep_rounds K rs \<longleftrightarrow> (\<forall>(t, f) \<in> set rs. \<forall>p. K p \<longrightarrow> K (f p))"

definition keep_rates :: "(pool \<Rightarrow> bool) \<Rightarrow> (time \<times> time \<times> (pool \<Rightarrow> pool)) list \<Rightarrow> bool" where
  "keep_rates K rs \<longleftrightarrow> (\<forall>(t, t', f) \<in> set rs. \<forall>p. K p \<longrightarrow> K (f p))"

lemma quiet_Nil [simp]: "quiet_rounds v []" "quiet_rates v []" "keep_rounds K []" "keep_rates K []"
  by (simp_all add: quiet_rounds_def quiet_rates_def keep_rounds_def keep_rates_def)

lemma view_same: "view v \<Longrightarrow> same p q \<Longrightarrow> v p = v q"
  by (simp add: view_def)

lemma views: "view p_c" "view p_idemp" "view p_state"
  by (simp_all add: view_def same_def)

lemma quiet_keep:
  "quiet_rounds v rs \<Longrightarrow> keep_rounds (\<lambda>q. v q = c) rs" "quiet_rates v ars \<Longrightarrow> keep_rates (\<lambda>q. v q = c) ars"
  "view v \<Longrightarrow> view (\<lambda>q. v q = c)"
  by (auto simp: quiet_rounds_def quiet_rates_def keep_rounds_def keep_rates_def view_def)

subsection \<open>The view on the way\<close>

lemma try_same:
  "try_fast x p = (ok, p') \<Longrightarrow> same p' p" "try_q it p = (ok, p') \<Longrightarrow> same p' p"
  "drop_q it p = (ok, p') \<Longrightarrow> same p' p" "try_basic j p = (ok, p') \<Longrightarrow> same p' p"
  by (auto simp: same_def try_fast_def try_q_def drop_q_def try_basic_def split: prod.splits)

lemma spin_keep:
  assumes "spin_push try d rs p = Some (ok, p')" "view K" "keep_rounds K rs" "K p" "\<And>p ok p'. try p = (ok, p') \<Longrightarrow> same p' p"
  shows "K p'"
proof -
  have "\<exists>p0. K p0 \<and> try p0 = (ok, p')"
    by (rule spin_push_end [where K = K, OF assms(1,4)]) (use assms(3) view_same [OF assms(2) assms(5)] in \<open>auto simp: keep_rounds_def\<close>)
  then show ?thesis using view_same [OF assms(2) assms(5)] by fastforce
qed

lemma sleep_keep:
  assumes "sleep_push full try rs p = Some (ok, p')" "view K" "keep_rounds K rs" "K p" "\<And>p ok p'. try p = (ok, p') \<Longrightarrow> same p' p"
  shows "K p'"
proof -
  have "\<exists>p0. K p0 \<and> try p0 = (ok, p')"
    by (rule sleep_push_end [where K = K, OF assms(1,4)]) (use assms(3) in \<open>auto simp: keep_rounds_def\<close>)
  then show ?thesis using view_same [OF assms(2) assms(5)] by fastforce
qed

lemma pushFast_keep:
  assumes "pushFast e rs x p = Some (ok, p')" "view K" "keep_rounds K rs" "K p"
  shows "K p'"
  using push_cases [where B = "\<lambda>d. spin_push (try_fast x) d rs p", OF assms(1) [unfolded pushFast_def]]
proof (elim disjE exE)
  assume "Some (ok, p') = Some (try_fast x p)"
  then have "try_fast x p = (ok, p')" by simp
  then show ?thesis using view_same [OF assms(2) try_same(1)] assms(4) by metis
qed (metis spin_keep sleep_keep try_same(1) assms(2-4))+

lemma pushBasic_keep:
  assumes "pushBasic e rs j p = Some (ok, p')" "view K" "keep_rounds K rs" "K p"
  shows "K p'"
  using push_cases [where B = "\<lambda>d. spin_push (try_basic j) d rs p", OF assms(1) [unfolded pushBasic_def]]
proof (elim disjE exE)
  assume "Some (ok, p') = Some (try_basic j p)"
  then have "try_basic j p = (ok, p')" by simp
  then show ?thesis using view_same [OF assms(2) try_same(4)] assms(4) by metis
qed (metis spin_keep sleep_keep try_same(4) assms(2-4))+

lemma pushBasic_view: "pushBasic e rs j p = Some (ok, p') \<Longrightarrow> view v \<Longrightarrow> quiet_rounds v rs \<Longrightarrow> v p' = v p"
  using pushBasic_keep [OF _ quiet_keep(3) quiet_keep(1) refl] .

lemma enqueue_keep:
  assumes "enqueue_job e rs x opt now runAt p = Some (ok, p')" "view K" "keep_rounds K rs" "K p"
  shows "K p'"
proof (cases "useFastQueue opt now runAt")
  case True
  with assms pushFast_keep show ?thesis by (simp add: enqueue_job_def)
next
  case False
  define it where "it = \<lparr>it_Value = x, it_Priority = o_Priority opt, it_Seq = qj_seq (p_heap p x), it_RunAt = runAt\<rparr>"
  obtain q where q: "try_q it p = (ok, q) \<or> drop_q it p = (ok, q) \<or> pushBlock e rs it p = Some (ok, q)"
    "p' = (if ok then signalQueueWake q else q)"
    using assms(1) False
    by (cases "c_Backpressure (p_cfg p)") (auto simp: enqueue_job_def it_def Let_def split: option.splits prod.splits)
  have "K q"
    using q(1)
  proof (elim disjE)
    assume "pushBlock e rs it p = Some (ok, q)"
    then show ?thesis unfolding pushBlock_def Let_def by (rule spin_keep [OF _ assms(2-4) try_same(2)])
  qed (use view_same [OF assms(2)] assms(4) try_same in metis)+
  moreover have "same p' q" using q(2) by (simp add: same_def signalQueueWake_def)
  ultimately show ?thesis using view_same [OF assms(2)] by metis
qed

lemma job_same:
  "get_job e p = (x, q) \<Longrightarrow> same q p"
  "new_job e j f opt now runAt p = (x, q) \<Longrightarrow> same q p"
  "same (announce_job e x opt p) p"
  "submit_options opts p = (opt', q) \<Longrightarrow> same q p"
  "bucket_allow e now b p = (ok, q) \<Longrightarrow> same q p"
proof -
  show g: "get_job e p = (x, q) \<Longrightarrow> same q p" for x q and p :: pool
    by (auto simp: same_def get_job_def split: option.splits if_splits)
  show "new_job e j f opt now runAt p = (x, q) \<Longrightarrow> same q p"
    by (auto simp: new_job_def Let_def same_def dest!: g split: prod.splits option.splits if_splits)
  show "same (announce_job e x opt p) p" by (simp add: announce_job_def Let_def same_def)
  show "submit_options opts p = (opt', q) \<Longrightarrow> same q p"
    by (auto simp: submit_options_def draw_id_def Let_def same_def split: if_splits)
  show "bucket_allow e now b p = (ok, q) \<Longrightarrow> same q p" by (auto simp: bucket_allow_def same_def split: prod.splits)
qed

definition bucket_blind :: "(pool \<Rightarrow> bool) \<Rightarrow> bool" where
  "bucket_blind K \<longleftrightarrow> (\<forall>p bs. K (p\<lparr>p_buckets := bs\<rparr>) \<longleftrightarrow> K p)"

lemma bucket_keep: "bucket_allow e now b p = (ok, q) \<Longrightarrow> bucket_blind K \<Longrightarrow> K q = K p"
  by (auto simp: bucket_allow_def bucket_blind_def split: prod.splits)

lemma rate_block_keep:
  "rate_block e b d rs p = Some (er, p') \<Longrightarrow> bucket_blind K \<Longrightarrow> keep_rates K rs \<Longrightarrow> K p \<Longrightarrow>
   K p' \<and> er \<in> {None, Some ErrClosed, Some ErrRateLimited}"
proof (induction rs arbitrary: p)
  case (Cons r rs)
  obtain t t' g where r: "r = (t, t', g)" by (cases r)
  obtain ok q where q: "bucket_allow e t b p = (ok, q)" by fastforce
  have k: "K q" using bucket_keep [OF q Cons.prems(2)] Cons.prems(4) by simp
  have "K (g q)" "keep_rates K rs" using Cons.prems(3) k by (auto simp: keep_rates_def r)
  with Cons.IH [of "g q"] k Cons.prems(1,2) show ?case
    by (auto simp: r q simp del: State_less_simps split: if_splits)
qed simp

lemma admitRate_keep:
  "admitRate e rs key p = Some (er, p') \<Longrightarrow> bucket_blind K \<Longrightarrow> keep_rates K rs \<Longrightarrow> K p \<Longrightarrow>
   K p' \<and> er \<in> {None, Some ErrClosed, Some ErrRateLimited}"
  by (auto simp: admitRate_def dest: bucket_keep rate_block_keep split: option.splits RateLimitMode.splits prod.splits if_splits)

lemma view_blind: "view K \<Longrightarrow> bucket_blind K"
  unfolding bucket_blind_def by (intro allI view_same) (simp_all add: same_def)

lemma admitRate_view:
  "admitRate e rs key p = Some (er, p') \<Longrightarrow> view v \<Longrightarrow> quiet_rates v rs \<Longrightarrow>
   v p' = v p \<and> er \<in> {None, Some ErrClosed, Some ErrRateLimited}"
  using admitRate_keep [OF _ view_blind [OF quiet_keep(3)] quiet_keep(2) refl] .

text \<open>What a call adds to the counters, given whether it failed.\<close>

definition counted :: "err option \<Rightarrow> counters \<Rightarrow> counters" where
  "counted er k = (if er = None then k\<lparr>k_accepted := k_accepted k + 1\<rparr> else k\<lparr>k_rejected := k_rejected k + 1\<rparr>)"

lemma submit_end_counters:
  "submit_end e x f opt ok p = ((ptr, er), p') \<Longrightarrow> p_c p' = counted er (p_c p) \<and> er \<in> {None, Some ErrQueueFull} \<and>
   p_idemp p' = p_idemp p \<and> p_state p' = p_state p"
  by (auto simp: submit_end_def trySpill_def Let_def counted_def releaseJob_def signalQueueWake_def split: if_splits prod.splits)

lemma submit_queued_keep:
  assumes "submit_queued e rs j f opt p = Some ((ptr, er), p')" "view K" "keep_rounds K rs" "K p"
  obtains x q ok where "submit_end e x f opt ok q = ((ptr, er), p')" "K q"
proof -
  obtain x p1 where n: "new_job e j f opt (e_now e 2) (submit_runAt opt (e_now e 2)) p = (x, p1)" by fastforce
  obtain ok q where q: "enqueue_job e rs x opt (e_now e 2) (submit_runAt opt (e_now e 2)) (announce_job e x opt p1) = Some (ok, q)"
    and en: "submit_end e x f opt ok q = ((ptr, er), p')"
    using assms(1) n by (auto simp: submit_queued_def Let_def split: option.splits)
  have "K (announce_job e x opt p1)" using view_same [OF assms(2)] job_same(2) [OF n] job_same(3) assms(4) by metis
  from that [OF en enqueue_keep [OF q assms(2,3) this]] show thesis .
qed

lemma submit_queued_parts:
  assumes "submit_queued e rs j f opt p = Some ((ptr, er), p')" "view v" "quiet_rounds v rs"
  obtains x q ok where "submit_end e x f opt ok q = ((ptr, er), p')" "v q = v p"
  using submit_queued_keep [OF assms(1) quiet_keep(3) [OF assms(2)] quiet_keep(1) [OF assms(3)] refl] .

lemma submit_queued_counters:
  assumes "submit_queued e rs j f opt p = Some ((ptr, er), p')" "quiet_rounds p_c rs"
  shows "p_c p' = counted er (p_c p) \<and> er \<in> {None, Some ErrQueueFull}"
proof -
  obtain x q ok where en: "submit_end e x f opt ok q = ((ptr, er), p')" "p_c q = p_c p"
    by (rule submit_queued_parts [OF assms(1) views(1) assms(2)])
  show ?thesis using submit_end_counters [OF en(1)] en(2) by simp
qed

text \<open>C7. Each call of \<open>submit\<close> that returns counts exactly once: it adds one to \<open>submitted\<close> and one to
  either \<open>accepted\<close>, when it returns no error, or \<open>rejected\<close>, and touches no other counter; the error is
  one of six.\<close>

theorem submit_counts_once:
  assumes "submit e ars rs j f opts p = Some ((ptr, er), p')" "quiet_rates p_c ars" "quiet_rounds p_c rs"
  shows "p_c p' = counted er ((p_c p)\<lparr>k_submitted := k_submitted (p_c p) + 1\<rparr>) \<and>
    er \<in> {None, Some ErrTerminated, Some ErrClosed, Some (Wrapf ErrInvalidConfig '': nil job''), Some ErrDuplicate,
      Some ErrRateLimited, Some ErrQueueFull}"
proof -
  define p1 where "p1 = emit e (mk_event EventJobSubmitting) (bump (k_submitted_update (\<lambda>n. n + 1)) p)"
  have p1: "p_c p1 = (p_c p)\<lparr>k_submitted := k_submitted (p_c p) + 1\<rparr>" by (simp add: p1_def)
  show ?thesis
  proof (cases "submit_refusal (p_state p1) j")
    case (Some x)
    then have "submit_rejected e (rejected_event x) x p1 = ((ptr, er), p')"
      using assms(1) by (simp add: submit_def Let_def p1_def)
    moreover have "x \<in> {ErrTerminated, ErrClosed, Wrapf ErrInvalidConfig '': nil job''}"
      using Some by (auto simp: submit_refusal_def split: if_splits)
    ultimately show ?thesis using p1 by (auto simp: submit_rejected_def counted_def)
  next
    case None
    obtain opt p2 where o: "submit_options opts p1 = (opt, p2)" by fastforce
    have p2: "p_c p2 = p_c p1" by (rule view_same [OF views(1) job_same(4) [OF o]])
    show ?thesis
    proof (cases "useBasicFastPath opt f p2")
      case True
      with None o assms(1) have "submit_basic e rs (the j) p2 = Some ((ptr, er), p')" by (simp add: submit_def Let_def p1_def)
      then obtain ok q where q: "pushBasic e rs (Some (the j)) p2 = Some (ok, q)" and r:
        "(if ok then ((None, None), bump (k_accepted_update (\<lambda>n. n + 1)) q)
          else ((None, Some ErrQueueFull), bump (k_rejected_update (\<lambda>n. n + 1)) q)) = ((ptr, er), p')"
        by (auto simp: submit_basic_def split: option.splits)
      have "p_c q = p_c p1" using pushBasic_view [OF q views(1) assms(3)] p2 by simp
      with r p1 show ?thesis by (cases ok) (auto simp: counted_def)
    next
      case False
      with None o assms(1) have t: "submit_tracked e ars rs (the j) f opt p2 = Some ((ptr, er), p')"
        by (simp add: submit_def Let_def p1_def)
      define p3 where "p3 = (if o_IdempotencyKey opt \<noteq> [] then p2\<lparr>p_idemp := (p_idemp p2)(o_IdempotencyKey opt \<mapsto> o_ID opt)\<rparr> else p2)"
      have p3: "p_c p3 = p_c p1" using p2 by (simp add: p3_def)
      show ?thesis
      proof (cases "o_IdempotencyKey opt \<noteq> [] \<and> p_idemp p2 (o_IdempotencyKey opt) \<noteq> None")
        case True
        with t p1 p2 show ?thesis by (auto simp: submit_tracked_def submit_rejected_def counted_def)
      next
        case nd: False
        obtain ra p4 where a: "admitRate e ars (o_RateLimitKey opt) p3 = Some (ra, p4)"
          using t nd by (auto simp: submit_tracked_def p3_def Let_def split: option.splits)
        note ac = admitRate_view [OF a views(1) assms(2)]
        show ?thesis
        proof (cases ra)
          case None
          with t nd a have "submit_queued e rs (the j) f opt p4 = Some ((ptr, er), p')"
            by (auto simp: submit_tracked_def p3_def Let_def)
          from submit_queued_counters [OF this assms(3)] ac p3 p1 show ?thesis by auto
        next
          case (Some x)
          then have "submit_rejected e (rejected_event_opt x opt) x p4 = ((ptr, er), p')"
            using t nd a by (auto simp: submit_tracked_def p3_def Let_def)
          with Some ac p3 p1 show ?thesis by (auto simp: submit_rejected_def counted_def)
        qed
      qed
    qed
  qed
qed

theorem submit_counts_once_witness:
  "\<exists>q. submit ex_env [] [] (Some (UserJob 1)) None [] ex_pool = Some ((Some 0, None), q) \<and>
     p_c q = (p_c ex_pool)\<lparr>k_submitted := k_submitted (p_c ex_pool) + 1, k_accepted := k_accepted (p_c ex_pool) + 1\<rparr>"
proof -
  obtain q where q: "submit ex_env [] [] (Some (UserJob 1)) None [] ex_pool = Some ((Some 0, None), q)" by (rule ex_submit)
  from submit_counts_once [OF q quiet_Nil(2,1)] q show ?thesis by (auto simp: counted_def)
qed

subsection \<open>Backpressure\<close>

definition ex_full :: pool where
  "ex_full = ex_pool\<lparr>p_cfg := (p_cfg ex_pool)\<lparr>c_Backpressure := BackpressureReject\<rparr>,
     p_fastq := snd (FIFO_TryPush (Some 7) (NewFIFO None 1)), p_next := 8\<rparr>"

lemma sleep_blocks:
  "\<forall>(t, g) \<in> set rs. \<forall>q. v (g q) = v q \<Longrightarrow> (\<And>q. v q = c \<Longrightarrow> full q) \<Longrightarrow> v p = c \<Longrightarrow> sleep_push full try rs p = None"
  by (induction rs arbitrary: p) auto

lemma options_view:
  "p_defaultOptions q = p_defaultOptions p \<Longrightarrow> p_queueDefaults q = p_queueDefaults p \<Longrightarrow> p_pausedQueues q = p_pausedQueues p \<Longrightarrow>
   p_cfg q = p_cfg p \<Longrightarrow> p_seq q = p_seq p \<Longrightarrow> fst (submit_options opts q) = fst (submit_options opts p)"
  unfolding submit_options_def Let_def
  by (cases "opts = []"; simp only: if_True if_False simp_thms; auto simp: draw_id_def Let_def)

lemma submit_options_keeps:
  "submit_options opts p = (opt, q) \<Longrightarrow> p_cfg q = p_cfg p \<and> p_fastq q = p_fastq p \<and> p_basicq q = p_basicq p \<and> p_state q = p_state p"
  by (auto simp: submit_options_def draw_id_def Let_def split: if_splits)



text \<open>C30. The policy applies to jobs of another priority, and there the job it evicts is lost silently:
  the evicted job is in no queue any more, but its future is not completed, so that \<open>Get\<close> on it waits
  for ever, and the index of tracked jobs still lists it.\<close>

theorem drop_oldest_forgets_future:
  assumes "drop_q it p = (True, p')" "pool_wf p" "held (it_Value it) p"
    and "pq_cap (p_q p) > 0" "int (length (pq_items (p_q p))) = pq_cap (p_q p)"
  shows "\<exists>y. y \<in># image_mset it_Value (pq_elems (p_q p)) \<and> y \<notin># places p' \<and>
    p_futures p' = p_futures p \<and> p_jobs p' = p_jobs p \<and> p_heap p' = p_heap p"
proof -
  have "\<not> pq_closed (p_q p)" using assms(1) by (auto simp: drop_q_def PQ_DropOldestPush_def split: if_splits)
  moreover obtain z rest where pop: "pq_pop (pq_items (p_q p)) = Some (z, rest)"
    using assms(4,5) pq_pop_None [of "pq_items (p_q p)"] by (cases "pq_pop (pq_items (p_q p))") auto
  ultimately have d: "p' = leave (it_Value it) (p\<lparr>p_q := PQ_signalLocked ((p_q p)\<lparr>pq_items := pq_push rest it\<rparr>), p_gone := p_gone p + 1\<rparr>)"
    using assms(1,4,5) pq_pop_length [OF pop] by (simp add: drop_q_def PQ_DropOldestPush_def Let_def PQ_signalLocked_def)
  let ?R = "mset (p_submitting p) + mset (p_inflight p) + mset (fast_ptrs p) + mset (p_spill p) + mset (p_dlq p) + mset (p_jobPool p)"
  have old: "places p = add_mset (it_Value z) (image_mset it_Value (mset rest) + ?R)"
    using pq_pop_mset [OF pop] by (simp add: places_def pq_elems_def)
  have "count (places p) (it_Value z) \<le> 1" using assms(2) by (simp add: pool_wf_def)
  then have z: "it_Value z \<notin># image_mset it_Value (mset rest) + ?R" unfolding old by (simp only: count_add_mset) (simp add: not_in_iff del: set_mset_union)
  have "places p' = image_mset it_Value (mset rest) + ?R"
    using leave_mset [OF assms(2,3)]
    by (simp add: d places_def fast_ptrs_def pq_elems_def PQ_signalLocked_def pq_push_mset)
  with z pq_pop_mset [OF pop] show ?thesis by (intro exI [of _ "it_Value z"]) (auto simp: d pq_elems_def)
qed

definition ex_drop :: pool where
  "ex_drop = (New ex_env ex_config [])\<lparr>p_q := \<lparr>pq_items = [ex_item 0 10 1 5], pq_cap = 1, pq_closed = False, pq_wake = False\<rparr>,
     p_submitting := [1], p_next := 2\<rparr>"

lemma ex_drop_wf: "pool_wf ex_drop"
  using New_blank [of ex_env ex_config "[]"]
  by (simp add: ex_drop_def blank_def wf_defs fifo_inv_New pq_inv_def pq_heap_def pq_elems_def ex_item_def less_Suc_eq)

theorem drop_oldest_forgets_future_witness:
  "fst (drop_q (ex_item 1 10 2 5) ex_drop) \<and> 0 \<notin># places (snd (drop_q (ex_item 1 10 2 5) ex_drop)) \<and>
   p_jobs (snd (drop_q (ex_item 1 10 2 5) ex_drop)) = p_jobs ex_drop"
proof -
  have d: "drop_q (ex_item 1 10 2 5) ex_drop = (True, snd (drop_q (ex_item 1 10 2 5) ex_drop))"
    by (simp add: drop_q_def ex_drop_def PQ_DropOldestPush_def Let_def)
  have "p_q ex_drop = \<lparr>pq_items = [ex_item 0 10 1 5], pq_cap = 1, pq_closed = False, pq_wake = False\<rparr>"
    by (simp add: ex_drop_def)
  moreover have "held (it_Value (ex_item 1 10 2 5)) ex_drop" by (simp add: held_def ex_drop_def ex_item_def)
  ultimately show ?thesis
    using drop_oldest_forgets_future [OF d ex_drop_wf] arg_cong [OF d, of fst] by (auto simp: pq_elems_def ex_item_def)
qed

subsection \<open>Futures of refused calls\<close>

text \<open>No job object holds the future \<open>i\<close>, and it is undecided.\<close>

definition unheld :: "nat \<Rightarrow> pool \<Rightarrow> bool" where
  "unheld i p \<longleftrightarrow> \<not> fu_done (p_futures p i) \<and> (\<forall>x. qj_future (p_heap p x) \<noteq> Some i)"

text \<open>\<open>SubmitResult\<close> returns its future also with an error.  When \<open>submit\<close> turns the call down before it
  makes a job object (for the state of the pool, a taken idempotency key, the rate limit), nobody
  completes that future: no job holds it, and \<open>Get\<close> waits for its caller's context.\<close>

theorem refused_future_hangs:
  assumes "SubmitResult e ars rs i fn opts p = Some ((i', Some er), p')" "er \<noteq> ErrQueueFull"
    and "\<forall>x. qj_future (p_heap p x) \<noteq> Some i" "keep_rates (unheld i) ars"
  shows "i' = i \<and> unheld i p' \<and> future_Get t zero b None (p_futures p' i) = None"
proof -
  define p0 where "p0 = p\<lparr>p_futures := (p_futures p)(i := newFutureAny)\<rparr>"
  define p1 where "p1 = emit e (mk_event EventJobSubmitting) (bump (k_submitted_update (\<lambda>n. n + 1)) p0)"
  have un: "unheld i (emit e ev q) = unheld i q" "unheld i (bump g q) = unheld i q" for ev g q
    by (simp_all add: unheld_def bump_def)
  have p1: "unheld i p1" unfolding p1_def un using assms(3) by (simp add: unheld_def p0_def newFutureAny_def)
  obtain ptr where s: "submit e ars rs (Some (ResultJob fn i)) (Some i) opts p0 = Some ((ptr, Some er), p')" and i': "i' = i"
    using assms(1) [unfolded SubmitResult_def Let_def, folded p0_def]
    by (cases "submit e ars rs (Some (ResultJob fn i)) (Some i) opts p0") (simp, simp split: prod.splits)
  note s = s [unfolded submit_def Let_def, folded p1_def]
  have "unheld i p'"
  proof (cases "submit_refusal (p_state p1) (Some (ResultJob fn i))")
    case (Some x)
    with s p1 show ?thesis by (auto simp: submit_rejected_def un)
  next
    case None
    obtain opt p2 where o: "submit_options opts p1 = (opt, p2)" by fastforce
    have "p_futures p2 = p_futures p1" "p_heap p2 = p_heap p1"
      using o by (auto simp: submit_options_def draw_id_def Let_def split: if_splits)
    with p1 have p2: "unheld i p2" by (simp add: unheld_def)
    have t: "submit_tracked e ars rs (ResultJob fn i) (Some i) opt p2 = Some ((ptr, Some er), p')"
      using s None o by (simp add: useBasicFastPath_def)
    show ?thesis
    proof (cases "o_IdempotencyKey opt \<noteq> [] \<and> p_idemp p2 (o_IdempotencyKey opt) \<noteq> None")
      case True
      with t p2 show ?thesis by (auto simp: submit_tracked_def submit_rejected_def un)
    next
      case False
      define p3 where "p3 = (if o_IdempotencyKey opt \<noteq> [] then p2\<lparr>p_idemp := (p_idemp p2)(o_IdempotencyKey opt \<mapsto> o_ID opt)\<rparr> else p2)"
      have p3: "unheld i p3" using p2 by (simp add: p3_def unheld_def)
      obtain ra p4 where a: "admitRate e ars (o_RateLimitKey opt) p3 = Some (ra, p4)"
        using t False by (auto simp: submit_tracked_def p3_def Let_def split: option.splits)
      have p4: "unheld i p4"
        using admitRate_keep [OF a _ assms(4) p3] by (simp add: bucket_blind_def unheld_def)
      show ?thesis
      proof (cases ra)
        case (Some x)
        with t False a p4 show ?thesis by (auto simp: submit_tracked_def p3_def Let_def submit_rejected_def un)
      next
        case None
        with t False a have "submit_queued e rs (ResultJob fn i) (Some i) opt p4 = Some ((ptr, Some er), p')"
          by (auto simp: submit_tracked_def p3_def Let_def)
        then have "er = ErrQueueFull"
          by (auto simp: submit_queued_def Let_def dest!: submit_end_counters split: prod.splits option.splits)
        with assms(2) show ?thesis by simp
      qed
    qed
  qed
  with i' show ?thesis by (simp add: unheld_def future_Get_def)
qed

end
