(* ===== verification/Idempotency.thy ===== *)
theory Idempotency
  imports Submit_Properties
begin

text \<open>
  Idempotency keys: how long \<open>submit\<close> turns down jobs with a key that is taken (\<open>idemp\<close> of \<open>pool.go\<close>).

  \<open>spare_step k\<close> are the steps of the pool in which neither \<open>Replace\<close> is called for \<open>k\<close> nor a job that
  carries \<open>k\<close> is executed, by the goroutine itself or by the others while it waits; \<open>step_idemp\<close> says that its last rule covers every operation but \<open>submit\<close>, the
  two halves of \<open>execute\<close>, \<open>Replace\<close>, and what others do while \<open>Pause\<close> and \<open>Resume\<close> spin.
\<close>

subsection \<open>Submitting with a key\<close>

lemma applyDefaults_key:
  "o_IdempotencyKey (applyDefaults d qd pq opt) =
     (if o_IdempotencyKey opt = [] then o_IdempotencyKey d else o_IdempotencyKey opt)"
  by (simp add: applyDefaults_def mergePolicy_def Let_def split: option.split) (simp add: mergeJobOptions_def)

lemma config_defaults_key [simp]: "o_IdempotencyKey (config_defaults c opt) = o_IdempotencyKey opt"
  by (simp add: config_defaults_def Let_def)

lemma submit_options_key:
  "submit_options [opt] p = (opt', q) \<Longrightarrow> o_IdempotencyKey opt \<noteq> [] \<Longrightarrow>
   o_IdempotencyKey opt' = o_IdempotencyKey opt \<and> p_idemp q = p_idemp p \<and> p_state q = p_state p"
  by (auto simp: submit_options_def draw_id_def applyDefaults_key Let_def split: if_splits)

lemma keyed_submit:
  assumes "o_IdempotencyKey opt \<noteq> []" "\<not> halted (p_state p)"
  obtains opt' p2 where "o_IdempotencyKey opt' = o_IdempotencyKey opt" "p_idemp p2 = p_idemp p" "p_state p2 = p_state p"
    "submit e ars rs (Some j) f [opt] p = submit_tracked e ars rs j f opt' p2"
proof -
  define p1 where "p1 = emit e (mk_event EventJobSubmitting) (bump (k_submitted_update (\<lambda>n. n + 1)) p)"
  obtain opt' p2 where o: "submit_options [opt] p1 = (opt', p2)" by fastforce
  note k = submit_options_key [OF o assms(1)]
  have "submit_refusal (p_state p1) (Some j) = None" using assms(2) by (auto simp: submit_refusal_def p1_def)
  moreover have "\<not> useBasicFastPath opt' f p2" using k assms(1) by (simp add: useBasicFastPath_def)
  ultimately have "submit e ars rs (Some j) f [opt] p = submit_tracked e ars rs j f opt' p2"
    using o unfolding submit_def p1_def Let_def by simp
  then show thesis by (rule that [rotated -1]) (use k in \<open>simp_all add: p1_def\<close>)
qed

subsection \<open>Who gives a key back\<close>

abbreviation taken :: "string \<Rightarrow> pool \<Rightarrow> bool" where
  "taken k p \<equiv> p_idemp p k \<noteq> None"

abbreviation job_key :: "nat \<Rightarrow> pool \<Rightarrow> string" where
  "job_key x p \<equiv> o_IdempotencyKey (qj_opts (p_heap p x))"

text \<open>The key is taken, and the goroutine's job \<open>x\<close> has another.\<close>

definition spared :: "string \<Rightarrow> nat \<Rightarrow> pool \<Rightarrow> bool" where
  "spared k x p \<longleftrightarrow> taken k p \<and> job_key x p \<noteq> k"

inductive spare_step :: "string \<Rightarrow> pool \<Rightarrow> pool \<Rightarrow> bool" for k where
  SpareSubmit: "keep_rates (taken k) ars \<Longrightarrow> keep_rounds (taken k) rs \<Longrightarrow>
    submit e ars rs j f opts p = Some (res, p') \<Longrightarrow> spare_step k p p'"
| SpareBegin: "job_key x p \<noteq> k \<Longrightarrow> keep_rounds (spared k x) rs \<Longrightarrow>
    execute_begin e rs x p = Some (b, p') \<Longrightarrow> spare_step k p p'"
| SpareFinish: "job_key x p \<noteq> k \<Longrightarrow> keep_rounds (spared k x) rs \<Longrightarrow>
    execute_finish e rs wid x r p = Some p' \<Longrightarrow> spare_step k p p'"
| SpareReplace: "key \<noteq> k \<Longrightarrow> spare_step k p (Replace_key key p)"
| SpareOther: "pool_step p p' \<Longrightarrow> p_idemp p' = p_idemp p \<Longrightarrow> spare_step k p p'"

lemma idemp_frame [simp]:
  "p_idemp (complete_future u er p) = p_idemp p" "p_idemp (untrack_job opts p) = p_idemp p" "p_idemp (untrack i p) = p_idemp p"
  "p_idemp (store_dead x p) = p_idemp p" "p_idemp (leave x p) = p_idemp p" "p_idemp (upd_job x f p) = p_idemp p"
  "p_idemp (bump g p) = p_idemp p" "p_idemp (releaseJob x p) = p_idemp p" "p_idemp (signalQueueWake p) = p_idemp p"
  "p_idemp (cancel_ctx c p) = p_idemp p" "p_idemp (start_job e x p) = p_idemp p" "p_idemp (cancel_queued e x p) = p_idemp p"
  "p_idemp (end_run x key p) = p_idemp p" "p_idemp (recover_panic e wid x v txt p) = p_idemp p"
proof -
  show f [simp]: "p_idemp (complete_future u er p) = p_idemp p" "p_idemp (untrack_job opts p) = p_idemp p" "p_idemp (untrack i p) = p_idemp p"
    "p_idemp (store_dead x p) = p_idemp p" "p_idemp (leave x p) = p_idemp p" "p_idemp (upd_job x f p) = p_idemp p"
    "p_idemp (bump g p) = p_idemp p" "p_idemp (releaseJob x p) = p_idemp p" "p_idemp (signalQueueWake p) = p_idemp p"
    "p_idemp (cancel_ctx c p) = p_idemp p" for u er opts i f g c p
    by (simp_all add: complete_future_def untrack_job_def untrack_def store_dead_def leave_def upd_job_def bump_def releaseJob_def
        signalQueueWake_def cancel_ctx_def split: option.split)
  show "p_idemp (start_job e x p) = p_idemp p" "p_idemp (cancel_queued e x p) = p_idemp p"
    "p_idemp (end_run x key p) = p_idemp p" "p_idemp (recover_panic e wid x v txt p) = p_idemp p"
    by (simp_all add: start_job_def cancel_queued_def cancel_record_def end_run_def recover_panic_def Let_def)
qed

lemma forget_key_idemp:
  "p_idemp (forget_key opts p) = (if o_IdempotencyKey opts = '''' then p_idemp p else (p_idemp p)(o_IdempotencyKey opts := None))"
  by (simp add: forget_key_def)

lemma ends_idemp:
  "p_idemp (deadletter e x er p) = (if job_key x p = '''' then p_idemp p else (p_idemp p)(job_key x p := None))"
  "p_idemp (succeed_job e x p) = (if job_key x p = '''' then p_idemp p else (p_idemp p)(job_key x p := None))"
  by (simp_all add: deadletter_def succeed_job_def succeed_record_def Let_def forget_key_idemp)

lemma view_taken: "view (taken k)"
  by (simp add: view_def same_def)

lemma submit_taken:
  assumes "submit e ars rs j f opts p = Some (res, p')" "keep_rates (taken k) ars" "keep_rounds (taken k) rs" "taken k p"
  shows "taken k p'"
proof -
  define p1 where "p1 = emit e (mk_event EventJobSubmitting) (bump (k_submitted_update (\<lambda>n. n + 1)) p)"
  have p1: "taken k p1" using assms(4) by (simp add: p1_def)
  obtain opt p2 where o: "submit_options opts p1 = (opt, p2)" by fastforce
  have p2: "taken k p2" using view_same [OF view_taken job_same(4) [OF o]] p1 by metis
  consider (refused) er where "submit_rejected e (rejected_event er) er p1 = (res, p')"
    | (basic) "submit_basic e rs (the j) p2 = Some (res, p')"
    | (tracked) "submit_tracked e ars rs (the j) f opt p2 = Some (res, p')"
    using assms(1) o by (auto simp: submit_def Let_def p1_def split: option.splits if_splits)
  then show ?thesis
  proof cases
    case refused
    with p1 show ?thesis by (auto simp: submit_rejected_def)
  next
    case basic
    then obtain ok q where q: "pushBasic e rs (Some (the j)) p2 = Some (ok, q)" "p_idemp p' = p_idemp q"
      by (auto simp: submit_basic_def split: option.splits if_splits)
    show ?thesis using pushBasic_keep [OF q(1) view_taken assms(3) p2] q(2) by simp
  next
    case tracked
    define p3 where "p3 = (if o_IdempotencyKey opt \<noteq> [] then p2\<lparr>p_idemp := (p_idemp p2)(o_IdempotencyKey opt \<mapsto> o_ID opt)\<rparr> else p2)"
    have p3: "taken k p3" using p2 by (simp add: p3_def)
    show ?thesis
    proof (cases "o_IdempotencyKey opt \<noteq> [] \<and> taken (o_IdempotencyKey opt) p2")
      case True
      with tracked p2 show ?thesis by (auto simp: submit_tracked_def submit_rejected_def)
    next
      case False
      obtain ra p4 where a: "admitRate e ars (o_RateLimitKey opt) p3 = Some (ra, p4)"
        using tracked False by (auto simp: submit_tracked_def p3_def Let_def split: option.splits)
      have p4: "taken k p4" using admitRate_keep [OF a view_blind [OF view_taken] assms(2) p3] by simp
      show ?thesis
      proof (cases ra)
        case (Some x)
        with tracked False a p4 show ?thesis by (auto simp: submit_tracked_def p3_def Let_def submit_rejected_def)
      next
        case None
        with tracked False a have "submit_queued e rs (the j) f opt p4 = Some ((fst res, snd res), p')"
          by (auto simp: submit_tracked_def p3_def Let_def)
        then obtain x q ok where "submit_end e x f opt ok q = ((fst res, snd res), p')" "taken k q"
          by (rule submit_queued_keep [OF _ view_taken assms(3) p4])
        with submit_end_counters show ?thesis by metis
      qed
    qed
  qed
qed

lemma requeue_taken:
  assumes "requeue_or_dead e rs x p = Some p'" "spared k x p" "keep_rounds (spared k x) rs"
  shows "taken k p'"
proof -
  obtain d ok q where q: "spin_push (try_q (job_item x p)) d rs p = Some (ok, q)"
    and p': "p' = (if ok then signalQueueWake q else deadletter e x (Some ErrQueueFull) q)"
    using assms(1) by (auto simp: requeue_or_dead_def requeue_def pushBlock_def Let_def split: option.splits if_splits)
  have t: "spared k x r = spared k x s" if "try_q it s = (ok, r)" for it s r ok
    using that by (auto simp: spared_def try_q_def leave_def split: prod.splits if_splits)
  have "\<exists>p0. spared k x p0 \<and> try_q (job_item x p) p0 = (ok, q)"
    by (rule spin_push_end [where K = "spared k x", OF q assms(2)]) (use assms(3) t in \<open>auto simp: keep_rounds_def\<close>)
  then have "spared k x q" using t by blast
  then show ?thesis
    by (auto simp: p' spared_def ends_idemp)
qed

lemma requeue_from:
  "requeue_or_dead e rs x q = Some p' \<Longrightarrow> spared k x p \<Longrightarrow> keep_rounds (spared k x) rs \<Longrightarrow>
   p_idemp q = p_idemp p \<Longrightarrow> job_key x q = job_key x p \<Longrightarrow> taken k p'"
  using requeue_taken [of e rs x q p' k] by (simp add: spared_def)

lemma delay_cases:
  assumes "delayForRateLimit e rs x p = Some (b, p')"
  obtains "\<not> b" "p_idemp p' = p_idemp p" "job_key x p' = job_key x p"
  | q where "b" "requeue_or_dead e rs x q = Some p'" "p_idemp q = p_idemp p" "job_key x q = job_key x p"
proof -
  have "\<not> b \<and> p_idemp p' = p_idemp p \<and> job_key x p' = job_key x p \<or>
    b \<and> (\<exists>q. requeue_or_dead e rs x q = Some p' \<and> p_idemp q = p_idemp p \<and> job_key x q = job_key x p)"
    using assms unfolding delayForRateLimit_def Let_def
    by (simp split: if_splits option.splits prod.splits) (fastforce simp: upd_job_def bump_def)+
  then show thesis using that by blast
qed

lemma delay_taken:
  assumes "delayForRateLimit e rs x p = Some (b, p')" "spared k x p" "keep_rounds (spared k x) rs"
  shows "if b then taken k p' else spared k x p'"
  using assms(1)
proof (cases rule: delay_cases)
  case 1
  with assms(2) show ?thesis by (simp add: spared_def)
next
  case (2 q)
  from requeue_from [OF 2(2) assms(2,3) 2(3,4)] 2(1) show ?thesis by simp
qed

lemma begin_cases:
  assumes "execute_begin e rs x p = Some (b, p')"
  defines "p1 \<equiv> emitJob e EventJobDequeued x (qj_attempt (p_heap p x)) None '''' p"
  obtains "p' = cancel_queued e x p1"
  | q where "requeue_or_dead e rs x q = Some p'" "p_idemp q = p_idemp p" "job_key x q = job_key x p"
  | "delayForRateLimit e rs x p1 = Some (True, p')"
  | q s where "delayForRateLimit e rs x p1 = Some (False, q)" "p' = start_job e x (q\<lparr>p_sem := s\<rparr>)"
  | q r where "delayForRateLimit e rs x p1 = Some (False, q)" "requeue_or_dead e rs x r = Some p'" "p_idemp r = p_idemp q" "job_key x r = job_key x q"
proof (cases "case qj_ctx (p_heap p1 x) of None \<Rightarrow> False | Some c \<Rightarrow> ctx_Err p1 c \<noteq> None")
  case True
  then have "execute_begin e rs x p = Some (False, cancel_queued e x p1)" unfolding execute_begin_def Let_def p1_def [symmetric] by simp
  then have "p' = cancel_queued e x p1" using assms(1) by simp
  then show thesis by (rule that(1))
next
  case nc: False
  have p1: "p_idemp p1 = p_idemp p" "job_key x p1 = job_key x p" by (simp_all add: p1_def)
  let ?r = "\<lambda>t p. upd_job x (\<lambda>q. q\<lparr>qj_state := JobQueued\<rparr>) (upd_job x (\<lambda>q. q\<lparr>qj_runAt := t\<rparr>) p)"
  have r: "p_idemp (?r t q) = p_idemp q" "job_key x (?r t q) = job_key x q" for t q by (simp_all add: upd_job_def)
  show thesis
  proof (cases "isQueuedPaused x p1")
    case True
    have "execute_begin e rs x p = map_option (Pair False) (requeue_or_dead e rs x (?r (e_now e 14 + 50 * Millisecond) p1))"
      unfolding execute_begin_def Let_def p1_def [symmetric] using nc True by simp
    with assms(1) have "map_option (Pair False) (requeue_or_dead e rs x (?r (e_now e 14 + 50 * Millisecond) p1)) = Some (b, p')" by metis
    then have "requeue_or_dead e rs x (?r (e_now e 14 + 50 * Millisecond) p1) = Some p'" by auto
    from that(2) [OF this] r p1 show thesis by simp
  next
    case False
    have ex: "execute_begin e rs x p = (case delayForRateLimit e rs x p1 of None \<Rightarrow> None
      | Some (True, p') \<Rightarrow> Some (False, p')
      | Some (False, p') \<Rightarrow>
          (case tryAcquire (o_ConcurrencyKey (qj_opts (p_heap p' x))) (o_MaxConcurrentPerKey (qj_opts (p_heap p' x))) (p_sem p') of
             (False, s) \<Rightarrow> map_option (Pair False) (requeue_or_dead e rs x (?r (e_now e 16 + 5 * Millisecond)
               (emitJob e EventJobConcurrencyDelayed x (qj_attempt (p_heap p' x)) None ''concurrency limit'' (p'\<lparr>p_sem := s\<rparr>))))
           | (True, s) \<Rightarrow> Some (True, start_job e x (p'\<lparr>p_sem := s\<rparr>))))"
      unfolding execute_begin_def Let_def p1_def [symmetric] using nc False by simp
    obtain c q where d: "delayForRateLimit e rs x p1 = Some (c, q)" using ex assms(1) by (auto split: option.splits)
    show thesis
    proof (cases c)
      case True
      with d ex assms(1) that(3) show thesis by simp
    next
      case cF: False
      obtain a s where t: "tryAcquire (o_ConcurrencyKey (qj_opts (p_heap q x))) (o_MaxConcurrentPerKey (qj_opts (p_heap q x))) (p_sem q) = (a, s)"
        by fastforce
      show thesis
      proof (cases a)
        case True
        with d ex assms(1) cF t have "p' = start_job e x (q\<lparr>p_sem := s\<rparr>)" by simp
        with d cF show thesis by (intro that(4)) simp_all
      next
        case False
        let ?s = "?r (e_now e 16 + 5 * Millisecond) (emitJob e EventJobConcurrencyDelayed x (qj_attempt (p_heap q x)) None ''concurrency limit'' (q\<lparr>p_sem := s\<rparr>))"
        have "map_option (Pair False) (requeue_or_dead e rs x ?s) = Some (b, p')" using d ex assms(1) cF t False by simp
        then have "requeue_or_dead e rs x ?s = Some p'" by auto
        moreover have "p_idemp ?s = p_idemp q" "job_key x ?s = job_key x q" by (simp_all add: r)
        ultimately show thesis using that(5) [of q ?s] d cF by simp
      qed
    qed
  qed
qed

lemma begin_taken:
  assumes "execute_begin e rs x p = Some (b, p')" "spared k x p" "keep_rounds (spared k x) rs"
  shows "taken k p'"
proof -
  have p1: "spared k x (emitJob e EventJobDequeued x n None '''' p)" for n using assms(2) by (simp add: spared_def)
  from assms(1) show ?thesis
  proof (cases rule: begin_cases)
    case 1
    with assms(2) show ?thesis
      by (simp add: spared_def)
  next
    case (2 q)
    from requeue_from [OF 2(1) assms(2,3) 2(2,3)] show ?thesis .
  next
    case 3
    from delay_taken [OF 3 p1 assms(3)] show ?thesis by simp
  next
    case (4 q s)
    from delay_taken [OF 4(1) p1 assms(3)] show ?thesis
      by (simp add: 4(2) spared_def)
  next
    case (5 q r)
    from delay_taken [OF 5(1) p1 assms(3)] have "spared k x q" by simp
    from requeue_from [OF 5(2) this assms(3) 5(3,4)] show ?thesis .
  qed
qed

lemma retry_taken:
  assumes "retry_job e rs x er p = Some p'" "spared k x p" "keep_rounds (spared k x) rs"
  shows "taken k p'"
  using assms(1) unfolding retry_job_def Let_def
  by (rule requeue_from [OF _ assms(2,3)]) simp_all

lemma finish_taken:
  assumes "execute_finish e rs wid x r p = Some p'" "spared k x p" "keep_rounds (spared k x) rs"
  shows "taken k p'"
proof -
  obtain er q where q: "run_result e wid x r p = (er, q)" by fastforce
  have s: "spared k x q"
    using q assms(2) by (auto simp: run_result_def spared_def recover_panic_def Let_def split: run_outcome.splits if_splits prod.splits)
  obtain s where s': "(if er = None then Some (succeed_job e x q) else fail_job e rs x er q) = Some s" "p' = end_run x (o_ConcurrencyKey (qj_opts (p_heap p x))) s"
    using assms(1) q by (auto simp: execute_finish_def Let_def)
  define q1 where "q1 = (case er of None \<Rightarrow> upd_job x (\<lambda>q. q\<lparr>qj_state := JobFailed\<rparr>) (bump (k_failed_update (\<lambda>n. n + 1)) q)
    | Some r \<Rightarrow> upd_job x (\<lambda>q. q\<lparr>qj_lastErr := Some (Error_text r)\<rparr>) (upd_job x (\<lambda>q. q\<lparr>qj_state := JobFailed\<rparr>) (bump (k_failed_update (\<lambda>n. n + 1)) q)))"
  define q2 where "q2 = callback_call OnError x er (emitJob e EventJobFailed x (qj_attempt (p_heap q1 x)) er '''' (job_hook OnJobError x (qj_attempt (p_heap q1 x)) er q1))"
  have s2: "spared k x q2" using s by (simp add: q2_def q1_def spared_def upd_job_def bump_def split: option.split)
  have "fail_job e rs x er q = Some s \<Longrightarrow> retry_job e rs x er q2 = Some s \<or> s = deadletter e x er q2"
    by (auto simp: fail_job_def Let_def q2_def q1_def split: if_splits)
  with s'(1) s s2 retry_taken [OF _ s2 assms(3)] have "taken k s"
    by (auto simp: spared_def ends_idemp split: if_splits)
  with s'(2) show ?thesis by simp
qed

lemma spare_step_taken: "spare_step k p p' \<Longrightarrow> taken k p \<Longrightarrow> taken k p'"
proof (induction rule: spare_step.induct)
  case (SpareSubmit ars rs e j f opts p res p')
  then show ?case using submit_taken by blast
next
  case (SpareBegin x p rs e b p')
  then show ?case using begin_taken [of e rs x p b p' k] by (simp add: spared_def)
next
  case (SpareFinish x p rs e wid r p')
  then show ?case using finish_taken [of e rs wid x r p p' k] by (simp add: spared_def)
qed (simp_all add: Replace_key_def)

lemma spare_steps_taken: "(spare_step k)\<^sup>*\<^sup>* p p' \<Longrightarrow> taken k p \<Longrightarrow> taken k p'"
  by (induction rule: rtranclp_induct) (auto dest: spare_step_taken)

text \<open>No other operation touches the keys.\<close>

lemma control_idemp:
  "p_idemp (Start e p) = p_idemp p" "p_idemp (worker_start e wid p) = p_idemp p" "p_idemp (worker_exit e wid p) = p_idemp p"
  "p_idemp (autoscale_tick p) = p_idemp p" "p_idemp (Resize n p) = p_idemp p" "p_idemp (shutdown_end e p) = p_idemp p"
  "p_idemp (Terminate e p) = p_idemp p" "p_idemp (basic_begin p) = p_idemp p" "p_idemp (basic_finish out p) = p_idemp p"
  "p_idemp (PauseQueue e name p) = p_idemp p" "p_idemp (ResumeQueue e name p) = p_idemp p"
  "p_idemp (ReportProgress e ctxJob percent message p) = p_idemp p" "p_idemp (snd (PurgeDeadLetters p)) = p_idemp p"
  "p_idemp (snd (pop_basic p)) = p_idemp p" "p_idemp (snd (pop_fast p)) = p_idemp p" "p_idemp (snd (popSpill p)) = p_idemp p"
  "p_idemp (snd (pop_q now p)) = p_idemp p" "p_idemp (snd (worker_poll now p)) = p_idemp p" "p_idemp (snd (shutdown_begin e s p)) = p_idemp p"
  "p_idemp (snd (CancelJob e i p)) = p_idemp p" "p_idemp (snd (resultJob_Run r u p)) = p_idemp p"
  unfolding Start_def Resize_def Let_def spawnWorkers
  by (auto simp: worker_start_def worker_exit_def autoscale_tick_def spawnWorker_def shutdown_end_def Terminate_def close_fifos_def
      basic_begin_def basic_finish_def PauseQueue_def ResumeQueue_def ReportProgress_def PurgeDeadLetters_def pop_basic_def pop_fast_def
      popSpill_def pop_q_def worker_poll_def shutdown_begin_def shutdown_stop_def CancelJob_def resultJob_Run_def upd_cfg_def Let_def
      split: option.split prod.split list.split run_outcome.split)

lemma loop_idemp:
  "p_idemp (snd (snd (replay_loop e xs n er p))) = p_idemp p" "p_idemp (snd (cancel_range e ids p)) = p_idemp p"
proof -
  show "p_idemp (snd (snd (replay_loop e xs n er p))) = p_idemp p"
    by (induction xs arbitrary: n er p) (auto simp: Let_def try_q_def split: prod.split)
  have "CancelJob e i p = (ok, q) \<Longrightarrow> p_idemp q = p_idemp p" for i ok p q using control_idemp(20) [of e i p] by simp
  then show "p_idemp (snd (cancel_range e ids p)) = p_idemp p"
    by (induction ids arbitrary: p) (auto split: prod.split, metis snd_conv)
qed

lemma step_idemp:
  assumes "pool_step p p'"
  shows "p_idemp p' = p_idemp p \<or> (\<exists>e ars rs j f opts res. submit e ars rs j f opts p = Some (res, p')) \<or>
    (\<exists>e rs x b. execute_begin e rs x p = Some (b, p')) \<or> (\<exists>e rs wid x r. execute_finish e rs wid x r p = Some p') \<or>
    (\<exists>key. p' = Replace_key key p) \<or> (\<exists>e fs. p' = snd (Pause e fs p) \<or> p' = snd (Resume e fs p))"
  using assms
proof (cases rule: pool_step.cases)
  case (Replay e res)
  then show ?thesis using loop_idemp(1) [of e "p_dlq p" 0 None "p\<lparr>p_dlq := [], p_inflight := p_dlq p @ p_inflight p\<rparr>"]
    by (auto simp: ReplayDeadLetters_def Let_def split: if_splits prod.splits)
next
  case (CancelAll e ids n)
  then show ?thesis using loop_idemp(2) [of e ids p] by simp
next
  case (Poll now w)
  then show ?thesis using control_idemp(18) [of now p] by simp
next
  case (Cancel e i ok)
  then show ?thesis using control_idemp(20) [of e i p] by simp
next
  case (ShutdownBegin e wt)
  then show ?thesis using control_idemp(19) [of e "p_state p" p] by simp
next
  case (FutureCancel u ok)
  then show ?thesis by (auto simp: Future_Cancel_def)
qed (auto simp: control_idemp SetRateLimit_def SetQueuePolicy_def UpdateQueueWeight_def SetDefaultOptions_def)

text \<open>C28. An idempotency key outlives the call that failed with it: when \<open>submit\<close> has recorded the key
  and then turns the job down, for its rate limit or a full queue, the key stays taken.  It stays so
  until somebody calls \<open>Replace\<close> for it or a job that carries the same key (an older one, or one that
  is replayed) is executed, whatever else the goroutines do; and as long as it does, \<open>submit\<close> turns down
  every job with the key as a duplicate.\<close>

theorem idempotency_key_sticks:
  assumes "submit e ars rs (Some j) f [opt] p = Some ((None, Some er), p')" "er \<in> {ErrRateLimited, ErrQueueFull}"
    and "o_IdempotencyKey opt = k" "k \<noteq> []" "\<not> halted (p_state p)"
    and "keep_rates (taken k) ars" "keep_rounds (taken k) rs"
    and "(spare_step k)\<^sup>*\<^sup>* p' p''" "\<not> halted (p_state p'')" "o_IdempotencyKey opt2 = k"
  shows "\<exists>q. submit e2 ars2 rs2 (Some j2) f2 [opt2] p'' = Some ((None, Some ErrDuplicate), q) \<and> p_idemp q = p_idemp p'' \<and> taken k q"
proof -
  have "taken k p'"
  proof (cases "taken k p")
    case True
    with submit_taken [OF assms(1,6,7)] show ?thesis .
  next
    case False
    obtain opt' p2 where o: "o_IdempotencyKey opt' = k" "p_idemp p2 = p_idemp p"
      and s: "submit e ars rs (Some j) f [opt] p = submit_tracked e ars rs j f opt' p2"
      by (rule keyed_submit [of opt p]) (use assms(3-5) in auto)
    define p3 where "p3 = p2\<lparr>p_idemp := (p_idemp p2)(k \<mapsto> o_ID opt')\<rparr>"
    have p3: "taken k p3" by (simp add: p3_def)
    obtain ra p4 where a: "admitRate e ars (o_RateLimitKey opt') p3 = Some (ra, p4)"
      using s assms(1,4) False by (auto simp: submit_tracked_def o p3_def Let_def split: option.splits)
    have p4: "taken k p4" using admitRate_keep [OF a view_blind [OF view_taken] assms(6) p3] by simp
    show ?thesis
    proof (cases ra)
      case (Some x)
      with s assms(1,4) False a p4 show ?thesis by (auto simp: submit_tracked_def o p3_def Let_def submit_rejected_def)
    next
      case None
      with s assms(1,4) False a have "submit_queued e rs j f opt' p4 = Some ((None, Some er), p')"
        by (auto simp: submit_tracked_def o p3_def Let_def)
      then obtain x q ok where "submit_end e x f opt' ok q = ((None, Some er), p')" "taken k q"
        by (rule submit_queued_keep [OF _ view_taken assms(7) p4])
      with submit_end_counters show ?thesis by metis
    qed
  qed
  with spare_steps_taken [OF assms(8)] have t: "taken k p''" .
  obtain opt2' q2 where "o_IdempotencyKey opt2' = k" "p_idemp q2 = p_idemp p''"
    and "submit e2 ars2 rs2 (Some j2) f2 [opt2] p'' = submit_tracked e2 ars2 rs2 j2 f2 opt2' q2"
    by (rule keyed_submit [of opt2 p'']) (use assms(4,9,10) in auto)
  with t assms(4) show ?thesis by (auto simp: submit_tracked_def submit_rejected_def)
qed

lemma ex_full_submit:
  obtains q where "submit ex_env [] [] (Some (UserJob 1)) None [no_options\<lparr>o_IdempotencyKey := ''k''\<rparr>] ex_full =
      Some ((None, Some ErrQueueFull), q)" "p_state q = stateRunning"
proof -
  have "case submit ex_env [] [] (Some (UserJob 1)) None [no_options\<lparr>o_IdempotencyKey := ''k''\<rparr>] ex_full of
      None \<Rightarrow> False | Some (r, q) \<Rightarrow> r = (None, Some ErrQueueFull) \<and> p_state q = stateRunning"
    by code_simp
  with that show thesis by (auto split: option.splits)
qed


theorem idempotency_key_sticks_witness:
  "\<exists>p p2 q. submit ex_env [] [] (Some (UserJob 1)) None [no_options\<lparr>o_IdempotencyKey := ''k''\<rparr>] ex_full = Some ((None, Some ErrQueueFull), p) \<and>
     p2 = PauseQueue ex_env ''mail'' p \<and>
     submit ex_env [] [] (Some (UserJob 2)) None [no_options\<lparr>o_IdempotencyKey := ''k''\<rparr>] p2 = Some ((None, Some ErrDuplicate), q)"
proof -
  obtain p where p: "submit ex_env [] [] (Some (UserJob 1)) None [no_options\<lparr>o_IdempotencyKey := ''k''\<rparr>] ex_full =
      Some ((None, Some ErrQueueFull), p)" "p_state p = stateRunning" by (rule ex_full_submit)
  define p2 where "p2 = PauseQueue ex_env ''mail'' p"
  have "p_state p2 = p_state p"
    by (simp add: p2_def PauseQueue_def signalQueueWake_def)
  moreover have "spare_step ''k'' p p2"
    unfolding p2_def by (intro SpareOther pool_step.PauseQueue control_idemp)
  moreover have "p_state ex_full = stateRunning" by code_simp
  ultimately show ?thesis using p
      idempotency_key_sticks [OF p(1) _ _ _ _ quiet_Nil(4,3) r_into_rtranclp, of "''k''" p2 "no_options\<lparr>o_IdempotencyKey := ''k''\<rparr>" ex_env "[]" "[]" "UserJob 2" None]
    by (auto simp: p2_def [symmetric])
qed

end
