(* ===== verification/Job_Properties.thy ===== *)
theory Job_Properties
  imports Pool_Properties
begin

text \<open>
  What happens to a job: which one a worker takes, what a run that succeeds leaves behind, when a job
  is run again, and what a cancellation prevents.
\<close>

lemma held_not_queued:
  assumes "pool_wf p" "x \<in> set (p_inflight p)"
  shows "x \<notin># image_mset it_Value (pq_elems (p_q p))"
proof -
  have "count (places p) x \<le> 1" using assms(1) by (simp add: pool_wf_def)
  moreover have "1 \<le> count (mset (p_inflight p)) x" using assms(2) by (simp add: Suc_le_eq)
  moreover have "count (mset (p_inflight p)) x + count (image_mset it_Value (pq_elems (p_q p))) x \<le> count (places p) x"
    by (simp add: places_def)
  ultimately have "count (image_mset it_Value (pq_elems (p_q p))) x = 0" by linarith
  then show ?thesis by (simp only: count_eq_zero_iff not_False_eq_True)
qed

subsection \<open>Taking work\<close>

lemma pop_basic_front:
  assumes "pool_wf p" "pop_basic p = (r, p')"
  shows "case r of None \<Rightarrow> fifo_contents (p_basicq p) = [] \<and> p' = p
     | Some j \<Rightarrow> fifo_contents (p_basicq p) = j # fifo_contents (p_basicq p')"
proof -
  obtain v q where q: "FIFO_TryPop (p_basicq p) = (v, q)" by fastforce
  have i: "fifo_inv (p_basicq p)" using assms(1) by (simp add: pool_wf_def queues_ok_def)
  from fq.fifo_pop [OF i q] q assms(2) show ?thesis
    by (cases v) (auto simp: pop_basic_def FIFO_TryPop_def split: if_splits prod.splits)
qed

lemma pop_fast_front:
  assumes "pool_wf p" "pop_fast p = (r, p')"
  shows "case r of None \<Rightarrow> fifo_contents (p_fastq p) = [] \<and> p' = p
     | Some y \<Rightarrow> fifo_contents (p_fastq p) = y # fifo_contents (p_fastq p') \<and> y \<noteq> None"
proof -
  obtain v q where q: "FIFO_TryPop (p_fastq p) = (v, q)" by fastforce
  have i: "fifo_inv (p_fastq p)" "None \<notin> set (fifo_contents (p_fastq p))" using assms(1) by (auto simp: pool_wf_def queues_ok_def)
  from fq.fifo_pop [OF i(1) q] q assms(2) i(2) show ?thesis
    by (cases v) (auto simp: pop_fast_def FIFO_TryPop_def split: if_splits prod.splits)
qed

lemma pop_q_front:
  assumes "pool_wf p" "pop_q now p = (r, p')"
  shows "case r of None \<Rightarrow> (\<forall>it \<in># pq_elems (p_q p). now < it_RunAt it) \<and> p' = p
     | Some x \<Rightarrow> (\<exists>it. it_Value it = x \<and> it_RunAt it \<le> now \<and> pq_elems (p_q p) = add_mset it (pq_elems (p_q p')) \<and>
         (\<forall>y \<in># pq_elems (p_q p). \<not> lessItem y it))"
proof -
  obtain v q where q: "PQ_TryPop now (p_q p) = (v, q)" by fastforce
  have i: "pq_inv (p_q p)" using assms(1) by (simp add: pool_wf_def queues_ok_def)
  show ?thesis
  proof (cases v)
    case None
    then have "\<forall>it \<in># pq_elems (p_q p). now < it_RunAt it"
      using PQ_TryPop_None [OF i] q by (metis not_le)
    with None q assms(2) show ?thesis
      by (auto simp: pop_q_def PQ_TryPop_def PQ_take_def split: if_splits option.splits)
  next
    case (Some it)
    with q PQ_TryPop_due PQ_take_least [OF i PQ_TryPop_take] PQ_TryPop_elems [OF q] assms(2) show ?thesis
      by (auto simp: pop_q_def)
  qed
qed

text \<open>C10. A worker of a running pool takes jobs in a fixed order and never overlooks one: a basic job if
  there is one, else the oldest of the fast queue, else the oldest spilled one, else a least one - by
  run time, priority and age - among the due ones of the priority queue; it finds nothing only when the
  first three are empty and nothing in the fourth is due.\<close>

theorem worker_takes_next:
  assumes "pool_wf p" "p_state p \<noteq> stateTerminated" "p_state p \<noteq> statePaused" "worker_poll now p = (w, p')"
  shows "case w of
      WBasic j \<Rightarrow> fifo_contents (p_basicq p) = j # fifo_contents (p_basicq p')
    | WJob x \<Rightarrow> fifo_contents (p_basicq p) = [] \<and>
        (fifo_contents (p_fastq p) = Some x # fifo_contents (p_fastq p') \<or>
         fifo_contents (p_fastq p) = [] \<and>
           (p_spill p = x # p_spill p' \<or>
            p_spill p = [] \<and> (\<exists>it. it_Value it = x \<and> it_RunAt it \<le> now \<and>
              pq_elems (p_q p) = add_mset it (pq_elems (p_q p')) \<and> (\<forall>y \<in># pq_elems (p_q p). \<not> lessItem y it))))
    | WNone \<Rightarrow> QueueDepth p = PQ_Len (p_q p) \<and> (\<forall>it \<in># pq_elems (p_q p). now < it_RunAt it)
    | _ \<Rightarrow> False"
proof -
  obtain b p1 where b: "pop_basic p = (b, p1)" by fastforce
  obtain f p2 where f: "pop_fast p1 = (f, p2)" by fastforce
  obtain s p3 where s: "popSpill p2 = (s, p3)" by fastforce
  obtain q p4 where q: "pop_q now p3 = (q, p4)" by fastforce
  note bf = pop_basic_front [OF assms(1) b]
  show ?thesis
  proof (cases b)
    case (Some j)
    with assms b bf show ?thesis by (auto simp: worker_poll_def)
  next
    case bn: None
    then have p1: "p1 = p" "fifo_contents (p_basicq p) = []" using bf by simp_all
    note ff = pop_fast_front [OF assms(1) f [unfolded p1]]
    show ?thesis
    proof (cases f)
      case (Some y)
      with ff obtain x where "y = Some x" by auto
      with Some assms b f ff bn p1 show ?thesis by (auto simp: worker_poll_def)
    next
      case fn: None
      then have p2: "p2 = p" "fifo_contents (p_fastq p) = []" using ff by simp_all
      show ?thesis
      proof (cases s)
        case (Some x)
        with s p2 have "p_spill p = x # p_spill p3" by (auto simp: popSpill_def split: list.splits)
        with Some assms b f s bn fn p1 p2 show ?thesis by (auto simp: worker_poll_def)
      next
        case sn: None
        with s p2 have p3: "p3 = p" "p_spill p = []" by (auto simp: popSpill_def split: list.splits)
        note qf = pop_q_front [OF assms(1) q [unfolded p3]]
        have "fq_len (p_basicq p) = 0" "fq_len (p_fastq p) = 0" using p1 p2 by simp_all
        then have "QueueDepth p = PQ_Len (p_q p)" using p3 by (simp add: QueueDepth_def FIFO_Len_def SpillDepth_def)
        with qf assms b f s q bn fn sn p1 p2 p3 show ?thesis by (cases q) (auto simp: worker_poll_def)
      qed
    qed
  qed
qed

theorem worker_takes_next_witness:
  "\<exists>p p'. QueueDepth p = 1 \<and> worker_poll 3000 p = (WJob 0, p') \<and> fifo_contents (p_fastq p) = Some 0 # fifo_contents (p_fastq p')"
proof -
  obtain p where p: "pool_step\<^sup>*\<^sup>* (New ex_env ex_config []) p" "QueueDepth p = 1" "fast_ptrs p = [0]" "p_state p = stateRunning"
    by (rule ex_submit_reach)
  have wf: "pool_wf p" by (rule reachable_sound(1) [OF p(1)])
  obtain w p' where w: "worker_poll 3000 p = (w, p')" by fastforce
  have ne: "fifo_contents (p_fastq p) = [Some 0]"
    using p(3) wf by (auto simp: fast_ptrs_def pool_wf_def queues_ok_def) (metis option.collapse)
  then have "fq_len (p_fastq p) = 1" using length_fifo_contents [of "p_fastq p"] by (simp del: length_fifo_contents)
  then have "int (fq_len (p_basicq p)) + PQ_Len (p_q p) + SpillDepth p = 0" "0 \<le> PQ_Len (p_q p)" "0 \<le> SpillDepth p"
    using p(2) by (simp_all add: QueueDepth_def FIFO_Len_def PQ_Len_def SpillDepth_def)
  then have "fq_len (p_basicq p) = 0" "PQ_Len (p_q p) = 0" by linarith+
  then have "fifo_contents (p_basicq p) = []" "PQ_Len (p_q p) = 0" by simp_all
  with worker_takes_next [OF wf _ _ w] p(4) ne p(2) have "w = WJob 0 \<and> fifo_contents (p_fastq p) = Some 0 # fifo_contents (p_fastq p')"
    by (cases w) auto
  with w p(2) show ?thesis by blast
qed

subsection \<open>After the run\<close>

lemma run_result_same:
  assumes "run_result e wid x r p = (er, q)"
  shows "p_q q = p_q p" "p_state q = p_state p" "p_jobs q = p_jobs p" "p_cfg q = p_cfg p" "p_inflight q = p_inflight p"
    "p_heap q = p_heap p"
  using assms by (auto simp: run_result_def recover_panic_def Let_def split: run_outcome.splits if_splits)

lemma succeed_q: "p_q (succeed_job e x p) = p_q p"
  by (simp add: succeed_job_def releaseJob_def succeed_record_def Let_def)

lemma deadletter_q: "p_q (deadletter e x er p) = p_q p"
  by (simp add: deadletter_def Let_def)

text \<open>C8. A job that has run is queued again only for a reason: it failed - its \<open>Run\<close> returned an error,
  panicked, or its context ended - the error is not marked permanent, attempts are left, and the pool
  is not stopping.  This holds whatever others do while the worker waits for room.\<close>

theorem requeued_only_to_retry:
  assumes "pool_wf p" "x \<in> set (p_inflight p)" "x \<in> set (p_running p)" "rely_rounds x rs"
    and "execute_finish e rs wid x r p = Some p'" "x \<in> it_Value ` set (pq_items (p_q p'))"
  shows "\<exists>er q. run_result e wid x r p = (Some er, q) \<and> \<not> IsPermanent (Some er) \<and>
    qj_attempt (p_heap p x) < o_MaxAttempts (qj_opts (p_heap p x)) \<and> \<not> halted (p_state p)"
proof -
  obtain er q where q: "run_result e wid x r p = (er, q)" by fastforce
  note rs = run_result_same [OF q]
  have wq: "pool_wf q" using run_result_stays [OF stays_refl q] assms(1,2) by (simp add: held_def stays_def)
  have nq: "x \<notin> it_Value ` set (pq_items (p_q q))"
    using held_not_queued [OF wq, of x] assms(2) rs by (simp add: pq_elems_def)
  obtain s where s: "(if er = None then Some (succeed_job e x q) else fail_job e rs x er q) = Some s"
    and p': "p' = end_run x (o_ConcurrencyKey (qj_opts (p_heap p x))) s"
    using assms(5) q by (auto simp: execute_finish_def Let_def)
  have xs: "x \<in> it_Value ` set (pq_items (p_q s))" using assms(6) by (simp add: p' end_run_def Let_def)
  have "er \<noteq> None" using s xs nq by (auto simp: succeed_q split: if_splits)
  then obtain a where a: "er = Some a" by blast
  have "qj_attempt (p_heap p x) < o_MaxAttempts (qj_opts (p_heap p x)) \<and> \<not> IsPermanent er \<and> \<not> halted (p_state p)"
  proof (rule ccontr)
    assume "\<not> ?thesis"
    then have "p_q s = p_q q"
      using s by (auto simp: a fail_job_def Let_def deadletter_q rs halted_def simp del: State_less_simps split: if_splits)
    with xs nq show False by simp
  qed
  with q a show ?thesis by blast
qed

definition ex_retry :: pool where
  "ex_retry = (New ex_env ex_config [])\<lparr>p_state := stateRunning, p_inflight := [0], p_running := [0], p_next := 1,
     p_heap := (\<lambda>_. zero_job\<lparr>qj_opts := no_options\<lparr>o_MaxAttempts := 3\<rparr>, qj_attempt := 1, qj_state := JobRunning\<rparr>)\<rparr>"

lemma ex_retry_wf: "pool_wf ex_retry"
  using New_blank [of ex_env ex_config "[]"]
  by (simp add: ex_retry_def blank_def wf_defs fifo_inv_New pq_inv_New)

definition ex_failed :: run_end where
  "ex_failed = \<lparr>re_outcome = Returned (Some (Errorf ''boom'')), re_deadline = False, re_deadlineFirst = False\<rparr>"

theorem requeued_only_to_retry_witness:
  "(case execute_finish ex_env [] 1 0 ex_failed ex_retry of None \<Rightarrow> False | Some p' \<Rightarrow> 0 \<in> it_Value ` set (pq_items (p_q p'))) \<and>
   qj_attempt (p_heap ex_retry 0) < o_MaxAttempts (qj_opts (p_heap ex_retry 0)) \<and> \<not> halted (p_state ex_retry)"
proof -
  have "case execute_finish ex_env [] 1 0 ex_failed ex_retry of None \<Rightarrow> False | Some p' \<Rightarrow> list_ex (\<lambda>it. it_Value it = 0) (pq_items (p_q p'))"
    by code_simp
  then obtain p' where p': "execute_finish ex_env [] 1 0 ex_failed ex_retry = Some p'" "0 \<in> it_Value ` set (pq_items (p_q p'))"
    by (auto simp: list_ex_iff image_iff split: option.splits)
  have "0 \<in> set (p_inflight ex_retry)" "0 \<in> set (p_running ex_retry)" by (simp_all add: ex_retry_def)
  from requeued_only_to_retry [OF ex_retry_wf this _ p'] p' show ?thesis by (auto simp: rely_rounds_def)
qed

lemma complete_future_cong: "p_futures p = p_futures q \<Longrightarrow> p_futures (complete_future u er p) = p_futures (complete_future u er q)"
  by (simp add: complete_future_def split: option.split)

text \<open>C13. A run that returns no error, within its context, always ends the job at once, without waiting:
  the job counts as completed and its worker as free, its future is decided without an error (unless it
  was decided before), it is not tracked under its identity any more, and its idempotency key and its
  concurrency slot are free again.\<close>

theorem success_completes:
  assumes "re_outcome r = Returned None" "run_ctx_err r x p = None"
  shows "\<exists>p'. execute_finish e rs wid x r p = Some p' \<and>
    p_c p' = (p_c p)\<lparr>k_completed := k_completed (p_c p) + 1, k_busy := k_busy (p_c p) - 1\<rparr> \<and>
    p_inflight p' = remove1 x (p_inflight p) \<and> p_running p' = remove1 x (p_running p) \<and> p_dlq p' = p_dlq p \<and>
    (c_EnableJobTracking (p_cfg p) \<longrightarrow> o_ID (qj_opts (p_heap p x)) \<noteq> [] \<longrightarrow> map_of (p_jobs p') (o_ID (qj_opts (p_heap p x))) = None) \<and>
    (o_IdempotencyKey (qj_opts (p_heap p x)) \<noteq> [] \<longrightarrow> p_idemp p' (o_IdempotencyKey (qj_opts (p_heap p x))) = None) \<and>
    p_sem p' = release (o_ConcurrencyKey (qj_opts (p_heap p x))) (p_sem p) \<and>
    (\<forall>i. qj_future (p_heap p x) = Some i \<longrightarrow> future_inv (p_futures p i) \<longrightarrow>
       fu_done (p_futures p' i) \<and> (\<not> fu_done (p_futures p i) \<longrightarrow> fu_err (p_futures p' i) = None))"
proof -
  have q: "run_result e wid x r p = (None, p)" using assms by (simp add: run_result_def)
  define s where "s = succeed_record e x p"
  have p': "execute_finish e rs wid x r p = Some (end_run x (o_ConcurrencyKey (qj_opts (p_heap p x))) (leave x (releaseJob x s)))"
    by (simp add: execute_finish_def Let_def q succeed_job_def s_def)
  have fr: "p_c s = (p_c p)\<lparr>k_completed := k_completed (p_c p) + 1\<rparr>" "p_inflight s = p_inflight p" "p_running s = p_running p"
    "p_dlq s = p_dlq p" "p_sem s = p_sem p" "p_jobs s = p_jobs (untrack_job (qj_opts (p_heap p x)) p)"
    "o_IdempotencyKey (qj_opts (p_heap p x)) \<noteq> [] \<Longrightarrow> p_idemp s (o_IdempotencyKey (qj_opts (p_heap p x))) = None"
    by (simp_all add: s_def succeed_record_def Let_def) (simp add: forget_key_def)
  have fu: "p_futures s = p_futures (complete_future (qj_future (p_heap p x)) None p)"
    unfolding s_def succeed_record_def Let_def by simp (rule complete_future_cong, simp)
  show ?thesis
    by (intro exI conjI, rule p')
      (auto simp: end_run_def Let_def releaseJob_def fr fu delete_conv' complete_future_def complete_def close_done_def future_inv_def split: option.split)
qed

definition ex_done :: run_end where
  "ex_done = \<lparr>re_outcome = Returned None, re_deadline = False, re_deadlineFirst = False\<rparr>"

theorem success_completes_witness:
  "\<exists>p'. execute_finish ex_env [] 1 0 ex_done ex_retry = Some p' \<and> k_completed (p_c p') = k_completed (p_c ex_retry) + 1 \<and>
     p_inflight p' = []"
proof -
  have c: "run_ctx_err ex_done 0 ex_retry = None"
    by (simp add: run_ctx_err_def ex_done_def ex_retry_def ctx_Err_def zero_job_def Let_def New_def) (simp add: fresh_pool_def)
  have "p_inflight ex_retry = [0]" "re_outcome ex_done = Returned None" by (simp_all add: ex_retry_def ex_done_def)
  with success_completes [OF this(2) c, of ex_env "[]" 1] show ?thesis by fastforce
qed

subsection \<open>Cancellation\<close>

text \<open>C14. A cancelled job that has not begun does not run: after \<open>CancelJob\<close> has found it, and as long as
  its object is not recycled, the worker that takes it calls its \<open>Run\<close> in no circumstances, whatever
  else the other goroutines did in between; it also does not wait.\<close>

theorem cancel_prevents_run:
  assumes "CancelJob e i p = (True, p1)" "map_of (p_jobs p) i = Some x"
    and "qj_ctx (p_heap p x) = Some (JobCtx k)" "qj_cancel (p_heap p x) = Some k"
    and "qj_ctx (p_heap p2 x) = Some (JobCtx k)" "p_cancelled p1 \<subseteq> p_cancelled p2"
  shows "\<exists>p3. execute_begin e2 rs x p2 = Some (False, p3) \<and> k_started (p_c p3) = k_started (p_c p2) \<and>
    p_q p3 = p_q p2 \<and> p_gone p3 = p_gone p2 + 1"
proof -
  have "k \<in> p_cancelled p1"
    using assms(1-4) by (auto simp: CancelJob_def Let_def cancel_ctx_def untrack_def complete_future_def split: option.splits)
  then have k: "k \<in> p_cancelled p2" using assms(6) by blast
  define q where "q = emitJob e2 EventJobDequeued x (qj_attempt (p_heap p2 x)) None '''' p2"
  have "ctx_Err q (JobCtx k) \<noteq> None" using k by (simp add: ctx_Err_def q_def)
  then have "execute_begin e2 rs x p2 = Some (False, cancel_queued e2 x q)"
    using assms(5) by (simp add: execute_begin_def Let_def q_def [symmetric]) (simp add: q_def)
  moreover have "p_c (cancel_queued e2 x q) = p_c p2" "p_q (cancel_queued e2 x q) = p_q p2" "p_gone (cancel_queued e2 x q) = p_gone p2 + 1"
    by (simp_all add: cancel_queued_def cancel_record_def releaseJob_def Let_def q_def)
  ultimately show ?thesis by simp
qed

definition ex_cancel :: pool where
  "ex_cancel = ex_retry\<lparr>p_running := [], p_jobs := [(''a'', 0)], p_nextCtx := 1,
     p_heap := (\<lambda>_. zero_job\<lparr>qj_opts := no_options\<lparr>o_ID := ''a''\<rparr>, qj_ctx := Some (JobCtx 0), qj_cancel := Some 0\<rparr>)\<rparr>"

theorem cancel_prevents_run_witness:
  "\<exists>p1 p3. CancelJob ex_env ''a'' ex_cancel = (True, p1) \<and> execute_begin ex_env [] 0 p1 = Some (False, p3) \<and>
     k_started (p_c p3) = k_started (p_c p1)"
proof -
  let ?p1 = "snd (CancelJob ex_env ''a'' ex_cancel)"
  have j: "map_of (p_jobs ex_cancel) ''a'' = Some 0" "qj_ctx (p_heap ex_cancel 0) = Some (JobCtx 0)" "qj_cancel (p_heap ex_cancel 0) = Some 0"
    by (simp_all add: ex_cancel_def)
  then have c: "CancelJob ex_env ''a'' ex_cancel = (True, ?p1)" by (simp add: CancelJob_def Let_def)
  have "qj_ctx (p_heap ?p1 0) = Some (JobCtx 0)" using j by (simp add: CancelJob_def Let_def cancel_ctx_def)
  from cancel_prevents_run [OF c j this subset_refl, of ex_env "[]"] c show ?thesis by blast
qed

end
