(* ===== verification/Worker_Loop.thy ===== *)
theory Worker_Loop
  imports Pool_Properties
begin

text \<open>
  The loop of a worker (\<open>worker\<close> of \<open>pool.go\<close>) with its waits, among the other goroutines.

  One pass of the loop is \<open>worker_iteration\<close>: the state, the four queues in their order, and, when all
  were empty, the waits of an idle worker.  What the others do is a function of the pool for every gap
  between two operations (\<open>w_gap\<close>) and for every round of a wait; \<open>worker_iteration_sound\<close> asks only that
  they act by steps of the pool.  A \<open>PopTimeout\<close> is a \<open>TryPop\<close> at one of its rounds, or comes back
  empty-handed when the rounds are over, which is what \<open>PQ_PopTimeout_correct\<close> and
  \<open>FIFO_PopTimeout_correct\<close> prove of the queues.
\<close>

record waits =
  w_now :: time
  w_gap :: "nat \<Rightarrow> pool \<Rightarrow> pool"
  w_paused :: "(pool \<Rightarrow> pool) list"
  w_q1 :: "round list"
  w_basic :: "round list"
  w_fast :: "round list"
  w_q2 :: "round list"
  w_pick :: bool

subsection \<open>Waiting\<close>

fun wait_pop :: "(time \<Rightarrow> pool \<Rightarrow> 'r option \<times> pool) \<Rightarrow> round list \<Rightarrow> pool \<Rightarrow> 'r option \<times> pool" where
  "wait_pop pop [] p = (None, p)"
| "wait_pop pop ((now, others) # rs) p =
     (case pop now p of
        (Some r, p') \<Rightarrow> (Some r, p')
      | (None, p') \<Rightarrow> wait_pop pop rs (others p'))"

text \<open>The loop of a paused pool: whether the worker returns.  \<open>None\<close>: it still waits.\<close>

fun paused_loop :: "(pool \<Rightarrow> pool) list \<Rightarrow> pool \<Rightarrow> (bool \<times> pool) option" where
  "paused_loop [] p = (if p_state p = statePaused then None else Some (False, p))"
| "paused_loop (f # fs) p =
     (if p_state p = statePaused then if p_ctxCancelled p then Some (True, p) else paused_loop fs (f p)
      else Some (False, p))"

text \<open>\<open>execute\<close> returns at once for a nil pointer.\<close>

definition fast_work :: "nat option \<Rightarrow> work" where
  "fast_work x = (case x of None \<Rightarrow> WNone | Some y \<Rightarrow> WJob y)"

subsection \<open>A pass of the loop\<close>

text \<open>The branch of a worker in excess, after \<open>IdleTimeout\<close>.\<close>

definition worker_idle :: "waits \<Rightarrow> pool \<Rightarrow> work \<times> pool" where
  "worker_idle w p =
     (case wait_pop (\<lambda>_. pop_basic) (w_basic w) p of
        (Some j, p) \<Rightarrow> (WBasic j, p)
      | (None, p) \<Rightarrow>
          (case wait_pop (\<lambda>_. pop_fast) (w_fast w) (w_gap w 7 p) of
             (Some x, p) \<Rightarrow> (fast_work x, p)
           | (None, p) \<Rightarrow>
               let p = w_gap w 8 p
               in (if p_workers p > c_MinWorkers (p_cfg p) then WStop else WNone, p)))"

text \<open>The last \<open>select\<close>; with both channels ready either is taken.\<close>

definition worker_select :: "waits \<Rightarrow> pool \<Rightarrow> work \<times> pool" where
  "worker_select w p =
     (if p_queueWake p \<and> (w_pick w \<or> \<not> p_ctxCancelled p) then (WNone, p\<lparr>p_queueWake := False\<rparr>)
      else if p_ctxCancelled p then (WStop, p)
      else (WNone, p))"

definition worker_short :: "waits \<Rightarrow> pool \<Rightarrow> work \<times> pool" where
  "worker_short w p =
     (case wait_pop (\<lambda>_. pop_basic) (w_basic w) p of
        (Some j, p) \<Rightarrow> (WBasic j, p)
      | (None, p) \<Rightarrow>
          (case pop_fast (w_gap w 9 p) of
             (Some x, p) \<Rightarrow> (fast_work x, p)
           | (None, p) \<Rightarrow>
               (case wait_pop pop_q (w_q2 w) (w_gap w 10 p) of
                  (Some x, p) \<Rightarrow> (WJob x, p)
                | (None, p) \<Rightarrow> worker_select w (w_gap w 11 p))))"

definition worker_wait :: "waits \<Rightarrow> pool \<Rightarrow> work \<times> pool" where
  "worker_wait w p =
     (case (if PQ_Len (p_q p) > 0 then wait_pop pop_q (w_q1 w) p else (None, p)) of
        (Some x, p) \<Rightarrow> (WJob x, p)
      | (None, p) \<Rightarrow>
          let p = w_gap w 5 p
          in if worker_drained p then (WStop, p)
             else let p = w_gap w 6 p
                  in if worker_surplus p then worker_idle w p else worker_short w p)"

definition worker_take :: "waits \<Rightarrow> pool \<Rightarrow> work \<times> pool" where
  "worker_take w p =
     (case pop_basic (w_gap w 0 p) of
        (Some j, p) \<Rightarrow> (WBasic j, p)
      | (None, p) \<Rightarrow>
          (case pop_fast (w_gap w 1 p) of
             (Some x, p) \<Rightarrow> (fast_work x, p)
           | (None, p) \<Rightarrow>
               (case popSpill (w_gap w 2 p) of
                  (Some x, p) \<Rightarrow> (WJob x, p)
                | (None, p) \<Rightarrow>
                    (case pop_q (w_now w) (w_gap w 3 p) of
                       (Some x, p) \<Rightarrow> (WJob x, p)
                     | (None, p) \<Rightarrow> worker_wait w (w_gap w 4 p)))))"

definition worker_iteration :: "waits \<Rightarrow> pool \<Rightarrow> (work \<times> pool) option" where
  "worker_iteration w p =
     (if p_state p = stateTerminated then Some (WStop, p)
      else case paused_loop (w_paused w) (w_gap w 12 p) of
        None \<Rightarrow> None
      | Some (stop, p) \<Rightarrow> Some (if stop then (WStop, p) else worker_take w p))"

subsection \<open>Scaling\<close>

text \<open>The loop of \<open>autoscale\<close>: what its \<open>select\<close> chose, with what the others did before.  The loop
  ends on a closed \<open>scaleStop\<close> or a cancelled context; \<open>None\<close>: it still runs.\<close>

datatype scale_event = ScaleTick "pool \<Rightarrow> pool" | ScaleEnd "pool \<Rightarrow> pool"

fun autoscale :: "scale_event list \<Rightarrow> pool \<Rightarrow> pool option" where
  "autoscale [] p = None"
| "autoscale (ScaleTick others # evs) p = autoscale evs (autoscale_tick (others p))"
| "autoscale (ScaleEnd others # evs) p =
     (let p = others p in if p_scaleStop p \<or> p_ctxCancelled p then Some p else autoscale evs p)"

lemma autoscale_tick_max:
  "p_workers p \<le> max n (c_MaxWorkers (p_cfg p)) \<Longrightarrow> p_workers (autoscale_tick p) \<le> max n (c_MaxWorkers (p_cfg (autoscale_tick p)))"
  by (auto simp: autoscale_tick_def spawnWorker_def Let_def)

subsection \<open>A pass is a sequence of steps\<close>

definition by_steps :: "(pool \<Rightarrow> pool) \<Rightarrow> bool" where
  "by_steps f \<longleftrightarrow> (\<forall>p. pool_step\<^sup>*\<^sup>* p (f p))"

definition others_step :: "waits \<Rightarrow> bool" where
  "others_step w \<longleftrightarrow> (\<forall>i. by_steps (w_gap w i)) \<and> (\<forall>f \<in> set (w_paused w). by_steps f) \<and>
     (\<forall>r \<in> set (w_q1 w) \<union> set (w_basic w) \<union> set (w_fast w) \<union> set (w_q2 w). by_steps (snd r))"

text \<open>What a worker has, or why it leaves, at the end of a pass.\<close>

fun pass_end :: "work \<Rightarrow> pool \<Rightarrow> bool" where
  "pass_end (WJob x) p \<longleftrightarrow> x \<in> set (p_inflight p)"
| "pass_end (WBasic j) p \<longleftrightarrow> 0 < p_basicTaken p"
| "pass_end WStop p \<longleftrightarrow> p_state p = stateTerminated \<or> p_ctxCancelled p \<or> worker_drained p \<or> p_workers p > c_MinWorkers (p_cfg p)"
| "pass_end WSleep p \<longleftrightarrow> False"
| "pass_end WNone p \<longleftrightarrow> True"

text \<open>A pop is a step, and what it delivers is in the worker's hands.\<close>

definition good_pop :: "('r \<Rightarrow> work) \<Rightarrow> (time \<Rightarrow> pool \<Rightarrow> 'r option \<times> pool) \<Rightarrow> bool" where
  "good_pop c pop \<longleftrightarrow> (\<forall>t q. pool_step q (snd (pop t q)) \<and> (\<forall>x. fst (pop t q) = Some x \<longrightarrow> pass_end (c x) (snd (pop t q))))"

lemma good_pops [simp]:
  "good_pop WBasic (\<lambda>_. pop_basic)" "good_pop fast_work (\<lambda>_. pop_fast)" "good_pop WJob (\<lambda>_. popSpill)" "good_pop WJob pop_q"
  "good_pop WJob (\<lambda>_. pop_q t)"
  by (simp_all add: good_pop_def TakeBasic TakeFast TakeSpill TakeQ)
    (auto simp: pop_basic_def pop_fast_def popSpill_def pop_q_def fast_work_def split: prod.splits option.splits list.splits)

lemma then_by: "pool_step\<^sup>*\<^sup>* p q \<Longrightarrow> by_steps f \<Longrightarrow> pool_step\<^sup>*\<^sup>* p (f q)"
  unfolding by_steps_def by (metis rtranclp_trans)

lemma then_step: "pool_step\<^sup>*\<^sup>* p q \<Longrightarrow> pool_step q r \<Longrightarrow> pool_step\<^sup>*\<^sup>* p r"
  by (rule rtranclp.rtrancl_into_rtrancl)

lemma paused_loop_steps:
  "\<forall>f \<in> set fs. by_steps f \<Longrightarrow> paused_loop fs p = Some (stop, p') \<Longrightarrow> pool_step\<^sup>*\<^sup>* p0 p \<Longrightarrow>
   pool_step\<^sup>*\<^sup>* p0 p' \<and> (stop \<longrightarrow> p_ctxCancelled p')"
  by (induction fs arbitrary: p) (auto simp: then_by split: if_splits)

text \<open>\<open>well p0 r\<close>: reached from \<open>p0\<close> by steps, and a good end of a pass.\<close>

definition well :: "pool \<Rightarrow> work \<times> pool \<Rightarrow> bool" where
  "well p0 r \<longleftrightarrow> pool_step\<^sup>*\<^sup>* p0 (snd r) \<and> pass_end (fst r) (snd r)"

lemma well_pair [simp]: "well p0 (r, p) \<longleftrightarrow> pool_step\<^sup>*\<^sup>* p0 p \<and> pass_end r p"
  by (simp add: well_def)

lemma well_pop:
  assumes "good_pop c (\<lambda>_. pop)" "pool_step\<^sup>*\<^sup>* p0 q" "\<And>p. pool_step\<^sup>*\<^sup>* p0 p \<Longrightarrow> well p0 (g p)"
  shows "well p0 (case pop q of (Some x, p) \<Rightarrow> (c x, p) | (None, p) \<Rightarrow> g p)"
proof (cases "pop q")
  case (Pair r p')
  with assms(1) have "pool_step q p'" "\<And>x. r = Some x \<Longrightarrow> pass_end (c x) p'" unfolding good_pop_def by (metis fst_conv snd_conv)+
  with then_step [OF assms(2)] assms(3) Pair show ?thesis by (cases r) simp_all
qed

lemma well_wait:
  assumes "good_pop c pop" "\<forall>r \<in> set rs. by_steps (snd r)" "pool_step\<^sup>*\<^sup>* p0 q" "\<And>p. pool_step\<^sup>*\<^sup>* p0 p \<Longrightarrow> well p0 (g p)"
  shows "well p0 (case wait_pop pop rs q of (Some x, p) \<Rightarrow> (c x, p) | (None, p) \<Rightarrow> g p)"
  using assms(2,3)
proof (induction rs arbitrary: q)
  case Nil
  then show ?case by (simp add: assms(4))
next
  case (Cons e rs)
  obtain t f where e: "e = (t, f)" by fastforce
  obtain r1 q1 where q1: "pop t q = (r1, q1)" by fastforce
  have g: "pool_step q q1" "\<And>x. r1 = Some x \<Longrightarrow> pass_end (c x) q1" using assms(1) q1 unfolding good_pop_def by (metis fst_conv snd_conv)+
  note st = then_step [OF Cons.prems(2) g(1)]
  show ?case
  proof (cases r1)
    case None
    have "pool_step\<^sup>*\<^sup>* p0 (f q1)" using Cons.prems(1) by (simp add: e then_by [OF st])
    with Cons.IH [of "f q1"] Cons.prems(1) None q1 e show ?thesis by simp
  next
    case (Some x)
    with q1 e g st show ?thesis by simp
  qed
qed

lemma others_gap: "others_step w \<Longrightarrow> pool_step\<^sup>*\<^sup>* p0 p \<Longrightarrow> pool_step\<^sup>*\<^sup>* p0 (w_gap w i p)"
  by (simp add: others_step_def then_by)

lemma others_rounds:
  assumes "others_step w"
  shows "\<forall>r \<in> set (w_q1 w). by_steps (snd r)" "\<forall>r \<in> set (w_basic w). by_steps (snd r)"
    "\<forall>r \<in> set (w_fast w). by_steps (snd r)" "\<forall>r \<in> set (w_q2 w). by_steps (snd r)"
  using assms by (auto simp: others_step_def)

lemma worker_idle_well: "others_step w \<Longrightarrow> pool_step\<^sup>*\<^sup>* p0 p \<Longrightarrow> well p0 (worker_idle w p)"
  unfolding worker_idle_def
  by (intro well_wait good_pops others_rounds others_gap) (simp_all add: Let_def others_gap)

lemma worker_select_well: "pool_step\<^sup>*\<^sup>* p0 p \<Longrightarrow> well p0 (worker_select w p)"
  by (simp add: worker_select_def then_step [OF _ Wake])

lemma worker_short_well: "others_step w \<Longrightarrow> pool_step\<^sup>*\<^sup>* p0 p \<Longrightarrow> well p0 (worker_short w p)"
  unfolding worker_short_def
  by (intro well_wait well_pop good_pops others_rounds others_gap worker_select_well) simp_all

lemma worker_wait_well:
  assumes w: "others_step w" and p: "pool_step\<^sup>*\<^sup>* p0 p"
  shows "well p0 (worker_wait w p)"
proof -
  define g where "g = (\<lambda>p. let p = w_gap w 5 p
          in if worker_drained p then (WStop, p)
             else let p = w_gap w 6 p
                  in if worker_surplus p then worker_idle w p else worker_short w p)"
  have g: "well p0 (g q)" if "pool_step\<^sup>*\<^sup>* p0 q" for q
    unfolding g_def Let_def
    by (simp add: worker_idle_well [OF w] worker_short_well [OF w] others_gap [OF w] that)
  have "well p0 (case wait_pop pop_q (w_q1 w) p of (Some x, p) \<Rightarrow> (WJob x, p) | (None, p) \<Rightarrow> g p)"
    by (intro well_wait good_pops others_rounds [OF w] p g) simp
  then show ?thesis using g [OF p] unfolding worker_wait_def g_def by (cases "PQ_Len (p_q p) > 0") (simp_all only: if_True if_False prod.case option.case)
qed

lemma worker_take_well: "others_step w \<Longrightarrow> pool_step\<^sup>*\<^sup>* p0 p \<Longrightarrow> well p0 (worker_take w p)"
  unfolding worker_take_def
  by (intro well_pop good_pops worker_wait_well others_gap) simp_all

text \<open>C9. A pass of the worker loop is nothing but steps of the pool, whatever steps the others take in
  between and while it waits - so every invariant of reachable pools holds around it - and it ends
  with a job in the worker's hands, or with nothing, or the worker returns; it returns only from a
  terminated pool, a cancelled context, a stopping pool whose three queues it found empty, or when
  there are more workers than the minimum.\<close>

theorem worker_iteration_sound:
  assumes "others_step w" "worker_iteration w p = Some (r, p')"
  shows "pool_step\<^sup>*\<^sup>* p p' \<and>
    (case r of
       WJob x \<Rightarrow> x \<in> set (p_inflight p')
     | WBasic j \<Rightarrow> 0 < p_basicTaken p'
     | WStop \<Rightarrow> p_state p' = stateTerminated \<or> p_ctxCancelled p' \<or> worker_drained p' \<or> p_workers p' > c_MinWorkers (p_cfg p')
     | WSleep \<Rightarrow> False
     | WNone \<Rightarrow> True)"
proof -
  have "well p (r, p')"
  proof (cases "p_state p = stateTerminated")
    case True
    with assms(2) show ?thesis by (auto simp: worker_iteration_def)
  next
    case False
    with assms(2) obtain stop q where q: "paused_loop (w_paused w) (w_gap w 12 p) = Some (stop, q)"
      and r: "(r, p') = (if stop then (WStop, q) else worker_take w q)"
      by (auto simp: worker_iteration_def split: option.splits)
    have "pool_step\<^sup>*\<^sup>* p (w_gap w 12 p)" using assms(1) by (simp add: others_step_def by_steps_def)
    from paused_loop_steps [OF _ q this] assms(1) have "pool_step\<^sup>*\<^sup>* p q" "stop \<longrightarrow> p_ctxCancelled q"
      by (simp_all add: others_step_def)
    with worker_take_well [OF assms(1)] r show ?thesis by (cases stop) simp_all
  qed
  then show ?thesis by (cases r) (simp_all add: disj_assoc)
qed

definition ex_waits :: waits where
  "ex_waits = \<lparr>w_now = 3000, w_gap = (\<lambda>_ p. p), w_paused = [], w_q1 = [], w_basic = [], w_fast = [], w_q2 = [], w_pick = False\<rparr>"

theorem worker_iteration_sound_witness:
  "\<exists>p p'. fast_ptrs p = [0] \<and> worker_iteration ex_waits p = Some (WJob 0, p') \<and> pool_step\<^sup>*\<^sup>* p p' \<and> 0 \<in> set (p_inflight p')"
proof -
  have o: "others_step ex_waits" by (simp add: others_step_def ex_waits_def by_steps_def)
  have "case submit ex_env [] [] (Some (UserJob 1)) None [] ex_pool of
      None \<Rightarrow> False
    | Some (r, q) \<Rightarrow> fast_ptrs q = [0] \<and> map_option fst (worker_iteration ex_waits q) = Some (WJob 0)"
    by code_simp
  then obtain q p' where "fast_ptrs q = [0]" "worker_iteration ex_waits q = Some (WJob 0, p')"
    by (auto split: option.splits)
  with worker_iteration_sound [OF o this(2)] show ?thesis by auto
qed

end
