(* ===== verification/Control_Properties.thy ===== *)
theory Control_Properties
  imports Worker_Loop
begin

text \<open>
  Replay of dead letters, pausing, shutdown and scaling: what they promise, and where they fall short.
\<close>

subsection \<open>Dead letters\<close>

lemma replay_step_q:
  assumes "try_q (job_item x q) q = (ok, q')" "q = upd_job x (\<lambda>q. q\<lparr>qj_runAt := t\<rparr>) (upd_job x (\<lambda>q. q\<lparr>qj_attempt := 0\<rparr>) p)"
  shows "image_mset it_Value (pq_elems (p_q q')) = image_mset it_Value (pq_elems (p_q p)) + (if ok then {#x#} else {#})"
    "p_dlq q' = p_dlq p" "p_jobs q' = p_jobs p" "p_futures q' = p_futures p" "p_state q' = p_state p"
proof -
  obtain pq where pq: "PQ_Push (job_item x q) (p_q q) = (ok, pq)" "q' = (if ok then leave x (q\<lparr>p_q := pq\<rparr>) else q)"
    using assms(1) by (auto simp: try_q_def split: prod.splits)
  from PQ_Push_elems [OF pq(1)] pq
  show "image_mset it_Value (pq_elems (p_q q')) = image_mset it_Value (pq_elems (p_q p)) + (if ok then {#x#} else {#})"
    "p_dlq q' = p_dlq p" "p_jobs q' = p_jobs p" "p_futures q' = p_futures p" "p_state q' = p_state p"
    by (cases ok; auto simp: assms(2) PQ_Push_def split: if_splits)+
qed

lemma replay_loop_moves:
  "replay_loop e items n er p = (n', er', p') \<Longrightarrow>
   image_mset it_Value (pq_elems (p_q p')) + mset (p_dlq p') = image_mset it_Value (pq_elems (p_q p)) + mset (p_dlq p) + mset items \<and>
   n' + int (length (p_dlq p')) = n + int (length (p_dlq p)) + int (length items) \<and>
   (er' = None \<longleftrightarrow> er = None \<and> length (p_dlq p') = length (p_dlq p)) \<and> length (p_dlq p) \<le> length (p_dlq p') \<and>
   p_jobs p' = p_jobs p \<and> p_futures p' = p_futures p"
proof (induction items arbitrary: n er p)
  case (Cons x items)
  define q where "q = upd_job x (\<lambda>q. q\<lparr>qj_runAt := e_now e 0\<rparr>) (upd_job x (\<lambda>q. q\<lparr>qj_attempt := 0\<rparr>) p)"
  obtain ok q' where t: "try_q (job_item x q) q = (ok, q')" by fastforce
  note st = replay_step_q [OF t q_def]
  show ?case
  proof (cases ok)
    case True
    with Cons.prems t have "replay_loop e items (n + 1) er (bump (k_accepted_update (\<lambda>n. n + 1)) q') = (n', er', p')"
      by (simp add: Let_def flip: q_def)
    from Cons.IH [OF this] st True show ?thesis by simp
  next
    case False
    with Cons.prems t have "replay_loop e items n (if er = None then Some ErrQueueFull else er) (leave x (q'\<lparr>p_dlq := p_dlq q' @ [x]\<rparr>)) = (n', er', p')"
      by (simp add: Let_def flip: q_def)
    from Cons.IH [OF this] st False show ?thesis by (auto split: if_splits)
  qed
qed simp

lemma replay_loop_error:
  "replay_loop e items n er p = (n', er', p') \<Longrightarrow> er \<in> {None, Some ErrQueueFull} \<Longrightarrow> er' \<in> {None, Some ErrQueueFull}"
  by (induction items arbitrary: n er p) (auto simp: Let_def split: prod.splits if_splits)

text \<open>C26. \<open>ReplayDeadLetters\<close> loses nothing and doubles nothing.  On a pool that is stopping, stopped or
  terminated it returns 0 and \<open>ErrClosed\<close> and does nothing.  Otherwise every dead letter is afterwards
  either in the priority queue or a dead letter still, the number returned is how many moved, and the
  error is nil exactly when all did, \<open>ErrQueueFull\<close> else.  It does not wait.  A replayed job is not
  tracked again, and its future, which was decided when the job died, is not renewed.\<close>

theorem replay_moves:
  assumes "ReplayDeadLetters e p = ((n, er), p')"
  shows "if halted (p_state p) then n = 0 \<and> er = Some ErrClosed \<and> p' = p
    else image_mset it_Value (pq_elems (p_q p')) + mset (p_dlq p') = image_mset it_Value (pq_elems (p_q p)) + mset (p_dlq p) \<and>
      n = int (length (p_dlq p)) - int (length (p_dlq p')) \<and> er = (if p_dlq p' = [] then None else Some ErrQueueFull) \<and>
      p_jobs p' = p_jobs p \<and> p_futures p' = p_futures p"
proof (cases "halted (p_state p)")
  case True
  with assms show ?thesis by (auto simp: ReplayDeadLetters_def halted_def simp del: State_less_simps)
next
  case False
  let ?q = "p\<lparr>p_dlq := [], p_inflight := p_dlq p @ p_inflight p\<rparr>"
  have "replay_loop e (p_dlq p) 0 None ?q = (n, er, p')"
    using assms False by (auto simp: ReplayDeadLetters_def Let_def halted_def simp del: State_less_simps split: prod.splits)
  from replay_loop_moves [OF this] replay_loop_error [OF this] False show ?thesis by auto
qed

definition ex_dead :: pool where
  "ex_dead = ex_pool\<lparr>p_dlq := [0, 1, 2], p_next := 3\<rparr>"

theorem replay_moves_witness:
  "\<exists>p'. ReplayDeadLetters ex_env ex_dead = ((2, Some ErrQueueFull), p') \<and> length (p_dlq p') = 1 \<and>
     size (pq_elems (p_q p')) = 2"
proof -
  have "fst (ReplayDeadLetters ex_env ex_dead) = (2, Some ErrQueueFull)" by code_simp
  then obtain p' where p': "ReplayDeadLetters ex_env ex_dead = ((2, Some ErrQueueFull), p')" by (metis prod.collapse)
  have d: "\<not> halted (p_state ex_dead)" "p_dlq ex_dead = [0, 1, 2]" "pq_items (p_q ex_dead) = []" by code_simp+
  note m = replay_moves [OF p', unfolded if_not_P [OF d(1)]] d
  have "length (p_dlq p') = 1" using m by simp
  moreover have "size (pq_elems (p_q p')) + length (p_dlq p') = 3"
    using arg_cong [OF conjunct1 [OF m(1)], of size] m(3,4) by (simp add: pq_elems_def)
  ultimately show ?thesis using p' by (intro exI [of _ p']) simp
qed

subsection \<open>Pausing\<close>

text \<open>What a worker's pass finds paused stays so while it waits at the top of its loop.\<close>

definition stays_paused :: "waits \<Rightarrow> bool" where
  "stays_paused w \<longleftrightarrow> (\<forall>f \<in> insert (w_gap w 12) (set (w_paused w)). \<forall>p. p_state p = statePaused \<longrightarrow> p_state (f p) = statePaused)"

lemma paused_loop_stays:
  "\<forall>f \<in> set fs. \<forall>p. p_state p = statePaused \<longrightarrow> p_state (f p) = statePaused \<Longrightarrow> p_state p = statePaused \<Longrightarrow>
   paused_loop fs p = Some (stop, q) \<Longrightarrow> stop \<and> p_ctxCancelled q"
  by (induction fs arbitrary: p) (auto split: if_splits)

lemma paused_pass:
  assumes "stays_paused w" "p_state p = statePaused"
  shows "case worker_iteration w p of None \<Rightarrow> True | Some (r, q) \<Rightarrow> r = WStop \<and> p_ctxCancelled q"
  using paused_loop_stays [of "w_paused w" "w_gap w 12 p"] assms
  by (auto simp: stays_paused_def worker_iteration_def split: option.split)

lemma paused_loop_past: "p_state p \<noteq> statePaused \<Longrightarrow> paused_loop fs p = Some (False, p)"
  by (cases fs) simp_all

lemma pop_basic_empty: "FIFO_Len (p_basicq p) = 0 \<Longrightarrow> pop_basic p = (None, p)"
  by (simp add: pop_basic_def FIFO_TryPop_def FIFO_Len_def)

lemma late_pass:
  assumes "p_state r \<noteq> stateTerminated" "p_state (w_gap w 12 r) \<noteq> statePaused" "w_gap w 0 (w_gap w 12 r) = p"
    and "FIFO_Len (p_basicq p) = 0" "pop_fast (w_gap w 1 p) = (Some (Some x), q)"
  shows "worker_iteration w r = Some (WJob x, q)"
  using assms by (simp add: worker_iteration_def paused_loop_past worker_take_def pop_basic_empty fast_work_def)

lemma Pause_result:
  "Pause e fs p = (er, p') \<Longrightarrow>
   (case er of None \<Rightarrow> p_state p' = statePaused | Some x \<Rightarrow> x = ErrClosed \<and> p_state p' \<notin> {stateRunning, statePaused})"
proof (induction e fs p rule: Pause.induct)
  case (1 e p)
  then show ?case by (auto split: if_splits)
next
  case (2 e f fs p)
  define q where "q = f (emit e (mk_event EventPoolPausing) p)"
  show ?case
  proof (cases "p_state p = stateRunning \<and> p_state q \<noteq> stateRunning")
    case True
    with 2 show ?thesis by (simp add: Let_def flip: q_def)
  next
    case False
    with 2(2) show ?thesis by (auto simp: Let_def q_def [symmetric] split: if_splits)
  qed
qed


text \<open>A worker of a running pool tests the state; then the application pauses the pool and submits a job.\<close>

definition ex_overtaken :: waits where
  "ex_overtaken = ex_waits\<lparr>w_gap := (\<lambda>i p. if i = 0 then snd (Pause ex_env [] p)
     else if i = 1 then (case submit ex_env [] [] (Some (UserJob 1)) None [] p of None \<Rightarrow> p | Some (_, q) \<Rightarrow> q) else p)\<rparr>"


subsection \<open>Shutdown\<close>

text \<open>C31. A graceful shutdown drops jobs it has accepted: \<open>Shutdown\<close> closes the priority queue, and a
  worker that then takes a job of a paused queue from the other queues puts it off into the closed one,
  cannot, and turns it into a dead letter with \<open>ErrQueueFull\<close>; its \<open>Run\<close> is never called.\<close>

theorem shutdown_kills_paused:
  assumes "halted (p_state p)" "pq_closed (p_q p)" "isQueuedPaused x p"
    and "qj_ctx (p_heap p x) = Some c" "ctx_Err p c = None"
  shows "\<exists>p'. execute_begin e (r # rs) x p = Some (False, p') \<and> p_dlq p' = p_dlq p @ [x] \<and>
    k_started (p_c p') = k_started (p_c p) \<and> k_dlq (p_c p') = k_dlq (p_c p) + 1 \<and>
    qj_state (p_heap p' x) = JobDeadLettered"
proof -
  define q0 where "q0 = emitJob e EventJobDequeued x (qj_attempt (p_heap p x)) None '''' p"
  define q where "q = upd_job x (\<lambda>q. q\<lparr>qj_state := JobQueued\<rparr>) (upd_job x (\<lambda>q. q\<lparr>qj_runAt := e_now e 14 + 50 * Millisecond\<rparr>) q0)"
  have q: "p_state q = p_state p" "p_q q = p_q p" "p_dlq q = p_dlq p" "p_c q = p_c p" by (simp_all add: q_def q0_def)
  have q0: "qj_ctx (p_heap q0 x) = Some c" "ctx_Err q0 c = None" "isQueuedPaused x q0"
    using assms(3-5) by (auto simp: q0_def isQueuedPaused_def ctx_Err_def split: gctx.splits if_splits)
  have "try_q (job_item x q) q = (False, q)" using assms(2) q by (simp add: try_q_def PQ_Push_def)
  then have "spin_push (try_q (job_item x q)) d (r # rs) q = Some (False, q)" for d
    using assms(1) q by (cases r) (simp add: halted_def del: State_less_simps)
  then have "requeue_or_dead e (r # rs) x q = Some (deadletter e x (Some ErrQueueFull) q)"
    by (simp add: requeue_or_dead_def requeue_def pushBlock_def Let_def del: spin_push.simps)
  moreover have "execute_begin e (r # rs) x p = map_option (Pair False) (requeue_or_dead e (r # rs) x q)"
    by (simp add: execute_begin_def Let_def q0_def [symmetric] q0 q_def)
  ultimately show ?thesis using q by (simp add: deadletter_def Let_def)
qed

definition ex_stopping :: pool where
  "ex_stopping = (snd (shutdown_begin ex_env stateRunning ex_pool))\<lparr>p_inflight := [0], p_next := 1, p_pausedQueues := (\<lambda>q. q = ''mail''),
     p_heap := (\<lambda>_. zero_job\<lparr>qj_opts := no_options\<lparr>o_Queue := ''mail''\<rparr>, qj_ctx := Some PoolCtx\<rparr>)\<rparr>"

theorem shutdown_kills_paused_witness:
  "\<exists>p'. execute_begin ex_env [(0, \<lambda>p. p)] 0 ex_stopping = Some (False, p') \<and> p_dlq p' = [0] \<and> p_state ex_stopping = stateStopping"
proof -
  have "halted (p_state ex_stopping) \<and> p_state ex_stopping = stateStopping" "pq_closed (p_q ex_stopping)" "isQueuedPaused 0 ex_stopping"
    "qj_ctx (p_heap ex_stopping 0) = Some PoolCtx" "ctx_Err ex_stopping PoolCtx = None" "p_dlq ex_stopping = []"
    by code_simp+
  with shutdown_kills_paused [of ex_stopping 0 PoolCtx ex_env "(0, \<lambda>p. p)" "[]"] show ?thesis by auto
qed

text \<open>Two concurrent calls of \<open>Shutdown\<close> crash the process: both read a state below stopping before
  either stores the new one, and the second to get there closes the channel \<open>scaleStop\<close> again.  A call
  that reads the state afterwards is safe.\<close>

theorem concurrent_shutdown_panics:
  assumes "s < stateStopping" "s' < stateStopping" "shutdown_begin e s p = (ShutWaits, p1)" "p_scaleStop p2 = p_scaleStop p1"
  shows "fst (shutdown_begin e' s' p2) = ShutPanics \<and> fst (shutdown_begin e' (p_state p1) p2) = ShutWaits"
proof -
  have p1: "shutdown_stop e p = Some p1" using assms(1,3) by (auto simp: shutdown_begin_def split: option.splits if_splits)
  then have ss: "p_scaleStop p1" "p_state p1 = stateStopping"
    by (auto simp: shutdown_stop_def Let_def close_fifos_def split: if_splits)
  then have "shutdown_stop e' p2 = None" using assms(4) by (simp add: shutdown_stop_def)
  with assms(2) ss show ?thesis by (auto simp: shutdown_begin_def)
qed

theorem concurrent_shutdown_panics_witness:
  "fst (shutdown_begin ex_env stateRunning (snd (shutdown_begin ex_env stateRunning ex_pool))) = ShutPanics"
proof -
  have "fst (shutdown_begin ex_env stateRunning ex_pool) = ShutWaits" by code_simp
  then obtain p1 where p1: "shutdown_begin ex_env stateRunning ex_pool = (ShutWaits, p1)" by (metis prod.collapse)
  from concurrent_shutdown_panics [OF _ _ p1 refl, of stateRunning ex_env] p1 show ?thesis by simp
qed

lemma enqueue_closed:
  assumes "fq_closed (p_fastq p)" "pq_closed (p_q p)" "halted (p_state p)" "rs \<noteq> []"
  shows "enqueue_job e rs x opt now runAt p = Some (False, p)"
proof -
  obtain t g rs' where rs: "rs = (t, g) # rs'" using assms(4) by (cases rs) auto
  have q: "try_q it p = (False, p)" "drop_q it p = (False, p)" for it
    using assms(2) by (auto simp: try_q_def drop_q_def PQ_Push_def PQ_DropOldestPush_def split: prod.splits)
  have f: "try_fast x p = (False, p)" "\<not> fifo_waits (p_fastq p)"
    using assms(1) by (auto simp: try_fast_def FIFO_TryPush_def fifo_waits_def split: prod.splits)
  have s: "spin_push push d rs p = Some (False, p)" if "push p = (False, p)" for push d
    using that assms(3) by (simp add: rs halted_def)
  have "pushFast e rs x p = Some (False, p)"
    using f by (simp add: pushFast_def s) (simp add: rs)
  moreover have "pushBlock e rs it p = Some (False, p)" for it
    by (simp add: pushBlock_def Let_def s q)
  ultimately show ?thesis by (cases "c_Backpressure (p_cfg p)") (simp_all add: enqueue_job_def Let_def q)
qed

text \<open>A job whose push failed goes to the overflow list, if there is one with room.\<close>

lemma refused_spills:
  assumes fail: "\<And>x p2. p_q p2 = p_q p \<Longrightarrow> p_fastq p2 = p_fastq p \<Longrightarrow> p_state p2 = p_state p \<Longrightarrow> p_cfg p2 = p_cfg p \<Longrightarrow>
      enqueue_job e rs x opt (e_now e 2) (submit_runAt opt (e_now e 2)) p2 = Some (False, p2)"
    and room: "p_spillPath p \<noteq> ''''" "p_spillMax p \<le> 0 \<or> int (length (p_spill p)) < p_spillMax p"
  shows "\<exists>x p'. submit_queued e rs j f opt p = Some ((Some x, None), p') \<and> p_spill p' = p_spill p @ [x] \<and>
    p_state p' = p_state p \<and> p_workers p' = p_workers p \<and> k_accepted (p_c p') = k_accepted (p_c p) + 1 \<and>
    p_q p' = p_q p \<and> p_basicq p' = p_basicq p \<and> p_fastq p' = p_fastq p \<and>
    qj_runAt (p_heap p' x) = submit_runAt opt (e_now e 2) \<and> qj_future (p_heap p' x) = f \<and>
    (\<forall>u. fu_done (p_futures p' u) = fu_done (p_futures p u))"
proof -
  define rest :: "pool \<Rightarrow> _" where "rest = (\<lambda>p. (p_fastq p, p_basicq p, p_q p, p_state p, p_cfg p, p_spill p, p_spillPath p, p_spillMax p, p_workers p, p_c p))"
  obtain x p1 where n: "new_job e j f opt (e_now e 2) (submit_runAt opt (e_now e 2)) p = (x, p1)" by fastforce
  define p2 where "p2 = announce_job e x opt p1"
  have "rest p1 = rest p \<and> qj_runAt (p_heap p1 x) = submit_runAt opt (e_now e 2) \<and> qj_future (p_heap p1 x) = f \<and>
      (\<forall>u. fu_done (p_futures p1 u) = fu_done (p_futures p u))"
    using n by (auto simp: rest_def new_job_def get_job_def upd_job_def Let_def split: option.splits if_splits prod.splits)
  then have p1: "rest p1 = rest p" and h1: "qj_runAt (p_heap p1 x) = submit_runAt opt (e_now e 2)" "qj_future (p_heap p1 x) = f"
    "\<And>u. fu_done (p_futures p1 u) = fu_done (p_futures p u)" by simp_all
  have "rest p2 = rest p1" by (simp add: p2_def announce_job_def Let_def rest_def)
  with p1 have r2: "rest p2 = rest p" by simp
  then have p2: "p_fastq p2 = p_fastq p" "p_q p2 = p_q p" "p_state p2 = p_state p" "p_cfg p2 = p_cfg p" "p_spill p2 = p_spill p"
    "p_spillPath p2 = p_spillPath p" "p_spillMax p2 = p_spillMax p" "p_workers p2 = p_workers p" "p_c p2 = p_c p" "p_basicq p2 = p_basicq p"
    by (simp_all add: rest_def)
  have h2: "p_heap p2 = p_heap p1" "p_futures p2 = p_futures p1" by (simp_all add: p2_def announce_job_def Let_def)
  have "submit_queued e rs j f opt p = Some (submit_end e x f opt False p2)"
    using fail [OF p2(2,1,3,4), of x] by (simp add: submit_queued_def Let_def n p2_def)
  moreover have "\<exists>q. trySpill e x p2 = (True, q) \<and> p_spill q = p_spill p @ [x] \<and> p_state q = p_state p \<and> p_workers q = p_workers p \<and>
      p_c q = p_c p \<and> p_q q = p_q p \<and> p_basicq q = p_basicq p \<and> p_fastq q = p_fastq p \<and> p_heap q = p_heap p2 \<and> p_futures q = p_futures p2"
    using room p2 by (auto simp: trySpill_def Let_def signalQueueWake_def leave_def)
  ultimately show ?thesis using h1 h2 by (auto simp: submit_end_def Let_def bump_def)
qed

text \<open>C39. With an overflow list a pool whose workers are gone still accepts jobs, and nobody is left to run
  them: a call of \<open>submit\<close> that read the state before \<open>Shutdown\<close> or \<open>Terminate\<close> changed it finds the
  queues closed, takes that for a full queue, spills the job and returns nil; the counter of accepted
  jobs goes up, the job's future stays undecided, and neither \<open>autoscale\<close>, nor \<open>Start\<close>, nor \<open>Resize\<close>
  brings a worker back to look at the list.\<close>

theorem stopped_pool_accepts:
  assumes "fq_closed (p_fastq p)" "pq_closed (p_q p)" "halted (p_state p)" "p_workers p = 0" "rs \<noteq> []"
    and "p_spillPath p \<noteq> ''''" "p_spillMax p \<le> 0 \<or> int (length (p_spill p)) < p_spillMax p"
  shows "\<exists>x p'. submit_queued e rs j f opt p = Some ((Some x, None), p') \<and> p_spill p' = p_spill p @ [x] \<and>
    qj_future (p_heap p' x) = f \<and> (\<forall>u. fu_done (p_futures p' u) = fu_done (p_futures p u)) \<and>
    k_accepted (p_c p') = k_accepted (p_c p) + 1 \<and> p_state p' = p_state p \<and>
    p_workers p' = 0 \<and> autoscale_tick p' = p' \<and> (\<forall>e' n. p_workers (Start e' p') = 0 \<and> p_workers (Resize n p') = 0)"
proof -
  have fail: "enqueue_job e rs x opt (e_now e 2) (submit_runAt opt (e_now e 2)) p2 = Some (False, p2)"
    if "p_q p2 = p_q p" "p_fastq p2 = p_fastq p" "p_state p2 = p_state p" for x p2
    by (rule enqueue_closed) (use assms that in simp_all)
  have idle: "autoscale_tick q = q \<and> p_workers (Start e' q) = 0 \<and> p_workers (Resize n q) = 0" if "p_state q = p_state p" "p_workers q = 0" for q e' n
    using that assms(3) by (auto simp: autoscale_tick_def Start_def Resize_def upd_cfg_def Let_def)
  obtain x p' where "submit_queued e rs j f opt p = Some ((Some x, None), p')" "p_spill p' = p_spill p @ [x]"
    "p_state p' = p_state p" "p_workers p' = p_workers p" "k_accepted (p_c p') = k_accepted (p_c p) + 1"
    "qj_future (p_heap p' x) = f" "\<forall>u. fu_done (p_futures p' u) = fu_done (p_futures p u)"
    using refused_spills [OF fail assms(6,7), of j f] by blast
  with idle [of p'] assms(4) show ?thesis by (intro exI [of _ x] exI [of _ p']) simp
qed

definition ex_late :: pool where
  "ex_late = shutdown_end ex_env ((snd (shutdown_begin ex_env stateRunning (ex_pool\<lparr>p_spillPath := ''/tmp''\<rparr>)))\<lparr>p_workers := 0\<rparr>)"

theorem stopped_pool_accepts_witness:
  "p_state ex_late = stateStopped \<and>
   (\<exists>x p'. submit_queued ex_env [(0, \<lambda>p. p)] (UserJob 1) None no_options ex_late = Some ((Some x, None), p') \<and> p_spill p' = [x] \<and>
      p_state p' = stateStopped \<and> p_workers p' = 0)"
proof -
  have "fq_closed (p_fastq ex_late)" "pq_closed (p_q ex_late)" "p_state ex_late = stateStopped" "p_workers ex_late = 0"
    "p_spillPath ex_late \<noteq> ''''" "p_spillMax ex_late \<le> 0" "p_spill ex_late = []"
    by code_simp+
  with stopped_pool_accepts [of ex_late "[(0, \<lambda>p. p)]" ex_env "UserJob 1" None no_options] show ?thesis by auto
qed

text \<open>C40. The overflow list forgets delays: a job with a delay that finds the priority queue full and is
  spilled is taken by the next worker that finds the basic and the fast queue empty, however early;
  neither the list nor \<open>execute\<close> looks at its run time.  (A job in the priority queue is taken only when
  it is due, \<open>worker_takes_next\<close>.)\<close>

theorem spilled_runs_early:
  assumes "o_Delay opt > 0" "c_Backpressure (p_cfg p) = BackpressureReject \<or> c_Backpressure (p_cfg p) = BackpressureDropNewest"
    and "pq_cap (p_q p) > 0" "int (length (pq_items (p_q p))) \<ge> pq_cap (p_q p)"
    and "p_spillPath p \<noteq> ''''" "p_spill p = []"
    and "p_state p = stateRunning" "FIFO_Len (p_basicq p) = 0" "FIFO_Len (p_fastq p) = 0"
  shows "\<exists>x p'. submit_queued e rs j f opt p = Some ((Some x, None), p') \<and> qj_runAt (p_heap p' x) \<ge> e_now e 2 + o_Delay opt \<and>
    (\<forall>now. \<exists>q. worker_poll now p' = (WJob x, q))"
proof -
  have fail: "enqueue_job e rs x opt (e_now e 2) (submit_runAt opt (e_now e 2)) p2 = Some (False, p2)"
    if "p_q p2 = p_q p" "p_fastq p2 = p_fastq p" "p_state p2 = p_state p" "p_cfg p2 = p_cfg p" for x p2
  proof -
    have "try_q it p2 = (False, p2)" for it
      using assms(3,4) that by (auto simp: try_q_def PQ_Push_def split: prod.splits)
    then show ?thesis using assms(1,2) that by (auto simp: enqueue_job_def useFastQueue_def Let_def)
  qed
  have room: "p_spillMax p \<le> 0 \<or> int (length (p_spill p)) < p_spillMax p" using assms(6) by auto
  obtain x p' where r: "submit_queued e rs j f opt p = Some ((Some x, None), p')" "p_spill p' = p_spill p @ [x]" "p_state p' = p_state p"
    "p_basicq p' = p_basicq p" "p_fastq p' = p_fastq p" "qj_runAt (p_heap p' x) = submit_runAt opt (e_now e 2)"
    using refused_spills [OF fail assms(5) room, of j f] by blast
  then have x: "p_spill p' = [x]" "p_state p' = stateRunning" using assms(6,7) by simp_all
  have "e_now e 2 + o_Delay opt \<le> submit_runAt opt (e_now e 2)" using assms(1) by (simp add: submit_runAt_def Let_def)
  moreover have "pop_basic p' = (None, p')" "pop_fast p' = (None, p')"
    using assms(8,9) r by (simp_all add: pop_basic_def pop_fast_def FIFO_TryPop_def FIFO_Len_def)
  ultimately have "worker_poll now p' = (WJob x, p'\<lparr>p_spill := [], p_inflight := x # p_inflight p'\<rparr>)" for now
    using x by (simp add: worker_poll_def popSpill_def)
  with r \<open>e_now e 2 + o_Delay opt \<le> submit_runAt opt (e_now e 2)\<close> show ?thesis by (intro exI [of _ x] exI [of _ p']) simp
qed

definition ex_full :: pool where
  "ex_full = ex_pool\<lparr>p_spillPath := ''/tmp'', p_cfg := (p_cfg ex_pool)\<lparr>c_Backpressure := BackpressureReject\<rparr>,
     p_q := snd (PQ_Push \<lparr>it_Value = 7, it_Priority = 0, it_Seq = 1, it_RunAt = 10 ^ 9\<rparr> (NewPriorityQueue 1))\<rparr>"

theorem spilled_runs_early_witness:
  "\<exists>x p' q. submit_queued ex_env [] (UserJob 1) None (no_options\<lparr>o_Delay := 60 * Second\<rparr>) ex_full = Some ((Some x, None), p') \<and>
     qj_runAt (p_heap p' x) \<ge> 60 * Second \<and> worker_poll 0 p' = (WJob x, q)"
proof -
  have "c_Backpressure (p_cfg ex_full) = BackpressureReject" "pq_cap (p_q ex_full) > 0" "int (length (pq_items (p_q ex_full))) \<ge> pq_cap (p_q ex_full)"
    "p_spillPath ex_full \<noteq> ''''" "p_spill ex_full = []" "p_state ex_full = stateRunning"
    "FIFO_Len (p_basicq ex_full) = 0" "FIFO_Len (p_fastq ex_full) = 0"
    by code_simp+
  with spilled_runs_early [of "no_options\<lparr>o_Delay := 60 * Second\<rparr>" ex_full ex_env "[]" "UserJob 1" None] show ?thesis
    by (fastforce simp: ex_env_def)
qed

subsection \<open>The number of workers\<close>

text \<open>A lull: the others may do what does not touch the queues, the state and the number of workers.\<close>

definition idle_view :: "pool \<Rightarrow> State \<times> int \<times> config \<times> job option fifo \<times> nat option fifo \<times> nat list \<times> nat pqueue" where
  "idle_view p = (p_state p, p_workers p, p_cfg p, p_basicq p, p_fastq p, p_spill p, p_q p)"

definition lull :: "waits \<Rightarrow> bool" where
  "lull w \<longleftrightarrow> (\<forall>i p. idle_view (w_gap w i p) = idle_view p) \<and>
     (\<forall>(t, f) \<in> set (w_q1 w) \<union> set (w_basic w) \<union> set (w_fast w) \<union> set (w_q2 w). \<forall>p. idle_view (f p) = idle_view p)"

definition queues_empty_now :: "pool \<Rightarrow> bool" where
  "queues_empty_now p \<longleftrightarrow> FIFO_Len (p_basicq p) = 0 \<and> FIFO_Len (p_fastq p) = 0 \<and> p_spill p = [] \<and> PQ_Len (p_q p) = 0"

lemma view_parts:
  assumes "idle_view q = idle_view p"
  shows "queues_empty_now q = queues_empty_now p" "worker_surplus q = worker_surplus p" "p_state q = p_state p"
    "p_workers q = p_workers p" "p_cfg q = p_cfg p" "p_q q = p_q p"
  using assms by (simp_all add: idle_view_def queues_empty_now_def worker_surplus_def)

lemma empty_pops:
  assumes "queues_empty_now p"
  shows "pop_basic p = (None, p)" "pop_fast p = (None, p)" "popSpill p = (None, p)" "pop_q t p = (None, p)"
  using assms
  by (simp_all add: queues_empty_now_def pop_basic_empty pop_fast_def popSpill_def pop_q_def FIFO_TryPop_def FIFO_Len_def
      PQ_TryPop_def PQ_Len_def)

lemma lull_gap: "lull w \<Longrightarrow> idle_view (w_gap w i p) = idle_view p"
  by (simp add: lull_def)

lemma lull_wait:
  assumes "\<And>t q. idle_view q = idle_view p \<Longrightarrow> pop t q = (None, q)" "\<forall>(t, f) \<in> set rs. \<forall>p. idle_view (f p) = idle_view p"
  shows "idle_view q = idle_view p \<Longrightarrow> \<exists>q'. wait_pop pop rs q = (None, q') \<and> idle_view q' = idle_view p"
  using assms(2) by (induction rs arbitrary: q) (auto simp: assms(1))

text \<open>A worker in excess that finds nothing returns.\<close>

lemma surplus_pass:
  assumes w: "lull w" and p: "queues_empty_now p" "worker_surplus p" "p_state p = stateRunning"
  shows "\<exists>p'. worker_iteration w p = Some (WStop, p') \<and> idle_view p' = idle_view p"
proof -
  have g: "idle_view (w_gap w i q) = idle_view p" if "idle_view q = idle_view p" for i q using lull_gap [OF w] that by simp
  have pops: "pop_basic q = (None, q)" "pop_fast q = (None, q)" "popSpill q = (None, q)" "pop_q t q = (None, q)"
    if "idle_view q = idle_view p" for q t
    using empty_pops [of q] view_parts(1) [OF that] p(1) by simp_all
  have waits: "\<exists>q'. wait_pop (\<lambda>_. pop_basic) (w_basic w) q = (None, q') \<and> idle_view q' = idle_view p"
    "\<exists>q'. wait_pop (\<lambda>_. pop_fast) (w_fast w) q = (None, q') \<and> idle_view q' = idle_view p" if "idle_view q = idle_view p" for q
    by (rule lull_wait [OF _ _ that]; use w in \<open>auto simp: lull_def pops\<close>)+
  have idle: "\<exists>q'. worker_idle w q = (WStop, q') \<and> idle_view q' = idle_view p" if q: "idle_view q = idle_view p" for q
  proof -
    obtain q1 where q1: "wait_pop (\<lambda>_. pop_basic) (w_basic w) q = (None, q1)" "idle_view q1 = idle_view p" using waits(1) [OF q] by blast
    obtain q2 where q2: "wait_pop (\<lambda>_. pop_fast) (w_fast w) (w_gap w 7 q1) = (None, q2)" "idle_view q2 = idle_view p"
      using waits(2) [OF g [OF q1(2)]] by blast
    have "c_MinWorkers (p_cfg (w_gap w 8 q2)) < p_workers (w_gap w 8 q2)"
      using view_parts(4,5) [OF g [OF q2(2)]] p(2) by (simp add: worker_surplus_def)
    with q1(1) q2 g [OF q2(2)] show ?thesis by (simp add: worker_idle_def Let_def)
  qed
  have "PQ_Len (p_q q) = 0" "\<not> worker_drained q" "worker_surplus q" if "idle_view q = idle_view p" for q
    using view_parts [OF that] p by (simp_all add: queues_empty_now_def worker_drained_def)
  then have "\<exists>q'. worker_wait w q = (WStop, q') \<and> idle_view q' = idle_view p" if "idle_view q = idle_view p" for q
    using that g idle by (simp add: worker_wait_def Let_def)
  then have "\<exists>q'. worker_take w q = (WStop, q') \<and> idle_view q' = idle_view p" if "idle_view q = idle_view p" for q
    using that g by (simp add: worker_take_def pops)
  moreover have "paused_loop (w_paused w) (w_gap w 12 p) = Some (False, w_gap w 12 p)"
    using view_parts(3) [OF g [OF refl]] p(3) by (intro paused_loop_past) simp
  ultimately show ?thesis using p(3) g by (simp add: worker_iteration_def)
qed

text \<open>C32. The pool can lose all its workers while it runs.  Two workers each make a pass of the loop in a
  lull of a pool that has one worker more than the minimum: both find it so and return, since a worker
  gives up its place only in a deferred call.  One fewer than the minimum is left, none when the
  minimum is one.  \<open>autoscale\<close>, which compares the priority queue alone with the number of workers,
  then starts no new one however many jobs wait in the fast queue, the basic queue or the spill list.\<close>

theorem idle_workers_all_leave:
  assumes "p_state p = stateRunning" "worker_surplus p" "p_workers p = c_MinWorkers (p_cfg p) + 1" "queues_empty_now p"
    and "lull w1" "lull w2"
  shows "\<exists>p1 p2. worker_iteration w1 p = Some (WStop, p1) \<and> worker_iteration w2 p1 = Some (WStop, p2) \<and>
    (let p' = worker_exit e2 i2 (worker_exit e1 i1 p2)
     in p_state p' = stateRunning \<and> p_cfg p' = p_cfg p \<and> p_workers p' = c_MinWorkers (p_cfg p) - 1 \<and>
       (\<forall>q n. p_workers q = p_workers p' \<and> PQ_Len (p_q q) \<le> p_workers q \<longrightarrow> (autoscale_tick ^^ n) q = q))"
proof -
  obtain p1 where p1: "worker_iteration w1 p = Some (WStop, p1)" "idle_view p1 = idle_view p"
    using surplus_pass [OF assms(5,4,2,1)] by blast
  obtain p2 where p2: "worker_iteration w2 p1 = Some (WStop, p2)" "idle_view p2 = idle_view p1"
    using surplus_pass [OF assms(6), of p1] view_parts [OF p1(2)] assms(1,2,4) by auto
  have "(autoscale_tick ^^ n) q = q" if "PQ_Len (p_q q) \<le> p_workers q" for q n
  proof -
    have "autoscale_tick q = q" using that by (simp add: autoscale_tick_def Let_def)
    then show ?thesis by (induction n) simp_all
  qed
  with p1 p2 view_parts [OF trans [OF p2(2) p1(2)]] assms(1,3) show ?thesis
    by (intro exI [of _ p1] exI [of _ p2]) (simp add: worker_exit_def Let_def)
qed

definition ex_idle :: pool where
  "ex_idle = ex_pool\<lparr>p_workers := 2\<rparr>"

theorem idle_workers_all_leave_witness:
  "\<exists>p1 p2. worker_iteration ex_waits ex_idle = Some (WStop, p1) \<and> worker_iteration ex_waits p1 = Some (WStop, p2) \<and>
     p_workers (worker_exit ex_env 2 (worker_exit ex_env 1 p2)) = 0"
proof -
  have "p_state ex_idle = stateRunning" "worker_surplus ex_idle" "p_workers ex_idle = c_MinWorkers (p_cfg ex_idle) + 1"
    "queues_empty_now ex_idle" "c_MinWorkers (p_cfg ex_idle) = 1"
    by code_simp+
  moreover have "lull ex_waits" by (simp add: lull_def ex_waits_def)
  ultimately show ?thesis
    using idle_workers_all_leave [of ex_idle ex_waits ex_waits ex_env 2 ex_env 1] by (auto simp: Let_def)
qed

end
