(* ===== verification/Go_Strings.thy ===== *)
theory Go_Strings
  imports Go_Float
begin

text \<open>
  What the code uses of the packages \<open>strings\<close> and \<open>strconv\<close> and of \<open>time.ParseDuration\<close>.
  A Go string is the list of its runes, here of those below 256: a \<open>char\<close> is a rune, so
  \<open>unicode.IsSpace\<close> and \<open>unicode.ToLower\<close> are those of Latin-1, and a rune that UTF-8 writes
  in two bytes is one element, as it is for \<open>range\<close>.
\<close>

definition rune :: "char \<Rightarrow> int" where
  "rune c = of_char c"

definition IsSpace :: "char \<Rightarrow> bool" where
  "IsSpace c \<longleftrightarrow> (9 \<le> rune c \<and> rune c \<le> 13) \<or> rune c = 32 \<or> rune c = 0x85 \<or> rune c = 0xA0"

definition is_digit :: "char \<Rightarrow> bool" where
  "is_digit c \<longleftrightarrow> 48 \<le> rune c \<and> rune c \<le> 57"

definition digit_val :: "char \<Rightarrow> int" where
  "digit_val c = rune c - 48"

definition ToLower :: "string \<Rightarrow> string" where
  "ToLower s = List.map (\<lambda>c. if (65 \<le> rune c \<and> rune c \<le> 90) \<or> (0xC0 \<le> rune c \<and> rune c \<le> 0xDE \<and> rune c \<noteq> 0xD7)
     then char_of (nat (rune c + 32)) else c) s"

subsection \<open>Prefixes, separators, white space\<close>

definition trim_by :: "(char \<Rightarrow> bool) \<Rightarrow> string \<Rightarrow> string" where
  "trim_by P s = rev (dropWhile P (rev (dropWhile P s)))"

definition TrimSpace :: "string \<Rightarrow> string" where
  "TrimSpace s = trim_by IsSpace s"

definition HasPrefix :: "string \<Rightarrow> string \<Rightarrow> bool" where
  "HasPrefix s pre \<longleftrightarrow> take (length pre) s = pre"

definition TrimPrefix :: "string \<Rightarrow> string \<Rightarrow> string" where
  "TrimPrefix s pre = (if HasPrefix s pre then drop (length pre) s else s)"

definition HasSuffix :: "string \<Rightarrow> string \<Rightarrow> bool" where
  "HasSuffix s suf \<longleftrightarrow> HasPrefix (rev s) (rev suf)"

definition TrimSuffix :: "string \<Rightarrow> string \<Rightarrow> string" where
  "TrimSuffix s suf = (if HasSuffix s suf then take (length s - length suf) s else s)"

text \<open>\<open>strings.Split\<close> and \<open>strings.SplitN\<close> with limit 2, for a separator of one rune.\<close>

fun Split :: "char \<Rightarrow> string \<Rightarrow> string list" where
  "Split sep [] = [[]]"
| "Split sep (c # s) =
     (if c = sep then [] # Split sep s
      else case Split sep s of [] \<Rightarrow> [[c]] | w # ws \<Rightarrow> (c # w) # ws)"

definition SplitN2 :: "char \<Rightarrow> string \<Rightarrow> string list" where
  "SplitN2 sep s =
     (if sep \<in> set s then [takeWhile (\<lambda>c. c \<noteq> sep) s, tl (dropWhile (\<lambda>c. c \<noteq> sep) s)] else [s])"

function Fields :: "string \<Rightarrow> string list" where
  "Fields s =
     (let t = dropWhile IsSpace s
      in if t = [] then [] else takeWhile (\<lambda>c. \<not> IsSpace c) t # Fields (dropWhile (\<lambda>c. \<not> IsSpace c) t))"
  by pat_completeness auto

lemma length_dropWhile_less: "xs \<noteq> [] \<Longrightarrow> P (hd xs) \<Longrightarrow> length (dropWhile P xs) < length xs"
  by (cases xs) (auto simp: less_Suc_eq_le length_dropWhile_le)

termination Fields
proof (relation "measure length", simp, goal_cases)
  case (1 s t)
  then have "\<not> IsSpace (hd t)" using hd_dropWhile [of IsSpace s] by simp
  then have "length (dropWhile (\<lambda>c. \<not> IsSpace c) t) < length t"
    using 1 by (intro length_dropWhile_less) auto
  also have "\<dots> \<le> length s" using 1 by (simp add: length_dropWhile_le)
  finally show ?case by simp
qed

declare Fields.simps [simp del]

subsection \<open>Numbers\<close>

datatype num_err = NumSyntax | NumRange

text \<open>\<open>strconv.ParseUint\<close> with base 10 and 64 bits; the first failing rune decides.\<close>

fun ParseUint_loop :: "int \<Rightarrow> string \<Rightarrow> int \<times> num_err option" where
  "ParseUint_loop n [] = (n, None)"
| "ParseUint_loop n (c # s) =
     (if \<not> is_digit c then (0, Some NumSyntax)
      else if n \<ge> (2 ^ 64 - 1) div 10 + 1 then (2 ^ 64 - 1, Some NumRange)
      else let n1 = n * 10 + digit_val c
           in if n1 > 2 ^ 64 - 1 then (2 ^ 64 - 1, Some NumRange) else ParseUint_loop n1 s)"

definition ParseUint :: "string \<Rightarrow> int \<times> num_err option" where
  "ParseUint s = (if s = '''' then (0, Some NumSyntax) else ParseUint_loop 0 s)"

text \<open>\<open>strconv.Atoi\<close> on a 64-bit platform: on an error of range it returns the nearest value.\<close>

definition Atoi :: "string \<Rightarrow> int \<times> num_err option" where
  "Atoi s =
     (let neg = (s \<noteq> '''' \<and> hd s = CHR ''-'');
          t = (if s \<noteq> '''' \<and> (hd s = CHR ''-'' \<or> hd s = CHR ''+'') then tl s else s)
      in case ParseUint t of
           (un, er) \<Rightarrow>
             if er = Some NumSyntax then (0, er)
             else if \<not> neg \<and> un \<ge> 2 ^ 63 then (2 ^ 63 - 1, Some NumRange)
             else if neg \<and> un > 2 ^ 63 then (- (2 ^ 63), Some NumRange)
             else ((if neg then - un else un), None))"

subsection \<open>Durations\<close>

text \<open>\<open>time.ParseDuration\<close>: the integer before the point, the fraction with its scale, the unit,
  until the string is used up; the sum is kept in 64 bits, which two terms of \<open>2 ^ 63\<close> leave.\<close>

fun leadingInt :: "int \<Rightarrow> string \<Rightarrow> (int \<times> string) option" where
  "leadingInt x [] = Some (x, [])"
| "leadingInt x (c # s) =
     (if \<not> is_digit c then Some (x, c # s)
      else if x > 2 ^ 63 div 10 then None
      else let x = x * 10 + digit_val c in if x > 2 ^ 63 then None else leadingInt x s)"

fun leadingFraction :: "int \<Rightarrow> f64 \<Rightarrow> bool \<Rightarrow> string \<Rightarrow> int \<times> f64 \<times> string" where
  "leadingFraction x scale overflow [] = (x, scale, [])"
| "leadingFraction x scale overflow (c # s) =
     (if \<not> is_digit c then (x, scale, c # s)
      else if overflow \<or> x > (2 ^ 63 - 1) div 10 \<or> x * 10 + digit_val c > 2 ^ 63
      then leadingFraction x scale True s
      else leadingFraction (x * 10 + digit_val c) (f64_mul scale (Fin 10)) False s)"

definition unitMap :: "string \<Rightarrow> int option" where
  "unitMap u =
     (if u = ''ns'' then Some 1
      else if u = ''us'' \<or> u = [CHR 0xB5, CHR ''s''] then Some 1000
      else if u = ''ms'' then Some Millisecond
      else if u = ''s'' then Some Second
      else if u = ''m'' then Some (60 * Second)
      else if u = ''h'' then Some (3600 * Second)
      else None)"

definition not_unit :: "char \<Rightarrow> bool" where
  "not_unit c \<longleftrightarrow> c = CHR ''.'' \<or> is_digit c"

text \<open>One term of the sum: its value and the rest of the string.\<close>

definition duration_fraction :: "string \<Rightarrow> (int \<times> f64 \<times> string) \<times> bool" where
  "duration_fraction s =
     (if s \<noteq> [] \<and> hd s = CHR ''.''
      then (let r = leadingFraction 0 (Fin 1) False (tl s)
            in (r, length (snd (snd r)) \<noteq> length (tl s)))
      else ((0, Fin 1, s), False))"

definition duration_value :: "int \<Rightarrow> int \<Rightarrow> f64 \<Rightarrow> int \<Rightarrow> int option" where
  "duration_value v f scale unit =
     (if v > 2 ^ 63 div unit then None
      else let v = v * unit
           in if f > 0 then
                (let v = v + (case f64_mul (f64_of_int f) (f64_div (f64_of_int unit) scale) of
                                Fin r \<Rightarrow> rat_trunc r | _ \<Rightarrow> 0)
                 in if v > 2 ^ 63 then None else Some v)
              else Some v)"

definition duration_term :: "string \<Rightarrow> (int \<times> string) option" where
  "duration_term s =
     (if \<not> not_unit (hd s) then None
      else case leadingInt 0 s of
        None \<Rightarrow> None
      | Some (v, s1) \<Rightarrow>
          (case duration_fraction s1 of
             ((f, scale, s2), post) \<Rightarrow>
               if length s1 = length s \<and> \<not> post then None
               else let u = takeWhile (\<lambda>c. \<not> not_unit c) s2; s3 = dropWhile (\<lambda>c. \<not> not_unit c) s2
                    in if u = [] then None
                       else case unitMap u of
                         None \<Rightarrow> None
                       | Some unit \<Rightarrow> map_option (\<lambda>v. (v, s3)) (duration_value v f scale unit)))"

lemma length_leadingInt: "leadingInt x s = Some (v, t) \<Longrightarrow> length t \<le> length s"
  by (induction x s rule: leadingInt.induct) (auto simp: Let_def le_SucI split: if_splits)

lemma length_leadingFraction: "length (snd (snd (leadingFraction x sc b s))) \<le> length s"
  by (induction x sc b s rule: leadingFraction.induct) (auto simp: le_SucI)

lemma length_duration_fraction: "duration_fraction s = ((f, scale, t), post) \<Longrightarrow> length t \<le> length s"
  using length_leadingFraction [of 0 "Fin 1" False "tl s"]
  by (cases s) (auto simp: duration_fraction_def Let_def split: if_splits)

lemma length_dropWhile_takeWhile: "takeWhile P xs \<noteq> [] \<Longrightarrow> length (dropWhile P xs) < length xs"
  by (cases xs) (auto simp: less_Suc_eq_le length_dropWhile_le split: if_splits)

lemma duration_term_shrinks:
  assumes "duration_term s = Some (v, t)"
  shows "length t < length s"
proof -
  from assms obtain w s1 where s1: "leadingInt 0 s = Some (w, s1)"
    by (cases "leadingInt 0 s") (auto simp: duration_term_def split: if_splits)
  obtain f scale s2 post where fr: "duration_fraction s1 = ((f, scale, s2), post)"
    by (metis prod.collapse)
  from assms have "takeWhile (\<lambda>c. \<not> not_unit c) s2 \<noteq> []" "t = dropWhile (\<lambda>c. \<not> not_unit c) s2"
    by (simp_all add: duration_term_def s1 fr Let_def del: takeWhile_eq_Nil_iff split: if_splits option.splits)
  then have "length t < length s2" by (metis length_dropWhile_takeWhile)
  with length_duration_fraction [OF fr] length_leadingInt [OF s1] show ?thesis by linarith
qed

function duration_sum :: "int \<Rightarrow> string \<Rightarrow> int option" where
  "duration_sum d s =
     (if s = '''' then Some d
      else case duration_term s of
        None \<Rightarrow> None
      | Some (v, t) \<Rightarrow> (let d = (d + v) mod 2 ^ 64 in if d > 2 ^ 63 then None else duration_sum d t))"
  by pat_completeness auto
termination by (relation "measure (length \<circ> snd)") (auto dest: duration_term_shrinks)

declare duration_sum.simps [simp del]

definition ParseDuration :: "string \<Rightarrow> duration option" where
  "ParseDuration s =
     (let neg = (s \<noteq> '''' \<and> hd s = CHR ''-'');
          t = (if s \<noteq> '''' \<and> (hd s = CHR ''-'' \<or> hd s = CHR ''+'') then tl s else s)
      in if t = ''0'' then Some 0
         else if t = '''' then None
         else case duration_sum 0 t of
           None \<Rightarrow> None
         | Some d \<Rightarrow> if neg then Some (- d) else if d > 2 ^ 63 - 1 then None else Some d)"

subsection \<open>Reading back what was printed\<close>

definition digit_fold :: "int \<Rightarrow> string \<Rightarrow> int" where
  "digit_fold a s = foldl (\<lambda>a c. 10 * a + digit_val c) a s"

lemma digit_fold_simps [simp]:
  "digit_fold a [] = a"
  "digit_fold a (c # s) = digit_fold (10 * a + digit_val c) s"
  "digit_fold a (s @ [c]) = 10 * digit_fold a s + digit_val c"
  by (simp_all add: digit_fold_def)

lemma digit_val_bounds: "is_digit c \<Longrightarrow> 0 \<le> digit_val c \<and> digit_val c \<le> 9"
  by (simp add: is_digit_def digit_val_def)

lemma digit_fold_ge: "list_all is_digit s \<Longrightarrow> 0 \<le> a \<Longrightarrow> a \<le> digit_fold a s"
proof (induction s arbitrary: a)
  case (Cons c s)
  then have "0 \<le> digit_val c" by (simp add: digit_val_bounds)
  with Cons.IH [of "10 * a + digit_val c"] Cons.prems show ?case by simp
qed simp

lemma ParseUint_loop_digits:
  "list_all is_digit s \<Longrightarrow> 0 \<le> a \<Longrightarrow> digit_fold a s \<le> 2 ^ 64 - 1 \<Longrightarrow> ParseUint_loop a s = (digit_fold a s, None)"
proof (induction s arbitrary: a)
  case (Cons c s)
  have c: "0 \<le> digit_val c" using Cons.prems by (simp add: digit_val_bounds)
  have "10 * a + digit_val c \<le> digit_fold (10 * a + digit_val c) s"
    by (rule digit_fold_ge) (use Cons.prems c in simp_all)
  with Cons c show ?case by (simp add: Let_def mult.commute)
qed simp

lemma is_digit_char: "k < 10 \<Longrightarrow> is_digit (char_of (48 + k)) \<and> digit_val (char_of (48 + k)) = int k" for k :: nat
proof -
  assume k: "k < 10"
  then have "(of_char (char_of (48 + k) :: char) :: nat) = 48 + k" by (simp add: of_char_of)
  then have "(of_char (char_of (48 + k) :: char) :: int) = 48 + int k"
    by (metis of_nat_add of_nat_numeral of_nat_of_char)
  with k show ?thesis by (simp add: is_digit_def digit_val_def rune_def)
qed

lemma digits_all: "list_all is_digit (digits n) \<and> digit_fold 0 (digits n) = int n \<and> digits n \<noteq> []"
proof (induction n rule: digits.induct)
  case (1 n)
  show ?case
  proof (cases "n < 10")
    case True
    then show ?thesis by (subst (1 2 3) digits.simps) (simp add: is_digit_char)
  next
    case False
    have "10 * int (n div 10) + int (n mod 10) = int n" by presburger
    with 1 [OF False] False is_digit_char [of "n mod 10"] show ?thesis
      by (subst (1 2 3) digits.simps) simp
  qed
qed

lemma digit_not_sign: "is_digit c \<Longrightarrow> c \<noteq> CHR ''-'' \<and> c \<noteq> CHR ''+''"
  by (auto simp: is_digit_def rune_def)

lemma hd_digits: "is_digit (hd (digits n))"
  using digits_all [of n] by (cases "digits n") auto

lemma Atoi_digits: "n < 2 ^ 63 \<Longrightarrow> Atoi (digits n) = (int n, None)"
proof -
  assume n: "n < 2 ^ 63"
  then have "int n < 2 ^ 63" by (metis of_nat_less_iff of_nat_numeral of_nat_power)
  then have "ParseUint_loop 0 (digits n) = (int n, None)"
    using ParseUint_loop_digits [of "digits n" 0] digits_all [of n] by simp
  with digits_all [of n] digit_not_sign [OF hd_digits] \<open>int n < 2 ^ 63\<close> show ?thesis
    by (simp add: Atoi_def ParseUint_def)
qed

text \<open>An integer that \<open>Atoi\<close> accepts fits 64 bits.\<close>

lemma ParseUint_loop_nonneg: "0 \<le> n \<Longrightarrow> 0 \<le> fst (ParseUint_loop n s)"
  by (induction n s rule: ParseUint_loop.induct) (auto simp: Let_def digit_val_bounds)

lemma Atoi_range: "- (2 ^ 63) \<le> fst (Atoi s) \<and> fst (Atoi s) < 2 ^ 63"
proof -
  have pos: "0 \<le> fst (ParseUint t)" for t by (simp add: ParseUint_def ParseUint_loop_nonneg)
  define t where "t = (if s \<noteq> [] \<and> (hd s = CHR ''-'' \<or> hd s = CHR ''+'') then tl s else s)"
  obtain un er where u: "ParseUint t = (un, er)" by fastforce
  then have "0 \<le> un" using pos [of t] by simp
  then show ?thesis unfolding Atoi_def t_def [symmetric] Let_def u by simp
qed

subsection \<open>Strings without the runes an operation looks for\<close>

lemma dropWhile_hd: "\<not> P (hd s) \<Longrightarrow> dropWhile P s = s"
  by (cases s) simp_all

lemma trim_by_id: "s \<noteq> [] \<Longrightarrow> \<not> P (hd s) \<Longrightarrow> \<not> P (last s) \<Longrightarrow> trim_by P s = s"
  by (simp add: trim_by_def dropWhile_hd hd_rev)

lemma trim_by_prefix: "list_all P pre \<Longrightarrow> trim_by P (pre @ s) = trim_by P s"
  by (simp add: trim_by_def list_all_iff)

lemma Split_none: "sep \<notin> set s \<Longrightarrow> Split sep s = [s]"
  by (induction s) auto

lemma Split_append: "sep \<notin> set s \<Longrightarrow> Split sep (s @ sep # t) = s # Split sep t"
  by (induction s) auto

lemma SplitN2_append: "sep \<notin> set s \<Longrightarrow> SplitN2 sep (s @ sep # t) = [s, t]"
  by (induction s) (auto simp: SplitN2_def)

lemma HasSuffix_single: "HasSuffix s [c] \<longleftrightarrow> s \<noteq> [] \<and> last s = c"
  by (cases s rule: rev_cases) (auto simp: HasSuffix_def HasPrefix_def)

lemma HasPrefix_iff: "HasPrefix s pre \<longleftrightarrow> (\<exists>b. s = pre @ b)"
  unfolding HasPrefix_def by (metis append_eq_conv_conj append_take_drop_id)

lemma HasSuffix_iff: "HasSuffix s suf \<longleftrightarrow> (\<exists>a. s = a @ suf)"
  unfolding HasSuffix_def HasPrefix_iff by (metis rev_append rev_rev_ident)

end
