(* ===== verification/Config_File.thy ===== *)
theory Config_File
  imports Go_Strings Pool_Control
begin

text \<open>
  Configuration files: \<open>FileConfig\<close>, \<open>parseSimpleYAML\<close> and \<open>FromConfigFile\<close> of
  \<open>usability.go\<close>.  The bytes of the file, or the error of reading it, and what
  \<open>json.Unmarshal\<close> makes of them are arguments.
\<close>

record FileConfig =
  fc_Name :: string
  fc_Min :: int
  fc_Max :: int
  fc_Size :: int
  fc_Backpressure :: string
  fc_Tracking :: bool

definition no_file_config :: FileConfig where
  "no_file_config = \<lparr>fc_Name = '''', fc_Min = 0, fc_Max = 0, fc_Size = 0, fc_Backpressure = '''', fc_Tracking = False\<rparr>"

text \<open>The assignment of a key of a section: \<open>switch section + "." + k\<close>.\<close>

definition yaml_set :: "string \<Rightarrow> string \<Rightarrow> FileConfig \<Rightarrow> FileConfig" where
  "yaml_set key v fc =
     (if key = ''.name'' then fc\<lparr>fc_Name := v\<rparr>
      else if key = ''workers.min'' then fc\<lparr>fc_Min := fst (Atoi v)\<rparr>
      else if key = ''workers.max'' then fc\<lparr>fc_Max := fst (Atoi v)\<rparr>
      else if key = ''queue.size'' then fc\<lparr>fc_Size := fst (Atoi v)\<rparr>
      else if key = ''queue.backpressure'' then fc\<lparr>fc_Backpressure := v\<rparr>
      else if key = ''.tracking'' then fc\<lparr>fc_Tracking := (v = ''true'')\<rparr>
      else fc)"

text \<open>One line, with the section it stands in.\<close>

definition yaml_line :: "string \<Rightarrow> string \<times> FileConfig \<Rightarrow> string \<times> FileConfig" where
  "yaml_line raw st =
     (let line = TrimSpace (hd (Split (CHR ''#'') raw))
      in if line = '''' then st
         else if HasSuffix line '':'' then (TrimSuffix line '':'', snd st)
         else let parts = SplitN2 (CHR '':'') line
              in if length parts \<noteq> 2 then st
                 else let k = TrimSpace (parts ! 0);
                          v = trim_by (\<lambda>c. c = CHR 0x22) (TrimSpace (parts ! 1))
                      in (fst st, yaml_set (fst st @ ''.'' @ k) v (snd st)))"

definition parseSimpleYAML :: "string \<Rightarrow> FileConfig" where
  "parseSimpleYAML s = snd (fold yaml_line (Split (CHR 0x0A) s) ('''', no_file_config))"

text \<open>The configuration a file gives, over the defaults.\<close>

definition file_config :: "FileConfig \<Rightarrow> config" where
  "file_config fc =
     (let c = DefaultConfig;
          c = (if fc_Name fc \<noteq> '''' then c\<lparr>c_Name := fc_Name fc\<rparr> else c);
          c = (if fc_Min fc > 0 then c\<lparr>c_MinWorkers := fc_Min fc\<rparr> else c);
          c = (if fc_Max fc > 0 then c\<lparr>c_MaxWorkers := fc_Max fc\<rparr> else c);
          c = (if fc_Size fc > 0 then c\<lparr>c_QueueSize := fc_Size fc\<rparr> else c);
          c = (if fc_Tracking fc then c\<lparr>c_EnableJobTracking := True, c_EnableJobIDs := True\<rparr> else c);
          b = ToLower (fc_Backpressure fc)
      in if b = ''reject'' then c\<lparr>c_Backpressure := BackpressureReject\<rparr>
         else if b = ''drop_oldest'' then c\<lparr>c_Backpressure := BackpressureDropOldest\<rparr>
         else if b = ''drop_newest'' then c\<lparr>c_Backpressure := BackpressureDropNewest\<rparr>
         else c)"

definition FromConfigFile ::
  "env \<Rightarrow> err + string \<Rightarrow> (string \<Rightarrow> err + FileConfig) \<Rightarrow> string \<Rightarrow> pool_option list \<Rightarrow> err + pool" where
  "FromConfigFile e file json path opts =
     (case file of
        Inl er \<Rightarrow> Inl er
      | Inr b \<Rightarrow>
          (case (if HasSuffix path ''.json'' then json b else Inr (parseSimpleYAML b)) of
             Inl er \<Rightarrow> Inl er
           | Inr fc \<Rightarrow> Inr (New e (file_config fc) opts)))"

subsection \<open>Reading a rendered configuration\<close>

text \<open>The layout that is read back: the keys of the top level before the sections.\<close>

definition yaml_of :: "FileConfig \<Rightarrow> string list" where
  "yaml_of fc =
     [''name: '' @ fc_Name fc,
      ''tracking: '' @ (if fc_Tracking fc then ''true'' else ''false''),
      ''workers:'',
      ''  min: '' @ digits (nat (fc_Min fc)),
      ''  max: '' @ digits (nat (fc_Max fc)),
      ''queue:'',
      ''  size: '' @ digits (nat (fc_Size fc)),
      ''  backpressure: '' @ fc_Backpressure fc]"

fun join_lines :: "string list \<Rightarrow> string" where
  "join_lines [] = ''''"
| "join_lines [l] = l"
| "join_lines (l # ls) = l @ CHR 0x0A # join_lines ls"

text \<open>A value that is read back as it is: not empty, on one line, no comment, no white space or quote
  at its ends, no colon at its end.\<close>

definition plain_value :: "string \<Rightarrow> bool" where
  "plain_value v \<longleftrightarrow> v \<noteq> [] \<and> CHR 0x0A \<notin> set v \<and> CHR ''#'' \<notin> set v \<and>
     \<not> IsSpace (hd v) \<and> \<not> IsSpace (last v) \<and> hd v \<noteq> CHR 0x22 \<and> last v \<noteq> CHR 0x22 \<and> last v \<noteq> CHR '':''"

lemma Split_join: "(\<And>l. l \<in> set ls \<Longrightarrow> CHR 0x0A \<notin> set l) \<Longrightarrow> ls \<noteq> [] \<Longrightarrow> Split (CHR 0x0A) (join_lines ls) = ls"
  by (induction ls rule: join_lines.induct) (simp_all add: Split_none Split_append)

lemma yaml_line_key:
  assumes "plain_value v" "list_all IsSpace pre" "CHR ''#'' \<notin> set pre" "k \<noteq> []"
    and "list_all (\<lambda>c. \<not> IsSpace c \<and> c \<noteq> CHR '':'' \<and> c \<noteq> CHR ''#'') k"
  shows "yaml_line (pre @ k @ CHR '':'' # CHR '' '' # v) (sec, fc) = (sec, yaml_set (sec @ ''.'' @ k) v fc)"
proof -
  let ?l = "k @ CHR '':'' # CHR '' '' # v"
  have v: "v \<noteq> []" "\<not> IsSpace (hd v)" "\<not> IsSpace (last v)" using assms(1) by (auto simp: plain_value_def)
  have k: "\<not> IsSpace (hd k)" "\<not> IsSpace (last k)" "CHR '':'' \<notin> set k" "CHR ''#'' \<notin> set k"
    using assms(4,5) by (auto simp: list_all_iff)
  have "CHR ''#'' \<notin> set (pre @ ?l)" using assms(1,3) k by (auto simp: plain_value_def)
  then have s: "hd (Split (CHR ''#'') (pre @ ?l)) = pre @ ?l" by (metis Split_none list.sel(1))
  have t: "TrimSpace (pre @ ?l) = ?l"
    unfolding TrimSpace_def trim_by_prefix [OF assms(2)] by (rule trim_by_id) (use k v assms(4) in simp_all)
  have p: "SplitN2 (CHR '':'') ?l = [k, CHR '' '' # v]" by (rule SplitN2_append) (use k in blast)
  have tk: "TrimSpace k = k" unfolding TrimSpace_def by (rule trim_by_id) (use k assms(4) in simp_all)
  have sp: "list_all IsSpace '' ''" by (simp add: IsSpace_def rune_def)
  have tv: "TrimSpace (CHR '' '' # v) = v"
    using trim_by_prefix [OF sp, of v] trim_by_id [of v IsSpace] v by (simp add: TrimSpace_def)
  have q: "trim_by (\<lambda>c. c = CHR 0x22) v = v" by (rule trim_by_id) (use assms(1) in \<open>simp_all add: plain_value_def\<close>)
  have suf: "\<not> HasSuffix ?l '':''" using assms(1) by (simp add: HasSuffix_single plain_value_def)
  show ?thesis using suf by (simp add: yaml_line_def s t p tk tv q Let_def)
qed

lemma yaml_line_section:
  assumes "sec \<noteq> []" "CHR ''#'' \<notin> set sec" "\<not> IsSpace (hd sec)"
  shows "yaml_line (sec @ '':'') (old, fc) = (sec, fc)"
proof -
  have "CHR ''#'' \<notin> set (sec @ '':'')" using assms by simp
  then have s: "hd (Split (CHR ''#'') (sec @ '':'')) = sec @ '':''" by (metis Split_none list.sel(1))
  have t: "TrimSpace (sec @ '':'') = sec @ '':''"
    unfolding TrimSpace_def by (rule trim_by_id) (use assms in \<open>simp_all add: IsSpace_def rune_def\<close>)
  have suf: "HasSuffix (sec @ '':'') '':''" by (simp add: HasSuffix_single)
  then have "TrimSuffix (sec @ '':'') '':'' = sec" by (simp add: TrimSuffix_def)
  with suf show ?thesis by (simp add: yaml_line_def s t Let_def)
qed

lemma plain_digits: "plain_value (digits n)"
proof -
  have all: "\<And>c. c \<in> set (digits n) \<Longrightarrow> is_digit c" and ne: "digits n \<noteq> []"
    using digits_all [of n] by (auto simp: list_all_iff)
  have d: "is_digit c \<Longrightarrow> \<not> IsSpace c \<and> c \<noteq> CHR 0x0A \<and> c \<noteq> CHR ''#'' \<and> c \<noteq> CHR 0x22 \<and> c \<noteq> CHR '':''" for c
    by (auto simp: is_digit_def IsSpace_def rune_def)
  have "is_digit (hd (digits n))" "is_digit (last (digits n))" using all ne by simp_all
  with d all ne show ?thesis unfolding plain_value_def by blast
qed

definition yaml_ok :: "FileConfig \<Rightarrow> bool" where
  "yaml_ok fc \<longleftrightarrow> plain_value (fc_Name fc) \<and> plain_value (fc_Backpressure fc) \<and>
     0 \<le> fc_Min fc \<and> fc_Min fc < 2 ^ 63 \<and> 0 \<le> fc_Max fc \<and> fc_Max fc < 2 ^ 63 \<and>
     0 \<le> fc_Size fc \<and> fc_Size fc < 2 ^ 63"

lemma Atoi_digits_int: "0 \<le> x \<Longrightarrow> x < 2 ^ 63 \<Longrightarrow> fst (Atoi (digits (nat x))) = x"
  by (subst Atoi_digits) (simp_all add: nat_less_iff)

text \<open>The lines of the layout, each as \<open>yaml_line_key\<close> or \<open>yaml_line_section\<close> reads it.\<close>

lemma yaml_key_lines:
  assumes "plain_value v"
  shows "yaml_line (''name: '' @ v) (sec, fc) = (sec, yaml_set (sec @ ''.name'') v fc)"
    and "yaml_line (''tracking: '' @ v) (sec, fc) = (sec, yaml_set (sec @ ''.tracking'') v fc)"
    and "yaml_line (''  min: '' @ v) (sec, fc) = (sec, yaml_set (sec @ ''.min'') v fc)"
    and "yaml_line (''  max: '' @ v) (sec, fc) = (sec, yaml_set (sec @ ''.max'') v fc)"
    and "yaml_line (''  size: '' @ v) (sec, fc) = (sec, yaml_set (sec @ ''.size'') v fc)"
    and "yaml_line (''  backpressure: '' @ v) (sec, fc) = (sec, yaml_set (sec @ ''.backpressure'') v fc)"
  using yaml_line_key [OF assms, of "''''" "''name''" sec fc] yaml_line_key [OF assms, of "''''" "''tracking''" sec fc]
    yaml_line_key [OF assms, of "''  ''" "''min''" sec fc] yaml_line_key [OF assms, of "''  ''" "''max''" sec fc]
    yaml_line_key [OF assms, of "''  ''" "''size''" sec fc] yaml_line_key [OF assms, of "''  ''" "''backpressure''" sec fc]
  by (auto simp: IsSpace_def rune_def)

lemma yaml_section_lines:
  "yaml_line ''workers:'' (old, fc) = (''workers'', fc)"
  "yaml_line ''queue:'' (old, fc) = (''queue'', fc)"
  using yaml_line_section [of "''workers''" old fc] yaml_line_section [of "''queue''" old fc]
  by (simp_all add: IsSpace_def rune_def)

lemma plain_bool: "plain_value (if b then ''true'' else ''false'')"
  by (simp add: plain_value_def IsSpace_def rune_def)

lemma yaml_of_no_newline:
  assumes "yaml_ok fc" "l \<in> set (yaml_of fc)"
  shows "CHR 0x0A \<notin> set l"
proof -
  have "CHR 0x0A \<notin> set (digits n)" for n using plain_digits [of n] by (simp add: plain_value_def)
  with assms show ?thesis by (auto simp: yaml_of_def yaml_ok_def plain_value_def split: if_splits)
qed

text \<open>C33. The file format: a configuration rendered with its top-level keys first and its sections
  after them is read back as it was, for every name and backpressure policy on one line and all
  non-negative 64-bit sizes.\<close>

theorem yaml_roundtrip:
  assumes "yaml_ok fc"
  shows "parseSimpleYAML (join_lines (yaml_of fc)) = fc"
proof -
  have "Split (CHR 0x0A) (join_lines (yaml_of fc)) = yaml_of fc"
    using yaml_of_no_newline [OF assms] by (intro Split_join) (auto simp: yaml_of_def)
  moreover have "plain_value (fc_Name fc)" "plain_value (fc_Backpressure fc)"
    using assms by (simp_all add: yaml_ok_def)
  ultimately show ?thesis using assms
    by (simp only: parseSimpleYAML_def yaml_of_def fold_simps o_apply yaml_key_lines plain_digits plain_bool yaml_section_lines snd_conv)
      (simp add: yaml_set_def no_file_config_def Atoi_digits_int yaml_ok_def)
qed

theorem yaml_roundtrip_witness:
  "parseSimpleYAML (join_lines [''name: emails: eu'', ''tracking: true'', ''workers:'', ''  min: 4'', ''  max: 64'',
     ''queue:'', ''  size: 100000'', ''  backpressure: reject'']) =
   \<lparr>fc_Name = ''emails: eu'', fc_Min = 4, fc_Max = 64, fc_Size = 100000, fc_Backpressure = ''reject'', fc_Tracking = True\<rparr>"
proof -
  let ?fc = "\<lparr>fc_Name = ''emails: eu'', fc_Min = 4, fc_Max = 64, fc_Size = 100000, fc_Backpressure = ''reject'', fc_Tracking = True\<rparr>"
  have "yaml_ok ?fc" by (simp add: yaml_ok_def plain_value_def IsSpace_def rune_def)
  moreover have "digits 4 = ''4''" "digits 64 = ''64''" "digits 100000 = ''100000''"
    by (simp_all add: digits.simps, code_simp+)
  then have "yaml_of ?fc = [''name: emails: eu'', ''tracking: true'', ''workers:'', ''  min: 4'', ''  max: 64'',
     ''queue:'', ''  size: 100000'', ''  backpressure: reject'']" by (simp add: yaml_of_def)
  ultimately show ?thesis using yaml_roundtrip [of ?fc] by metis
qed

subsection \<open>A section never ends\<close>

lemma section_key:
  assumes "sec \<noteq> []"
  shows "sec @ ''.'' @ k \<noteq> ''.name''" "sec @ ''.'' @ k \<noteq> ''.tracking''"
proof -
  obtain c rest where sec: "sec = c # rest" using assms by (cases sec) auto
  have "CHR ''.'' \<in> set (rest @ ''.'' @ k)" by simp
  moreover have "CHR ''.'' \<notin> set ''name''" "CHR ''.'' \<notin> set ''tracking''" by simp_all
  ultimately have "rest @ ''.'' @ k \<noteq> ''name''" "rest @ ''.'' @ k \<noteq> ''tracking''" by metis+
  then show "sec @ ''.'' @ k \<noteq> ''.name''" "sec @ ''.'' @ k \<noteq> ''.tracking''" by (simp_all add: sec)
qed

definition top_level :: "FileConfig \<Rightarrow> string \<times> bool" where
  "top_level fc = (fc_Name fc, fc_Tracking fc)"

lemma yaml_set_top: "sec \<noteq> [] \<Longrightarrow> top_level (yaml_set (sec @ ''.'' @ k) v fc) = top_level fc"
  using section_key [of sec k] unfolding yaml_set_def top_level_def by (simp only: if_False) simp

text \<open>A line that does not end the section by naming the empty one.\<close>

definition keeps_section :: "string \<Rightarrow> bool" where
  "keeps_section l \<longleftrightarrow> TrimSpace (hd (Split (CHR ''#'') l)) \<noteq> '':''"

lemma yaml_line_top:
  assumes "fst st \<noteq> []" "keeps_section l"
  shows "fst (yaml_line l st) \<noteq> [] \<and> top_level (snd (yaml_line l st)) = top_level (snd st)"
proof -
  have "HasSuffix x '':'' \<Longrightarrow> x \<noteq> '':'' \<Longrightarrow> TrimSuffix x '':'' \<noteq> []" for x
    by (cases x rule: rev_cases) (auto simp: TrimSuffix_def HasSuffix_single)
  with assms yaml_set_top [of "fst st"] show ?thesis
    by (simp add: yaml_line_def keeps_section_def Let_def del: append_assoc)
qed

lemma yaml_lines_top:
  "fst st \<noteq> [] \<Longrightarrow> list_all keeps_section ls \<Longrightarrow> top_level (snd (fold yaml_line ls st)) = top_level (snd st)"
proof (induction ls arbitrary: st)
  case (Cons l ls)
  with yaml_line_top [of st l] Cons.IH [of "yaml_line l st"] show ?case by simp
qed simp

text \<open>No line after a section header is read as one of the top level, whatever its
  indentation: what follows the header (unless it is a lone colon) leaves name and tracking as the
  lines before it set them.\<close>

theorem yaml_section_sticks:
  assumes "sec \<noteq> []" "CHR ''#'' \<notin> set sec" "\<not> IsSpace (hd sec)" "ls1 \<noteq> []"
    and "\<And>l. l \<in> set (sec # ls1 @ ls2) \<Longrightarrow> CHR 0x0A \<notin> set l" and "list_all keeps_section ls2"
  shows "top_level (parseSimpleYAML (join_lines (ls1 @ (sec @ '':'') # ls2))) = top_level (parseSimpleYAML (join_lines ls1))"
proof -
  let ?st = "fold yaml_line ls1 ('''', no_file_config)"
  have s: "Split (CHR 0x0A) (join_lines (ls1 @ (sec @ '':'') # ls2)) = ls1 @ (sec @ '':'') # ls2"
    "Split (CHR 0x0A) (join_lines ls1) = ls1"
    using assms(4,5) by (auto intro!: Split_join)
  have "yaml_line (sec @ '':'') ?st = (sec, snd ?st)"
    using yaml_line_section [OF assms(1-3), of "fst ?st" "snd ?st"] by simp
  with yaml_lines_top [of "(sec, snd ?st)" ls2] assms show ?thesis
    by (simp add: parseSimpleYAML_def s)
qed

text \<open>The document of the README and of \<open>fastworker.yaml\<close> asks for tracking and does not get it.\<close>

theorem yaml_section_sticks_witness:
  "\<not> fc_Tracking (parseSimpleYAML (join_lines ([''name: fastworker'', ''workers:'', ''  min: 4'', ''  max: 64'', ''queue:'',
     ''  size: 100000'', ''  backpressure: reject'', ''tracking: true''])))"
proof -
  have "top_level (parseSimpleYAML (join_lines ([''name: fastworker''] @ (''workers'' @ '':'') #
      [''  min: 4'', ''  max: 64'', ''queue:'', ''  size: 100000'', ''  backpressure: reject'', ''tracking: true''])))
    = top_level (parseSimpleYAML (join_lines [''name: fastworker'']))"
    by (rule yaml_section_sticks) (auto simp: IsSpace_def rune_def, code_simp+)
  moreover have "\<not> snd (top_level (parseSimpleYAML (join_lines [''name: fastworker''])))" by code_simp
  ultimately show ?thesis by (simp add: top_level_def)
qed

end
