(* ===== verification/Scheduler.thy ===== *)
theory Scheduler
  imports Go_Strings Pool_Calls
begin

text \<open>
  Scheduling: \<open>parseCronEvery\<close> and \<open>ScheduleCron\<close> of \<open>cron.go\<close>, \<open>ScheduleEvery\<close>,
  \<open>ScheduleAt\<close> and \<open>ScheduleAfter\<close> of \<open>scheduler.go\<close>.  A schedule is the goroutine behind its
  handle; \<open>time.NewTicker\<close> panics in it on a period that is not positive.
\<close>

subsection \<open>Periods\<close>

text \<open>What \<open>%q\<close> prints, for the runes of Latin-1.\<close>

definition hex_digit :: "int \<Rightarrow> char" where
  "hex_digit n = char_of (nat (if n < 10 then 48 + n else 87 + n))"

definition quote_rune :: "char \<Rightarrow> string" where
  "quote_rune c =
     (let r = rune c; hex = [hex_digit (r div 16), hex_digit (r mod 16)]
      in if c = CHR 0x22 \<or> c = CHR 0x5C then [CHR 0x5C, c]
         else if r = 7 then [CHR 0x5C, CHR ''a''] else if r = 8 then [CHR 0x5C, CHR ''b'']
         else if r = 9 then [CHR 0x5C, CHR ''t''] else if r = 10 then [CHR 0x5C, CHR ''n'']
         else if r = 11 then [CHR 0x5C, CHR ''v''] else if r = 12 then [CHR 0x5C, CHR ''f'']
         else if r = 13 then [CHR 0x5C, CHR ''r'']
         else if r < 32 \<or> r = 0x7F then [CHR 0x5C, CHR ''x''] @ hex
         else if (0x80 \<le> r \<and> r \<le> 0xA0) \<or> r = 0xAD then [CHR 0x5C, CHR ''u''] @ ''00'' @ hex
         else [c])"

definition Quote :: "string \<Rightarrow> string" where
  "Quote s = [CHR 0x22] @ concat (List.map quote_rune s) @ [CHR 0x22]"

text \<open>A step field: the product with the unit is taken in 64 bits.\<close>

definition cron_step :: "string \<Rightarrow> duration \<Rightarrow> duration option" where
  "cron_step part unit =
     (if HasPrefix part ''*/'' then
        (case Atoi (TrimPrefix part ''*/'') of
           (n, er) \<Rightarrow> if er = None \<and> n > 0 then Some (wrap64 (n * unit)) else None)
      else None)"

definition parseCronEvery :: "string \<Rightarrow> err + duration" where
  "parseCronEvery expr0 =
     (let expr = TrimSpace expr0
      in if expr = '''' then Inl (Wrapf ErrInvalidConfig '': empty cron expression'')
         else if HasPrefix expr ''@every '' then
           (case ParseDuration (TrimSpace (TrimPrefix expr ''@every '')) of
              None \<Rightarrow> Inl (Wrapf ErrInvalidConfig '': invalid @every duration'')
            | Some d \<Rightarrow> if d \<le> 0 then Inl (Wrapf ErrInvalidConfig '': invalid @every duration'') else Inr d)
         else
           (let parts = Fields expr;
                r = (if length parts = 6 then cron_step (parts ! 0) Second
                     else if length parts = 5 then cron_step (parts ! 0) (60 * Second)
                     else None)
            in case r of
                 Some d \<Rightarrow> Inr d
               | None \<Rightarrow> Inl (Wrapf ErrInvalidConfig ('': unsupported cron expression '' @ Quote expr))))"

subsection \<open>Options of scheduled jobs\<close>

definition every_options :: "string \<Rightarrow> JobOptions list \<Rightarrow> JobOptions" where
  "every_options i opts =
     (case opts of
        [] \<Rightarrow> no_options\<lparr>o_ID := i\<rparr>
      | o1 # _ \<Rightarrow> if o_ID o1 = '''' then o1\<lparr>o_ID := i\<rparr> else o1)"

definition at_options :: "string \<Rightarrow> time \<Rightarrow> JobOptions list \<Rightarrow> JobOptions" where
  "at_options i t opts =
     (case opts of
        [] \<Rightarrow> no_options\<lparr>o_ID := i, o_RunAt := t\<rparr>
      | o1 # _ \<Rightarrow> (let o1 = o1\<lparr>o_RunAt := t\<rparr> in if o_ID o1 = '''' then o1\<lparr>o_ID := i\<rparr> else o1))"

definition after_options :: "string \<Rightarrow> duration \<Rightarrow> JobOptions list \<Rightarrow> JobOptions" where
  "after_options i after opts =
     (case opts of
        [] \<Rightarrow> no_options\<lparr>o_ID := i, o_Delay := after\<rparr>
      | o1 # _ \<Rightarrow> (let o1 = o1\<lparr>o_Delay := after\<rparr> in if o_ID o1 = '''' then o1\<lparr>o_ID := i\<rparr> else o1))"

definition ScheduleAt ::
  "env \<Rightarrow> (time \<times> time \<times> (pool \<Rightarrow> pool)) list \<Rightarrow> round list \<Rightarrow> string \<Rightarrow> time \<Rightarrow> job option \<Rightarrow> JobOptions list \<Rightarrow> pool \<Rightarrow> (err option \<times> pool) option" where
  "ScheduleAt e ars rs i t j opts p = Submit e ars rs j [at_options i t opts] p"

definition ScheduleAfter ::
  "env \<Rightarrow> (time \<times> time \<times> (pool \<Rightarrow> pool)) list \<Rightarrow> round list \<Rightarrow> string \<Rightarrow> duration \<Rightarrow> job option \<Rightarrow> JobOptions list \<Rightarrow> pool \<Rightarrow> (err option \<times> pool) option" where
  "ScheduleAfter e ars rs i after j opts p = Submit e ars rs j [after_options i after opts] p"

subsection \<open>The goroutine of a schedule\<close>

record schedule =
  sc_id :: string
  sc_every :: duration
  sc_job :: "job option"
  sc_opts :: "JobOptions list"
  sc_cancelled :: bool
  sc_done :: bool

definition ScheduleEvery :: "string \<Rightarrow> duration \<Rightarrow> job option \<Rightarrow> JobOptions list \<Rightarrow> schedule" where
  "ScheduleEvery i every j opts = \<lparr>sc_id = i, sc_every = every, sc_job = j, sc_opts = opts,
     sc_cancelled = False, sc_done = False\<rparr>"

definition ScheduleCron :: "string \<Rightarrow> string \<Rightarrow> job option \<Rightarrow> JobOptions list \<Rightarrow> err + schedule" where
  "ScheduleCron i expr j opts =
     (case parseCronEvery expr of Inl er \<Rightarrow> Inl er | Inr every \<Rightarrow> Inr (ScheduleEvery i every j opts))"

text \<open>\<open>Cancel\<close> of the handle.\<close>

definition Schedule_Cancel :: "schedule \<Rightarrow> schedule" where
  "Schedule_Cancel sc = sc\<lparr>sc_cancelled := True\<rparr>"

text \<open>The goroutine starts with \<open>NewTicker\<close>.\<close>

definition ticker_panics :: "schedule \<Rightarrow> bool" where
  "ticker_panics sc \<longleftrightarrow> sc_every sc \<le> 0"

text \<open>What one pass of the select does: a tick submits the job and forgets the error; the context of
  the schedule, which is done when it is cancelled or the pool's context is, ends the goroutine.\<close>

datatype sched_pass =
    Tick env "(time \<times> time \<times> (pool \<Rightarrow> pool)) list" "round list"
  | CtxDone

fun schedule_pass :: "sched_pass \<Rightarrow> schedule \<times> pool \<Rightarrow> (schedule \<times> pool) option" where
  "schedule_pass (Tick e ars rs) (sc, p) =
     (if sc_done sc then None
      else map_option (\<lambda>(_, p). (sc, p)) (Submit e ars rs (sc_job sc) [every_options (sc_id sc) (sc_opts sc)] p))"
| "schedule_pass CtxDone (sc, p) =
     (if \<not> sc_done sc \<and> (sc_cancelled sc \<or> p_ctxCancelled p) then Some (sc\<lparr>sc_done := True\<rparr>, p) else None)"

subsection \<open>What a cron expression means\<close>

lemma Fields_cons:
  assumes "w \<noteq> []" "list_all (\<lambda>c. \<not> IsSpace c) w" "IsSpace c"
  shows "Fields (w @ c # s) = w # Fields s"
proof -
  have sp: "dropWhile IsSpace (w @ c # s) = w @ c # s" using assms by (cases w) auto
  have "takeWhile (\<lambda>c. \<not> IsSpace c) (w @ c # s) = w" "dropWhile (\<lambda>c. \<not> IsSpace c) (w @ c # s) = c # s"
    using assms by (simp_all add: takeWhile_append dropWhile_append list_all_iff)
  moreover have "Fields (c # s) = Fields s"
    using assms(3) by (subst (1 2) Fields.simps) simp
  ultimately show ?thesis by (subst Fields.simps) (simp add: sp Let_def)
qed

lemma Fields_word: "w \<noteq> [] \<Longrightarrow> list_all (\<lambda>c. \<not> IsSpace c) w \<Longrightarrow> Fields w = [w]"
proof -
  assume w: "w \<noteq> []" "list_all (\<lambda>c. \<not> IsSpace c) w"
  then have "dropWhile IsSpace w = w" by (cases w) auto
  moreover have "takeWhile (\<lambda>c. \<not> IsSpace c) w = w" "dropWhile (\<lambda>c. \<not> IsSpace c) w = []"
    using w by (simp_all add: list_all_iff)
  moreover have "Fields [] = []" by (subst Fields.simps) simp
  ultimately show ?thesis using w(1) by (subst Fields.simps) (simp add: Let_def del: dropWhile_eq_Nil_conv)
qed

definition stars :: "nat \<Rightarrow> string" where
  "stars k = concat (replicate k '' *'')"

lemma Fields_stars: "w \<noteq> [] \<Longrightarrow> list_all (\<lambda>c. \<not> IsSpace c) w \<Longrightarrow> Fields (w @ stars k) = w # replicate k ''*''"
proof (induction k arbitrary: w)
  case 0
  then show ?case by (simp add: stars_def Fields_word)
next
  case (Suc k)
  have "Fields (w @ CHR '' '' # (''*'' @ stars k)) = w # Fields (''*'' @ stars k)"
    by (rule Fields_cons) (use Suc.prems in \<open>simp_all add: IsSpace_def rune_def\<close>)
  with Suc.IH [of "''*''"] show ?case by (simp add: stars_def IsSpace_def rune_def)
qed

lemma last_stars: "w \<noteq> [] \<Longrightarrow> \<not> IsSpace (last w) \<Longrightarrow> \<not> IsSpace (last (w @ stars k))"
  by (cases k) (simp_all add: stars_def replicate_append_same [symmetric] IsSpace_def rune_def)

text \<open>The expression \<open>*/n * ... *\<close>.\<close>

definition cron_expr :: "nat \<Rightarrow> nat \<Rightarrow> string" where
  "cron_expr n k = ''*/'' @ digits n @ stars k"

lemma digit_not_space: "is_digit c \<Longrightarrow> \<not> IsSpace c"
  by (auto simp: is_digit_def IsSpace_def rune_def)

lemma parseCronEvery_step:
  assumes "1 \<le> n" "n < 2 ^ 63"
  shows "parseCronEvery (cron_expr n 5) = Inr (wrap64 (int n * Second))"
    and "parseCronEvery (cron_expr n 4) = Inr (wrap64 (int n * (60 * Second)))"
proof -
  let ?w = "''*/'' @ digits n"
  have d: "list_all (\<lambda>c. \<not> IsSpace c) (digits n)" "digits n \<noteq> []"
    using digits_all [of n] by (auto simp: list_all_iff digit_not_space)
  have w: "list_all (\<lambda>c. \<not> IsSpace c) ?w" using d by (simp add: IsSpace_def rune_def)
  have l: "\<not> IsSpace (last ?w)" using w by (simp add: list_all_iff)
  have e: "cron_expr n k = ?w @ stars k" for k by (simp add: cron_expr_def)
  have t: "TrimSpace (cron_expr n k) = cron_expr n k" for k
    unfolding TrimSpace_def e by (rule trim_by_id) (use last_stars [OF _ l] in \<open>simp_all add: IsSpace_def rune_def\<close>)
  have f: "Fields (cron_expr n k) = ?w # replicate k ''*''" for k
    unfolding e by (rule Fields_stars) (use w in simp_all)
  have p: "\<not> HasPrefix (cron_expr n k) ''@every ''" "cron_expr n k \<noteq> []" for k
    by (simp_all add: e HasPrefix_def)
  have c: "cron_step ?w u = Some (wrap64 (int n * u))" for u
    using assms by (simp add: cron_step_def HasPrefix_def TrimPrefix_def Atoi_digits)
  show "parseCronEvery (cron_expr n 5) = Inr (wrap64 (int n * Second))"
    "parseCronEvery (cron_expr n 4) = Inr (wrap64 (int n * (60 * Second)))"
    by (simp_all add: parseCronEvery_def t p f c del: append.simps append_Cons)
qed

lemma parseCronEvery_error: "parseCronEvery expr = Inl er \<Longrightarrow> \<exists>m. er = Wrapf ErrInvalidConfig m"
  by (auto simp: parseCronEvery_def Let_def split: if_splits option.splits)

text \<open>C34. A step expression with six fields is a period in seconds, one with five in minutes; the
  period is right as long as it fits 64 bits.  A longer one wraps around: the call still returns a
  schedule, whose ticker panics if the product became zero or negative.  Every error is an invalid
  configuration.\<close>

theorem cron_period:
  assumes "1 \<le> n" "n < 2 ^ 63"
  shows "(int n * Second < 2 ^ 63 \<longrightarrow> parseCronEvery (cron_expr n 5) = Inr (int n * Second)) \<and>
    (int n * (60 * Second) < 2 ^ 63 \<longrightarrow> parseCronEvery (cron_expr n 4) = Inr (int n * (60 * Second))) \<and>
    (2 ^ 63 \<le> int n * Second \<and> int n * Second \<le> 2 ^ 64 \<longrightarrow>
      (\<exists>sc. ScheduleCron i (cron_expr n 5) j opts = Inr sc \<and> ticker_panics sc)) \<and>
    (parseCronEvery expr = Inl er \<longrightarrow> (\<exists>m. er = Wrapf ErrInvalidConfig m))"
proof -
  have "wrap64 x \<le> 0" if "2 ^ 63 \<le> x" "x \<le> 2 ^ 64" for x
  proof -
    have "wrap64 x = (x + 2 ^ 63) mod 2 ^ 64 - 2 ^ 63"
      by (simp add: wrap64_def signed_take_bit_eq_take_bit_shift take_bit_eq_mod)
    also have "x + 2 ^ 63 = (x - 2 ^ 63) + 2 ^ 64" by simp
    also have "((x - 2 ^ 63) + 2 ^ 64) mod 2 ^ 64 = (x - 2 ^ 63) mod 2 ^ 64" by (rule mod_add_self2)
    also have "(x - 2 ^ 63) mod 2 ^ 64 = x - 2 ^ 63" by (rule mod_pos_pos_trivial) (use that in simp_all)
    finally show ?thesis using that by simp
  qed
  then show ?thesis
    using assms parseCronEvery_step [OF assms] parseCronEvery_error [of expr er]
    by (auto simp: wrap64_id ScheduleCron_def ScheduleEvery_def ticker_panics_def)
qed

theorem cron_period_witness:
  "parseCronEvery (cron_expr 5 5) = Inr (5 * Second) \<and> parseCronEvery (cron_expr 2 4) = Inr (120 * Second) \<and>
   (\<exists>sc. ScheduleCron ''cleanup'' (cron_expr 9223372037 5) None [] = Inr sc \<and> ticker_panics sc)"
  using cron_period [of 5 "''cleanup''" None "[]" "[]" "Errorf []"] cron_period [of 2 "''cleanup''" None "[]" "[]" "Errorf []"]
    cron_period [of 9223372037 "''cleanup''" None "[]" "[]" "Errorf []"] by simp

end
