(* ===== verification/Job_Groups.thy ===== *)
theory Job_Groups
  imports Go_Errors
begin

text \<open>
  Jobs made of jobs: \<open>Group\<close> of \<open>scheduler.go\<close>, \<open>Map\<close> of \<open>batch.go\<close>, \<open>ChainBuilder\<close>
  and \<open>WhenAllBuilder\<close> of \<open>chain.go\<close>.

  A job runs in a state \<open>'s\<close> of the application and returns an error or nil.  A
  \<open>sync.WaitGroup\<close> is its counter; \<open>Done\<close> at zero panics, which is \<open>None\<close>.  What the pool
  does with the submitted closures is the sequence of their runs: one per attempt, none for a job
  that is cancelled before it begins.
\<close>

type_synonym 's run = "'s \<Rightarrow> err option \<times> 's"

definition wg_Done :: "nat \<Rightarrow> nat option" where
  "wg_Done n = (if n = 0 then None else Some (n - 1))"

subsection \<open>Group\<close>

record group =
  g_wg :: nat
  g_errs :: "err list"

definition new_group :: group where
  "new_group = \<lparr>g_wg = 0, g_errs = []\<rparr>"

text \<open>\<open>Go\<close> counts the job and returns what the submission returned; the closure runs the function,
  keeps its error and then counts down.\<close>

definition Group_Go :: "err option \<Rightarrow> group \<Rightarrow> err option \<times> group" where
  "Group_Go submitted g = (submitted, g\<lparr>g_wg := g_wg g + 1\<rparr>)"

definition group_closure :: "'s run \<Rightarrow> 's \<times> group \<Rightarrow> (err option \<times> ('s \<times> group)) option" where
  "group_closure fn st =
     (case fn (fst st) of
        (er, s) \<Rightarrow>
          let g = (case er of None \<Rightarrow> snd st | Some x \<Rightarrow> (snd st)\<lparr>g_errs := g_errs (snd st) @ [x]\<rparr>)
          in map_option (\<lambda>n. (er, (s, g\<lparr>g_wg := n\<rparr>))) (wg_Done (g_wg g)))"

text \<open>\<open>Wait\<close> returns once the counter is zero.\<close>

definition Group_Wait :: "group \<Rightarrow> err list option" where
  "Group_Wait g = (if g_wg g = 0 then Some (g_errs g) else None)"

text \<open>What happens to a group: a call of \<open>Go\<close> with the answer of the pool, or a run.\<close>

datatype 's group_event = Submitted "err option" | Ran "'s run"

fun group_run :: "'s group_event list \<Rightarrow> 's \<times> group \<Rightarrow> ('s \<times> group) option" where
  "group_run [] st = Some st"
| "group_run (Submitted er # evs) st = group_run evs (fst st, snd (Group_Go er (snd st)))"
| "group_run (Ran fn # evs) st =
     (case group_closure fn st of None \<Rightarrow> None | Some (_, st') \<Rightarrow> group_run evs st')"

fun n_submitted :: "'s group_event list \<Rightarrow> nat" where
  "n_submitted [] = 0"
| "n_submitted (Submitted er # evs) = Suc (n_submitted evs)"
| "n_submitted (Ran fn # evs) = n_submitted evs"

fun n_ran :: "'s group_event list \<Rightarrow> nat" where
  "n_ran [] = 0"
| "n_ran (Submitted er # evs) = n_ran evs"
| "n_ran (Ran fn # evs) = Suc (n_ran evs)"

lemma group_run_append:
  "group_run (es @ fs) st = (case group_run es st of None \<Rightarrow> None | Some st' \<Rightarrow> group_run fs st')"
  by (induction es st rule: group_run.induct) (auto split: option.split)

lemma group_run_count:
  "group_run evs st = Some st' \<Longrightarrow> g_wg (snd st') + n_ran evs = g_wg (snd st) + n_submitted evs"
proof (induction evs st rule: group_run.induct)
  case (3 fn evs st)
  from "3.prems" obtain er st1 where c: "group_closure fn st = Some (er, st1)"
    by (auto split: option.splits)
  then have "g_wg (snd st) = Suc (g_wg (snd st1))"
    by (auto simp: group_closure_def Let_def wg_Done_def split: prod.splits option.splits if_splits)
  with 3 c show ?case by auto
qed (auto simp: Group_Go_def)

lemma group_closure_panics: "group_closure fn st = None \<longleftrightarrow> g_wg (snd st) = 0"
  by (auto simp: group_closure_def Let_def wg_Done_def split: prod.splits option.splits)

lemma all_Suc_split: "(\<forall>k. P k) \<longleftrightarrow> P 0 \<and> (\<forall>k. P (Suc k))"
  by (metis not0_implies_Suc)

lemma group_run_returns:
  "group_run evs st \<noteq> None \<longleftrightarrow> (\<forall>k. n_ran (take k evs) \<le> g_wg (snd st) + n_submitted (take k evs))"
proof (induction evs st rule: group_run.induct)
  case (2 er evs st)
  then show ?case by (subst all_Suc_split) (simp add: Group_Go_def)
next
  case (3 fn evs st)
  show ?case
  proof (cases "group_closure fn st")
    case None
    then have "g_wg (snd st) = 0" by (simp add: group_closure_panics)
    with None show ?thesis by (auto intro!: exI [of _ 1])
  next
    case (Some r)
    then obtain er st1 where r: "group_closure fn st = Some (er, st1)" by (cases r) auto
    then have "g_wg (snd st) = Suc (g_wg (snd st1))"
      by (auto simp: group_closure_def Let_def wg_Done_def split: prod.splits option.splits if_splits)
    with 3 r show ?thesis by (subst all_Suc_split) simp
  qed
qed simp

text \<open>The errors a sequence of runs returns, in its order.\<close>

fun run_errors :: "'s group_event list \<Rightarrow> 's \<Rightarrow> err list" where
  "run_errors [] s = []"
| "run_errors (Submitted er # evs) s = run_errors evs s"
| "run_errors (Ran fn # evs) s =
     (case fn s of (er, s') \<Rightarrow> (case er of None \<Rightarrow> [] | Some x \<Rightarrow> [x]) @ run_errors evs s')"

lemma group_run_errors:
  "group_run evs st = Some st' \<Longrightarrow> g_errs (snd st') = g_errs (snd st) @ run_errors evs (fst st)"
proof (induction evs st rule: group_run.induct)
  case (3 fn evs st)
  from "3.prems" obtain er st1 where c: "group_closure fn st = Some (er, st1)" "group_run evs st1 = Some st'"
    by (auto split: option.splits)
  then have "g_errs (snd st1) = g_errs (snd st) @ (case fst (fn (fst st)) of None \<Rightarrow> [] | Some x \<Rightarrow> [x])"
    and "fst st1 = snd (fn (fst st))"
    by (auto simp: group_closure_def Let_def split: prod.splits option.splits)
  with 3 c show ?case by (simp split: prod.splits)
qed (auto simp: Group_Go_def)

text \<open>C35. \<open>Wait\<close> returns, with the errors of all runs in their order, exactly when as many runs
  have ended as jobs were submitted; the runs never panic exactly as long as they are never ahead of
  the submissions.  So \<open>Wait\<close> is right when every submission is accepted and every job runs once;
  after a refused submission, or with a job cancelled before it ran, it waits for ever; a job that is
  retried releases it early or panics.\<close>

theorem Group_Wait_counts:
  "(group_run evs (s, new_group) \<noteq> None \<longleftrightarrow> (\<forall>k. n_ran (take k evs) \<le> n_submitted (take k evs))) \<and>
   (group_run evs (s, new_group) = Some st \<longrightarrow>
     Group_Wait (snd st) = (if n_ran evs = n_submitted evs then Some (run_errors evs s) else None))"
  using group_run_returns [of evs "(s, new_group)"] group_run_count [of evs "(s, new_group)" st]
    group_run_errors [of evs "(s, new_group)" st]
  by (auto simp: new_group_def Group_Wait_def)

definition ex_job :: "nat run" where
  "ex_job n = (if n < 1 then Some ErrTimeout else None, n + 1)"

lemmas group_defs = Group_Go_def new_group_def group_closure_def wg_Done_def Group_Wait_def ex_job_def

theorem Group_Wait_counts_witness:
  "group_run [Submitted None, Ran ex_job, Ran ex_job] (0, new_group) = None \<and>
   map_option (Group_Wait \<circ> snd) (group_run [Submitted None, Submitted (Some ErrQueueFull), Ran ex_job] (0, new_group)) = Some None \<and>
   map_option (Group_Wait \<circ> snd) (group_run [Submitted None, Submitted None, Ran ex_job, Ran ex_job] (0, new_group)) = Some (Some [ErrTimeout])"
proof (intro conjI)
  show "group_run [Submitted None, Ran ex_job, Ran ex_job] (0, new_group) = None"
    by (simp add: group_defs)
  have "group_run [Submitted None, Submitted (Some ErrQueueFull), Ran ex_job] (0, new_group) = Some (1, \<lparr>g_wg = 1, g_errs = [ErrTimeout]\<rparr>)"
    by (simp add: group_defs)
  from this show "map_option (Group_Wait \<circ> snd) (group_run [Submitted None, Submitted (Some ErrQueueFull), Ran ex_job] (0, new_group)) = Some None"
    by (simp add: group_defs)
  have run: "group_run [Submitted None, Submitted None, Ran ex_job, Ran ex_job] (0, new_group) = Some (2, \<lparr>g_wg = 0, g_errs = [ErrTimeout]\<rparr>)"
    by (simp add: group_defs)
  then show "map_option (Group_Wait \<circ> snd) (group_run [Submitted None, Submitted None, Ran ex_job, Ran ex_job] (0, new_group)) = Some (Some [ErrTimeout])"
    using Group_Wait_counts [of "[Submitted None, Submitted None, Ran ex_job, Ran ex_job]" 0 "(2, \<lparr>g_wg = 0, g_errs = [ErrTimeout]\<rparr>)"]
    by (simp add: ex_job_def)
qed

subsection \<open>Map\<close>

text \<open>The result of \<open>Map\<close>: one value and one error per item (nil is \<open>None\<close>), and the wait group.\<close>

record 'o batch =
  b_Values :: "'o list"
  b_Errors :: "err option list"
  b_wg :: nat

definition new_batch :: "'o \<Rightarrow> nat \<Rightarrow> 'o batch" where
  "new_batch zero n = \<lparr>b_Values = replicate n zero, b_Errors = replicate n None, b_wg = 0\<rparr>"

text \<open>The loop over the items: a refused submission is counted down at once and its error kept.\<close>

definition map_submit :: "nat \<Rightarrow> err option \<Rightarrow> 'o batch \<Rightarrow> 'o batch" where
  "map_submit i submitted b =
     (let b = b\<lparr>b_wg := b_wg b + 1\<rparr>
      in case submitted of
           None \<Rightarrow> b
         | Some er \<Rightarrow> b\<lparr>b_wg := b_wg b - 1, b_Errors := (b_Errors b)[i := Some er]\<rparr>)"

text \<open>The closure of item \<open>i\<close>, with what \<open>fn\<close> returned.\<close>

definition map_closure :: "nat \<Rightarrow> 'o \<times> err option \<Rightarrow> 'o batch \<Rightarrow> 'o batch option" where
  "map_closure i r b =
     (let b = b\<lparr>b_Values := (b_Values b)[i := fst r], b_Errors := (b_Errors b)[i := snd r]\<rparr>
      in map_option (\<lambda>n. b\<lparr>b_wg := n\<rparr>) (wg_Done (b_wg b)))"

definition errors_Join :: "err option list \<Rightarrow> err option" where
  "errors_Join ers = (case List.map_filter id ers of [] \<Rightarrow> None | es \<Rightarrow> Some (Joined es))"

text \<open>The select at the end: \<open>None\<close> while the wait group is not down and the context not done.\<close>

definition map_result :: "err option \<Rightarrow> 'o batch \<Rightarrow> ('o list \<times> err option list \<times> err option) option" where
  "map_result ctxErr b =
     (if b_wg b = 0 then Some (b_Values b, b_Errors b, errors_Join (b_Errors b))
      else case ctxErr of None \<Rightarrow> None | Some er \<Rightarrow> Some (b_Values b, b_Errors b, Some er))"

datatype 'o map_event = MSubmit nat "err option" | MRan nat "'o \<times> err option"

fun map_run :: "'o map_event list \<Rightarrow> 'o batch \<Rightarrow> 'o batch option" where
  "map_run [] b = Some b"
| "map_run (MSubmit i er # evs) b = map_run evs (map_submit i er b)"
| "map_run (MRan i r # evs) b = (case map_closure i r b of None \<Rightarrow> None | Some b' \<Rightarrow> map_run evs b')"

text \<open>A use of \<open>Map\<close> over \<open>n\<close> items: each is submitted once, with the pool's answer
  \<open>sub\<close>, and each accepted one is run once, with result \<open>res\<close>, after it was submitted.\<close>

definition map_events :: "nat \<Rightarrow> (nat \<Rightarrow> err option) \<Rightarrow> (nat \<Rightarrow> 'o \<times> err option) \<Rightarrow> 'o map_event set" where
  "map_events n sub res = {MSubmit i (sub i) |i. i < n} \<union> {MRan i (res i) |i. i < n \<and> sub i = None}"

definition map_order :: "nat \<Rightarrow> (nat \<Rightarrow> err option) \<Rightarrow> (nat \<Rightarrow> 'o \<times> err option) \<Rightarrow> 'o map_event list \<Rightarrow> bool" where
  "map_order n sub res evs \<longleftrightarrow> distinct evs \<and> set evs \<subseteq> map_events n sub res \<and>
     (\<forall>es i fs. evs = es @ MRan i (res i) # fs \<longrightarrow> MSubmit i (sub i) \<in> set es)"

definition map_values :: "nat \<Rightarrow> (nat \<Rightarrow> 'o \<times> err option) \<Rightarrow> 'o \<Rightarrow> 'o map_event set \<Rightarrow> 'o list" where
  "map_values n res z E = List.map (\<lambda>i. if MRan i (res i) \<in> E then fst (res i) else z) [0..<n]"

definition map_errors :: "nat \<Rightarrow> (nat \<Rightarrow> err option) \<Rightarrow> (nat \<Rightarrow> 'o \<times> err option) \<Rightarrow> 'o map_event set \<Rightarrow> err option list" where
  "map_errors n sub res E = List.map (\<lambda>i. if MRan i (res i) \<in> E then snd (res i)
     else if MSubmit i (sub i) \<in> E then sub i else None) [0..<n]"

definition map_pending :: "nat \<Rightarrow> (nat \<Rightarrow> err option) \<Rightarrow> (nat \<Rightarrow> 'o \<times> err option) \<Rightarrow> 'o map_event set \<Rightarrow> nat set" where
  "map_pending n sub res E = {i. i < n \<and> sub i = None \<and> MSubmit i (sub i) \<in> E \<and> MRan i (res i) \<notin> E}"

lemma map_upt_update: "i < n \<Longrightarrow> (List.map f [0..<n])[i := v] = List.map (f(i := v)) [0..<n]"
  by (rule nth_equalityI) (auto simp: nth_list_update)

lemma map_run_append:
  "map_run (es @ fs) b = (case map_run es b of None \<Rightarrow> None | Some b' \<Rightarrow> map_run fs b')"
  by (induction es b rule: map_run.induct) (auto split: option.split)

lemma finite_map_pending [simp]: "finite (map_pending n sub res E)"
  by (simp add: map_pending_def)

lemma map_order_snoc:
  assumes "map_order n sub res (es @ [ev])"
  shows "map_order n sub res es" "ev \<notin> set es" "ev \<in> map_events n sub res"
    "ev = MRan i (res i) \<Longrightarrow> MSubmit i (sub i) \<in> set es"
    "MRan i (res i) \<in> set es \<Longrightarrow> MSubmit i (sub i) \<in> set es"
proof -
  have ord: "es @ [ev] = es1 @ MRan i (res i) # fs \<Longrightarrow> MSubmit i (sub i) \<in> set es1" for es1 i fs
    using assms by (auto simp: map_order_def)
  have ord': "es = es1 @ MRan i (res i) # fs \<Longrightarrow> MSubmit i (sub i) \<in> set es1" for es1 i fs
    using ord [of es1 i "fs @ [ev]"] by simp
  with assms show "map_order n sub res es" "ev \<notin> set es" "ev \<in> map_events n sub res"
    by (auto simp: map_order_def)
  show "ev = MRan i (res i) \<Longrightarrow> MSubmit i (sub i) \<in> set es" using ord [of es i "[]"] by simp
  show "MRan i (res i) \<in> set es \<Longrightarrow> MSubmit i (sub i) \<in> set es"
    using ord' by (fastforce simp: in_set_conv_decomp)
qed

lemma map_run_state:
  "map_order n sub res evs \<Longrightarrow>
   map_run evs (new_batch z n) = Some \<lparr>b_Values = map_values n res z (set evs),
     b_Errors = map_errors n sub res (set evs), b_wg = card (map_pending n sub res (set evs))\<rparr>"
proof (induction evs rule: rev_induct)
  case Nil
  show ?case by (simp add: new_batch_def map_values_def map_errors_def map_pending_def map_replicate_const)
next
  case (snoc ev es)
  note o = map_order_snoc [OF snoc.prems]
  let ?E = "set es" and ?E' = "insert ev (set es)"
  have IH: "map_run es (new_batch z n) = Some \<lparr>b_Values = map_values n res z ?E,
      b_Errors = map_errors n sub res ?E, b_wg = card (map_pending n sub res ?E)\<rparr>"
    by (rule snoc.IH [OF o(1)])
  from o(3) consider i where "ev = MSubmit i (sub i)" "i < n" | i where "ev = MRan i (res i)" "i < n" "sub i = None"
    by (auto simp: map_events_def)
  then show ?case
  proof cases
    case (1 i)
    have nr: "MRan i (res i) \<notin> ?E" using o(2,5) 1(1) by blast
    have v: "map_values n res z ?E' = map_values n res z ?E" by (simp add: map_values_def 1)
    have e: "map_errors n sub res ?E' = (map_errors n sub res ?E)[i := sub i]"
      using 1 nr by (auto simp: map_errors_def map_upt_update)
    have e': "sub i = None \<Longrightarrow> map_errors n sub res ?E' = map_errors n sub res ?E"
      by (auto simp: map_errors_def 1)
    have p: "map_pending n sub res ?E' = (if sub i = None then insert i (map_pending n sub res ?E) else map_pending n sub res ?E)"
      using 1 nr by (auto simp: map_pending_def)
    have "i \<notin> map_pending n sub res ?E" using o(2) 1 by (simp add: map_pending_def)
    with v e e' p IH show ?thesis
      by (cases "sub i") (simp_all add: map_run_append 1 map_submit_def)
  next
    case (2 i)
    have i: "i \<in> map_pending n sub res ?E" using o(2) o(4) [of i] 2 by (simp add: map_pending_def)
    have v: "map_values n res z ?E' = (map_values n res z ?E)[i := fst (res i)]"
      using 2 by (auto simp: map_values_def map_upt_update)
    have e: "map_errors n sub res ?E' = (map_errors n sub res ?E)[i := snd (res i)]"
      using 2 by (auto simp: map_errors_def map_upt_update)
    have "map_pending n sub res ?E' = map_pending n sub res ?E - {i}"
      using 2 by (auto simp: map_pending_def)
    then have "card (map_pending n sub res ?E') = card (map_pending n sub res ?E) - 1" using i by simp
    moreover have "card (map_pending n sub res ?E) \<noteq> 0" using i by auto
    ultimately show ?thesis using v e IH
      by (simp add: map_run_append 2 map_closure_def wg_Done_def)
  qed
qed

text \<open>C36. \<open>Map\<close> never panics and returns as soon as every accepted item has run, in whatever
  order they were submitted and run: the value and error of each item at its own index, the zero
  value and the pool's error for a refused one, and the join of the errors, nil if there is none.
  Until then it returns only when its context is done.\<close>

theorem Map_in_place:
  assumes "map_order n sub res evs"
  shows "\<exists>b. map_run evs (new_batch z n) = Some b \<and>
    (set evs = map_events n sub res \<longrightarrow>
       map_result ctxErr b = Some (List.map (\<lambda>i. if sub i = None then fst (res i) else z) [0..<n],
         List.map (\<lambda>i. if sub i = None then snd (res i) else sub i) [0..<n],
         errors_Join (List.map (\<lambda>i. if sub i = None then snd (res i) else sub i) [0..<n]))) \<and>
    (\<forall>i < n. sub i = None \<and> MSubmit i None \<in> set evs \<and> MRan i (res i) \<notin> set evs \<longrightarrow> map_result None b = None)"
proof -
  let ?b = "\<lparr>b_Values = map_values n res z (set evs), b_Errors = map_errors n sub res (set evs),
    b_wg = card (map_pending n sub res (set evs))\<rparr>"
  let ?A = "map_events n sub res"
  have "map_pending n sub res ?A = {}" by (auto simp: map_pending_def map_events_def)
  moreover have "map_values n res z ?A = List.map (\<lambda>i. if sub i = None then fst (res i) else z) [0..<n]"
    by (auto simp: map_values_def map_events_def)
  moreover have "map_errors n sub res ?A = List.map (\<lambda>i. if sub i = None then snd (res i) else sub i) [0..<n]"
    by (auto simp: map_errors_def map_events_def)
  moreover have "map_result None ?b = None"
    if "i < n" "sub i = None" "MSubmit i None \<in> set evs" "MRan i (res i) \<notin> set evs" for i
  proof -
    have "i \<in> map_pending n sub res (set evs)" using that by (simp add: map_pending_def)
    then have "card (map_pending n sub res (set evs)) \<noteq> 0" by auto
    then show ?thesis by (simp add: map_result_def)
  qed
  ultimately show ?thesis
    using map_run_state [OF assms, of z] by (intro exI [of _ ?b]) (auto simp: map_result_def)
qed

definition ex_sub :: "nat \<Rightarrow> err option" where
  "ex_sub i = (if i = 1 then Some ErrQueueFull else None)"

definition ex_res :: "nat \<Rightarrow> nat \<times> err option" where
  "ex_res i = (10 * i + 5, if i = 2 then Some ErrTimeout else None)"

definition ex_map :: "nat map_event list" where
  "ex_map = [MSubmit 0 None, MSubmit 1 (Some ErrQueueFull), MSubmit 2 None, MRan 2 (ex_res 2), MRan 0 (ex_res 0)]"

text \<open>Three items, one refused; and the same items with a second attempt of the failed one.\<close>

theorem Map_in_place_witness:
  "(\<exists>b. map_run ex_map (new_batch 0 3) = Some b \<and>
     map_result None b = Some ([5, 0, 25], [None, Some ErrQueueFull, Some ErrTimeout], Some (Joined [ErrQueueFull, ErrTimeout]))) \<and>
   map_run (ex_map @ [MRan 2 (25, None)]) (new_batch 0 3) = None"
proof -
  have "map_events 3 ex_sub ex_res = set ex_map"
    by (auto simp: map_events_def ex_map_def ex_sub_def less_Suc_eq numeral_eq_Suc)
  moreover have "map_order 3 ex_sub ex_res ex_map" unfolding map_order_def
    by (intro conjI) (auto simp: map_events_def ex_map_def ex_sub_def ex_res_def Cons_eq_append_conv)
  ultimately obtain b where "map_run ex_map (new_batch 0 3) = Some b"
    "map_result None b = Some ([5, 0, 25], [None, Some ErrQueueFull, Some ErrTimeout], Some (Joined [ErrQueueFull, ErrTimeout]))"
    using Map_in_place [of 3 ex_sub ex_res ex_map 0 None]
    by (auto simp: upt_rec ex_sub_def ex_res_def errors_Join_def map_filter_def)
  moreover have "map_run (ex_map @ [MRan 2 (25, None)]) (new_batch 0 3) = None"
    by (simp add: ex_map_def new_batch_def map_submit_def map_closure_def wg_Done_def)
  ultimately show ?thesis by blast
qed

subsection \<open>Chains\<close>

record 's chain_builder =
  ch_jobs :: "'s run list"

definition Chain_Then :: "'s run \<Rightarrow> 's chain_builder \<Rightarrow> 's chain_builder" where
  "Chain_Then j c = c\<lparr>ch_jobs := ch_jobs c @ [j]\<rparr>"

text \<open>The closure \<open>Submit\<close> queues: before each job it looks at the context of the call of
  \<open>Submit\<close>; the first error ends it.\<close>

fun chain_run :: "('s \<Rightarrow> err option) \<Rightarrow> 's run list \<Rightarrow> 's run" where
  "chain_run ctx [] s = (None, s)"
| "chain_run ctx (j # js) s =
     (case ctx s of
        Some er \<Rightarrow> (Some er, s)
      | None \<Rightarrow> (case j s of (Some er, s') \<Rightarrow> (Some er, s') | (None, s') \<Rightarrow> chain_run ctx js s'))"

definition Chain_Submit :: "('s \<Rightarrow> err option) \<Rightarrow> 's chain_builder \<Rightarrow> 's run" where
  "Chain_Submit ctx c = chain_run ctx (ch_jobs c)"

text \<open>The states before each job when every job so far succeeded.\<close>

fun chain_states :: "'s run list \<Rightarrow> 's \<Rightarrow> 's list" where
  "chain_states [] s = [s]"
| "chain_states (j # js) s = s # chain_states js (snd (j s))"

lemma length_chain_states [simp]: "length (chain_states js s) = Suc (length js)"
  by (induction js arbitrary: s) auto

definition chain_ok :: "('s \<Rightarrow> err option) \<Rightarrow> 's run list \<Rightarrow> 's \<Rightarrow> nat \<Rightarrow> bool" where
  "chain_ok ctx js s i \<longleftrightarrow> ctx (chain_states js s ! i) = None \<and> fst ((js ! i) (chain_states js s ! i)) = None"

lemma chain_run_split:
  "chain_run ctx js s = (er, s') \<Longrightarrow>
   \<exists>n \<le> length js. (\<forall>i < n. chain_ok ctx js s i) \<and>
     (if er = None then n = length js \<and> s' = chain_states js s ! n
      else n < length js \<and>
        ((ctx (chain_states js s ! n) = er \<and> s' = chain_states js s ! n) \<or>
         (ctx (chain_states js s ! n) = None \<and> (js ! n) (chain_states js s ! n) = (er, s'))))"
proof (induction js arbitrary: s)
  case (Cons j js)
  show ?case
  proof (cases "ctx s = None \<and> fst (j s) = None")
    case True
    then have "chain_run ctx js (snd (j s)) = (er, s')"
      using Cons.prems by (cases "j s") simp
    from Cons.IH [OF this] obtain n where n: "n \<le> length js" "\<forall>i < n. chain_ok ctx js (snd (j s)) i"
      "if er = None then n = length js \<and> s' = chain_states js (snd (j s)) ! n
       else n < length js \<and>
         ((ctx (chain_states js (snd (j s)) ! n) = er \<and> s' = chain_states js (snd (j s)) ! n) \<or>
          (ctx (chain_states js (snd (j s)) ! n) = None \<and> (js ! n) (chain_states js (snd (j s)) ! n) = (er, s')))"
      by blast
    have "\<forall>i < Suc n. chain_ok ctx (j # js) s i"
    proof (intro allI impI)
      fix i assume "i < Suc n"
      then show "chain_ok ctx (j # js) s i" using n(2) True by (cases i) (simp_all add: chain_ok_def)
    qed
    with n show ?thesis by (intro exI [of _ "Suc n"]) simp
  next
    case False
    obtain er1 s1 where j: "j s = (er1, s1)" by fastforce
    have "er \<noteq> None \<and> ((ctx s = er \<and> s' = s) \<or> (ctx s = None \<and> j s = (er, s')))"
    proof (cases "ctx s")
      case None
      with False j obtain x where "er1 = Some x" by auto
      with Cons.prems None j have "er = Some x \<and> s1 = s'" by simp
      with None j \<open>er1 = Some x\<close> show ?thesis by simp
    next
      case (Some x)
      with Cons.prems have "er = Some x \<and> s' = s" by simp
      with Some show ?thesis by simp
    qed
    then show ?thesis by (intro exI [of _ 0]) simp
  qed
qed simp

text \<open>A chain runs its jobs one after the other, each in the state the one before left, and
  stops at the first error, of a job or of the context, with that error and without running any
  later job; it succeeds exactly when all its jobs do.\<close>

theorem Chain_stops_at_first_error:
  assumes "Chain_Submit ctx c s = (er, s')"
  shows "\<exists>n \<le> length (ch_jobs c). (\<forall>i < n. chain_ok ctx (ch_jobs c) s i) \<and>
    (if er = None then n = length (ch_jobs c) \<and> s' = chain_states (ch_jobs c) s ! n
     else n < length (ch_jobs c) \<and>
       ((ctx (chain_states (ch_jobs c) s ! n) = er \<and> s' = chain_states (ch_jobs c) s ! n) \<or>
        (ctx (chain_states (ch_jobs c) s ! n) = None \<and>
          (ch_jobs c ! n) (chain_states (ch_jobs c) s ! n) = (er, s'))))"
  by (rule chain_run_split [OF assms [unfolded Chain_Submit_def]])

definition ex_chain :: "nat list chain_builder" where
  "ex_chain = Chain_Then (\<lambda>l. (None, l @ [3])) (Chain_Then (\<lambda>l. (Some ErrTimeout, l @ [2]))
     (Chain_Then (\<lambda>l. (None, l @ [1])) \<lparr>ch_jobs = []\<rparr>))"

theorem Chain_stops_at_first_error_witness:
  "Chain_Submit (\<lambda>_. None) ex_chain [] = (Some ErrTimeout, [1, 2]) \<and>
   (\<exists>n < 3. (\<forall>i < n. chain_ok (\<lambda>_. None) (ch_jobs ex_chain) [] i) \<and>
     (ch_jobs ex_chain ! n) (chain_states (ch_jobs ex_chain) [] ! n) = (Some ErrTimeout, [1, 2]))"
proof
  show run: "Chain_Submit (\<lambda>_. None) ex_chain [] = (Some ErrTimeout, [1, 2])"
    by (simp add: Chain_Submit_def ex_chain_def Chain_Then_def)
  have "length (ch_jobs ex_chain) = 3" by (simp add: ex_chain_def Chain_Then_def)
  then show "\<exists>n < 3. (\<forall>i < n. chain_ok (\<lambda>_. None) (ch_jobs ex_chain) [] i) \<and>
     (ch_jobs ex_chain ! n) (chain_states (ch_jobs ex_chain) [] ! n) = (Some ErrTimeout, [1, 2])"
    using Chain_stops_at_first_error [OF run] by simp blast
qed

subsection \<open>WhenAll\<close>

text \<open>The closure of \<open>WhenAll\<close>: every job runs in a goroutine of its own and sends its result;
  the results are received in the order they arrive, the first error returns at once, and the next
  job runs after as many nils as there are jobs.  \<open>None\<close>: still receiving.\<close>

fun whenall_receive :: "nat \<Rightarrow> err option list \<Rightarrow> err option option" where
  "whenall_receive 0 arrivals = Some None"
| "whenall_receive (Suc n) [] = None"
| "whenall_receive (Suc n) (er # arrivals) =
     (case er of Some x \<Rightarrow> Some (Some x) | None \<Rightarrow> whenall_receive n arrivals)"

definition whenall_run :: "nat \<Rightarrow> err option list \<Rightarrow> 's run option \<Rightarrow> 's \<Rightarrow> (err option \<times> 's) option" where
  "whenall_run n arrivals next s =
     (case whenall_receive n arrivals of
        None \<Rightarrow> None
      | Some (Some er) \<Rightarrow> Some (Some er, s)
      | Some None \<Rightarrow> Some (case next of None \<Rightarrow> (None, s) | Some j \<Rightarrow> j s))"

lemma whenall_receive_iff:
  "whenall_receive n arrivals =
     (case List.map_filter id (take n arrivals) of
        [] \<Rightarrow> if n \<le> length arrivals then Some None else None
      | er # _ \<Rightarrow> Some (Some er))"
  by (induction n arrivals rule: whenall_receive.induct) (auto simp: map_filter_simps split: option.split)

text \<open>In whatever order the jobs end, the next job runs exactly when all of them succeeded, once
  all have ended; otherwise the result is the error of the first that failed in that order, and it
  is returned without waiting for the jobs behind it.\<close>

theorem WhenAll_order:
  assumes "mset arrivals = mset results" "length results = n"
  shows "((\<forall>er \<in> set results. er = None) \<longrightarrow>
      whenall_run n arrivals next s = Some (case next of None \<Rightarrow> (None, s) | Some j \<Rightarrow> j s)) \<and>
    (\<forall>pre x rest. arrivals = pre @ Some x # rest \<and> (\<forall>er \<in> set pre. er = None) \<longrightarrow>
      Some x \<in> set results \<and> whenall_run n (pre @ [Some x]) next s = Some (Some x, s))"
proof -
  have len: "length arrivals = n" and set_eq: "set arrivals = set results"
    using assms by (metis size_mset, metis set_mset_mset)
  have nil: "List.map_filter id xs = []" if "\<forall>er \<in> set xs. er = None" for xs :: "err option list"
    using that by (induction xs) (auto simp: map_filter_simps)
  have app: "List.map_filter id (xs @ Some x # ys) = x # List.map_filter id ys"
    if "\<forall>er \<in> set xs. er = None" for xs ys and x :: err
    using that by (induction xs) (auto simp: map_filter_simps)
  show ?thesis
    using len set_eq nil [of arrivals] app [where ys = "[]"]
    by (auto simp: whenall_run_def whenall_receive_iff split: list.split)
qed

theorem WhenAll_order_witness:
  "whenall_run 3 [None, None, None] (Some (\<lambda>s. (Some ErrTimeout, s + 1))) (0 :: nat) = Some (Some ErrTimeout, 1) \<and>
   whenall_run 3 [None, Some ErrClosed] (Some (\<lambda>s. (None, s + 1))) (0 :: nat) = Some (Some ErrClosed, 0)"
  using WhenAll_order [of "[None, None, None]" "[None, None, None]" 3 "Some (\<lambda>s. (Some ErrTimeout, s + 1))" "0 :: nat"]
    WhenAll_order [of "[None, Some ErrClosed, Some ErrTimeout]" "[Some ErrClosed, Some ErrTimeout, None]" 3 "Some (\<lambda>s. (None, s + 1))" "0 :: nat"]
  by (auto dest: spec [of _ "[None]"])

end
