(* ===== verification/Middleware_Jobs.thy ===== *)
theory Middleware_Jobs
  imports Job_Model
begin

text \<open>
  The middleware of \<open>middleware.go\<close> and the jobs \<open>Chain\<close> of \<open>hooks.go\<close> makes with it.

  A job runs in a context and in a state \<open>'s\<close> of the application.  Of a context the model keeps the
  deadline and the metadata, which is what these functions put there; \<open>context.WithTimeout\<close>
  keeps an earlier deadline of its parent.  The clock is read from the state.
\<close>

record rctx =
  rx_deadline :: "time option"
  rx_metadata :: "metadata option"

type_synonym 's cjob = "rctx \<Rightarrow> 's \<Rightarrow> err option \<times> 's"

definition WithTimeout :: "time \<Rightarrow> duration \<Rightarrow> rctx \<Rightarrow> rctx" where
  "WithTimeout now d c = c\<lparr>rx_deadline := Some (case rx_deadline c of None \<Rightarrow> now + d | Some t \<Rightarrow> min t (now + d))\<rparr>"

definition Timeout_middleware :: "('s \<Rightarrow> time) \<Rightarrow> duration \<Rightarrow> 's cjob \<Rightarrow> 's cjob" where
  "Timeout_middleware clock d next c s = (if d \<le> 0 then next c s else next (WithTimeout (clock s) d c) s)"

text \<open>\<open>Logger\<close>; \<open>logf\<close> prints the duration and the error, if there is one.\<close>

definition Logger_middleware :: "('s \<Rightarrow> time) \<Rightarrow> (duration \<Rightarrow> err option \<Rightarrow> 's \<Rightarrow> 's) \<Rightarrow> 's cjob \<Rightarrow> 's cjob" where
  "Logger_middleware clock logf next c s =
     (let start = clock s
      in case next c s of (er, s') \<Rightarrow> (er, logf (clock s' - start) er s'))"

definition WithMetadata_middleware :: "metadata \<Rightarrow> 's cjob \<Rightarrow> 's cjob" where
  "WithMetadata_middleware md next c s = next (c\<lparr>rx_metadata := Some (cloneMetadata md)\<rparr>) s"

definition MetadataFromContext :: "rctx \<Rightarrow> metadata" where
  "MetadataFromContext c = (case rx_metadata c of None \<Rightarrow> [] | Some md \<Rightarrow> md)"

text \<open>What a job does, given what the application's jobs and the middlewares do.\<close>

fun job_run :: "(nat \<Rightarrow> 's cjob \<Rightarrow> 's cjob) \<Rightarrow> (job \<Rightarrow> 's cjob) \<Rightarrow> job \<Rightarrow> 's cjob" where
  "job_run mws base (WrappedJob m j) = mws m (job_run mws base j)"
| "job_run mws base j = base j"

lemma job_run_Chain: "job_run mws base (Chain ms j) = foldr mws ms (job_run mws base j)"
  by (induction ms) (simp_all add: Chain_def)

text \<open>A job behind any number of timeouts sees a deadline no later than each of them allows.\<close>

lemma timeout_bounds:
  assumes "(foldr (Timeout_middleware clock) ds (\<lambda>c s. (None, c))) c s = (er, c')" "d \<in> set ds" "0 < d"
  shows "\<exists>t. rx_deadline c' = Some t \<and> t \<le> clock s + d"
proof -
  have run: "\<exists>c'. foldr (Timeout_middleware clock) ds (\<lambda>c s. (None, c)) c s = (None, c') \<and>
      (\<forall>t0. rx_deadline c = Some t0 \<longrightarrow> (\<exists>t. rx_deadline c' = Some t \<and> t \<le> t0)) \<and>
      (\<forall>d \<in> set ds. 0 < d \<longrightarrow> (\<exists>t. rx_deadline c' = Some t \<and> t \<le> clock s + d))" for c
  proof (induction ds arbitrary: c)
    case (Cons d ds)
    show ?case
    proof (cases "d \<le> 0")
      case True
      with Cons.IH [of c] show ?thesis by (auto simp: Timeout_middleware_def)
    next
      case False
      let ?c = "WithTimeout (clock s) d c"
      obtain t1 where t1: "rx_deadline ?c = Some t1" "t1 \<le> clock s + d" "\<And>t0. rx_deadline c = Some t0 \<Longrightarrow> t1 \<le> t0"
        by (cases "rx_deadline c") (auto simp: WithTimeout_def)
      from Cons.IH [of ?c] t1 False show ?thesis by (simp add: Timeout_middleware_def) (meson order_trans)
    qed
  qed simp
  from run [of c] assms show ?thesis by auto
qed

end
