(* ===== verification/Pool_Observe.thy ===== *)
theory Pool_Observe
  imports Go_Strings Worker_Loop
begin

text \<open>
  Watching a pool: the waiting calls of \<open>control.go\<close>, the metrics of \<open>prometheus.go\<close> and the explanation of \<open>usability.go\<close>.
\<close>

subsection \<open>Waiting\<close>

text \<open>The test of \<open>WaitIdle\<close>: the lengths of the four queues in the order of \<open>QueueDepth\<close>, then the busy
  counter, each read by itself; \<open>g i\<close> is what the others do after the read \<open>i\<close>.\<close>

definition idle :: "(nat \<Rightarrow> pool \<Rightarrow> pool) \<Rightarrow> pool \<Rightarrow> bool \<times> pool" where
  "idle g p =
     (let n = PQ_Len (p_q p); p = g 0 p;
          n = n + FIFO_Len (p_fastq p); p = g 1 p;
          n = n + FIFO_Len (p_basicq p); p = g 2 p;
          n = n + SpillDepth p; p = g 3 p
      in (n = 0 \<and> k_busy (p_c p) = 0, p))"

text \<open>A round of \<open>WaitIdle\<close>: the gaps of its test, the error of the caller's context when the select
  takes that branch, otherwise what the others do until the next tick.  \<open>None\<close>: it still waits.\<close>

type_synonym idle_round = "(nat \<Rightarrow> pool \<Rightarrow> pool) \<times> err option \<times> (pool \<Rightarrow> pool)"

fun WaitIdle :: "idle_round list \<Rightarrow> pool \<Rightarrow> (err option \<times> pool) option" where
  "WaitIdle [] p = None"
| "WaitIdle ((g, ctxErr, others) # rs) p =
     (case idle g p of
        (True, p) \<Rightarrow> Some (None, p)
      | (False, p) \<Rightarrow> (case ctxErr of Some er \<Rightarrow> Some (Some er, p) | None \<Rightarrow> WaitIdle rs (others p)))"

text \<open>\<open>Wait\<close> returns when the wait group of the workers is zero, or with the error of the context.\<close>

definition Wait :: "(pool \<Rightarrow> pool) \<Rightarrow> err \<Rightarrow> pool \<Rightarrow> err option \<times> pool" where
  "Wait others ctxErr p = (let p = others p in (if p_workers p = 0 then None else Some ctxErr, p))"

text \<open>\<open>RunAll\<close> and \<open>WaitForJobs\<close> of the test pool.\<close>

definition RunAll :: "idle_round list \<Rightarrow> pool \<Rightarrow> (err option \<times> pool) option" where
  "RunAll rs p = WaitIdle rs p"

fun WaitForJobs :: "(err option \<times> (pool \<Rightarrow> pool)) list \<Rightarrow> 64 word \<Rightarrow> pool \<Rightarrow> (err option \<times> pool) option" where
  "WaitForJobs [] n p = (if n \<le> k_completed (p_c p) then Some (None, p) else None)"
| "WaitForJobs ((ctxErr, others) # rs) n p =
     (if n \<le> k_completed (p_c p) then Some (None, p)
      else case ctxErr of Some er \<Rightarrow> Some (Some er, p) | None \<Rightarrow> WaitForJobs rs n (others p))"

subsection \<open>Metrics\<close>

definition is_letter :: "char \<Rightarrow> bool" where
  "is_letter c \<longleftrightarrow> (97 \<le> rune c \<and> rune c \<le> 122) \<or> (65 \<le> rune c \<and> rune c \<le> 90)"

definition sanitize_rune :: "bool \<Rightarrow> char \<Rightarrow> char" where
  "sanitize_rune later c =
     (if is_letter c \<or> c = CHR ''_'' \<or> (later \<and> is_digit c) then c else CHR ''_'')"

definition sanitizeMetricName :: "string \<Rightarrow> string" where
  "sanitizeMetricName s =
     (case s of
        [] \<Rightarrow> ''fastworker''
      | c # cs \<Rightarrow> sanitize_rune False c # List.map (sanitize_rune True) cs)"

definition FormatInt :: "int \<Rightarrow> string" where
  "FormatInt n = (if n < 0 then CHR ''-'' # digits (nat (- n)) else digits (nat n))"

text \<open>The metrics in their order, with what \<open>%v\<close> prints.\<close>

definition metrics :: "env \<Rightarrow> time \<Rightarrow> pool \<Rightarrow> (string \<times> string) list" where
  "metrics e now p =
     (let s = Stats now p; c = st_counters s
      in [(''submitted_total'', FormatUint (k_submitted c)),
          (''accepted_total'', FormatUint (k_accepted c)),
          (''rejected_total'', FormatUint (k_rejected c)),
          (''started_total'', FormatUint (k_started c)),
          (''completed_total'', FormatUint (k_completed c)),
          (''failed_total'', FormatUint (k_failed c)),
          (''retried_total'', FormatUint (k_retried c)),
          (''panicked_total'', FormatUint (k_panicked c)),
          (''timed_out_total'', FormatUint (k_timedout c)),
          (''dead_lettered_total'', FormatUint (k_dlq c)),
          (''rate_delayed_total'', FormatUint (k_rateDelayed c)),
          (''queue_depth'', FormatInt (st_QueueDepth s)),
          (''workers'', FormatInt (st_Workers s)),
          (''busy_workers'', FormatInt (st_BusyWorkers s)),
          (''uptime_seconds'', FormatInt (f64_to_int64 (e_oob e) (Seconds (st_Uptime s)))),
          (''state'', FormatInt (int (state_num (p_state p))))])"

definition metric_line :: "string \<Rightarrow> string \<times> string \<Rightarrow> string" where
  "metric_line name m = name @ ''_'' @ fst m @ '' '' @ snd m"

definition Prometheus :: "env \<Rightarrow> time \<Rightarrow> pool \<Rightarrow> string" where
  "Prometheus e now p =
     concat (List.map (\<lambda>m. metric_line (sanitizeMetricName (c_Name (p_cfg p))) m @ [CHR 0x0A]) (metrics e now p))"

definition ExplainSaturation :: "time \<Rightarrow> pool \<Rightarrow> string" where
  "ExplainSaturation now p =
     (let d = Diagnose now p
      in if \<not> dg_Saturated d then ''Pool is healthy: '' @ dg_Recommendation d
         else ''Pool is saturated: state='' @ dg_State d @ '' queue='' @ FormatInt (dg_QueueDepth d) @ ''/''
           @ FormatInt (dg_QueueCapacity d) @ '' busy='' @ FormatInt (dg_BusyWorkers d) @ ''/''
           @ FormatInt (dg_Workers d) @ ''. Recommendation: '' @ dg_Recommendation d)"

text \<open>A valid name of a Prometheus metric.\<close>

definition metric_name :: "string \<Rightarrow> bool" where
  "metric_name s \<longleftrightarrow> s \<noteq> [] \<and> (is_letter (hd s) \<or> hd s = CHR ''_'') \<and>
     list_all (\<lambda>c. is_letter c \<or> c = CHR ''_'' \<or> is_digit c) s"

lemma sanitize_ok: "metric_name (sanitizeMetricName s)"
  by (cases s) (auto simp: sanitizeMetricName_def metric_name_def sanitize_rune_def list_all_iff is_letter_def rune_def)

lemma sanitize_id: "metric_name s \<Longrightarrow> sanitizeMetricName s = s"
  by (cases s) (auto simp: sanitizeMetricName_def metric_name_def sanitize_rune_def list_all_iff intro!: map_idI)

lemma metric_name_append: "metric_name s \<Longrightarrow> list_all (\<lambda>c. is_letter c \<or> c = CHR ''_'' \<or> is_digit c) t \<Longrightarrow> metric_name (s @ t)"
  by (auto simp: metric_name_def)

lemma Split_concat:
  "(\<And>m. m \<in> set ms \<Longrightarrow> sep \<notin> set (f m)) \<Longrightarrow> Split sep (concat (List.map (\<lambda>m. f m @ [sep]) ms)) = List.map f ms @ [[]]"
  by (induction ms) (simp_all add: Split_append)

lemma FormatInt_no_break: "CHR 0x0A \<notin> set (FormatInt n)" "CHR 0x0A \<notin> set (FormatUint w)"
proof -
  have "CHR 0x0A \<notin> set (digits k)" for k
    using digits_all [of k] by (auto simp: list_all_iff is_digit_def rune_def)
  then show "CHR 0x0A \<notin> set (FormatInt n)" "CHR 0x0A \<notin> set (FormatUint w)"
    by (simp_all add: FormatInt_def FormatUint_def)
qed

text \<open>The metrics page is well formed whatever the pool is called: it has exactly one line per
  metric, each a valid metric name, a space and the value; a name that is valid already is printed as
  it is, and no name can add a line.\<close>

theorem Prometheus_lines:
  "Split (CHR 0x0A) (Prometheus e now p) =
     List.map (metric_line (sanitizeMetricName (c_Name (p_cfg p)))) (metrics e now p) @ [[]] \<and>
   length (metrics e now p) = 16 \<and>
   list_all (\<lambda>m. metric_name (sanitizeMetricName (c_Name (p_cfg p)) @ ''_'' @ fst m)) (metrics e now p) \<and>
   (metric_name (c_Name (p_cfg p)) \<longrightarrow> sanitizeMetricName (c_Name (p_cfg p)) = c_Name (p_cfg p))"
proof (intro conjI impI)
  let ?n = "sanitizeMetricName (c_Name (p_cfg p))"
  have "CHR 0x0A \<notin> set ?n"
    using sanitize_ok [of "c_Name (p_cfg p)"] by (auto simp: metric_name_def list_all_iff is_letter_def is_digit_def rune_def)
  moreover have "CHR 0x0A \<notin> set (fst m) \<and> CHR 0x0A \<notin> set (snd m)" if "m \<in> set (metrics e now p)" for m
    using that by (auto simp: metrics_def Let_def FormatInt_no_break)
  ultimately have "CHR 0x0A \<notin> set (metric_line ?n m)" if "m \<in> set (metrics e now p)" for m
    using that by (simp add: metric_line_def)
  then show "Split (CHR 0x0A) (Prometheus e now p) = List.map (metric_line ?n) (metrics e now p) @ [[]]"
    unfolding Prometheus_def by (intro Split_concat)
  show "length (metrics e now p) = 16" by (simp add: metrics_def Let_def)
  show "list_all (\<lambda>m. metric_name (?n @ ''_'' @ fst m)) (metrics e now p)"
    by (simp add: metrics_def Let_def metric_name_append sanitize_ok is_letter_def is_digit_def rune_def)
qed (rule sanitize_id)

theorem Prometheus_lines_witness:
  "sanitizeMetricName ''fast_worker2'' = ''fast_worker2'' \<and> sanitizeMetricName (''2 x'' @ [CHR 0x0A] @ ''fake 1'') = ''__x_fake_1'' \<and>
   last (Split (CHR 0x0A) (Prometheus ex_env 0 ex_pool)) = []"
  using Prometheus_lines [of ex_env 0 "ex_pool\<lparr>p_cfg := (p_cfg ex_pool)\<lparr>c_Name := ''fast_worker2''\<rparr>\<rparr>"]
    Prometheus_lines [of ex_env 0 ex_pool]
  by (simp add: metric_name_def is_letter_def is_digit_def rune_def sanitizeMetricName_def sanitize_rune_def)

subsection \<open>What WaitIdle promises\<close>

definition idle_by_steps :: "idle_round \<Rightarrow> bool" where
  "idle_by_steps r \<longleftrightarrow> (case r of (g, _, others) \<Rightarrow> (\<forall>i. by_steps (g i)) \<and> by_steps others)"

text \<open>What the test saw: each queue empty at a moment of its own, the last of them before the counter.\<close>

definition seen_empty :: "pool \<Rightarrow> pool \<Rightarrow> bool" where
  "seen_empty p p' \<longleftrightarrow> (\<exists>q1 q2 q3 q4. pool_step\<^sup>*\<^sup>* p q1 \<and> pool_step\<^sup>*\<^sup>* q1 q2 \<and> pool_step\<^sup>*\<^sup>* q2 q3 \<and> pool_step\<^sup>*\<^sup>* q3 q4 \<and> pool_step\<^sup>*\<^sup>* q4 p' \<and>
     pq_items (p_q q1) = [] \<and> fq_len (p_fastq q2) = 0 \<and> fq_len (p_basicq q3) = 0 \<and> p_spill q4 = [])"

lemma seen_empty_from: "pool_step\<^sup>*\<^sup>* p q \<Longrightarrow> seen_empty q p' \<Longrightarrow> seen_empty p p'"
  unfolding seen_empty_def by (meson rtranclp_trans)

lemma idle_seen:
  assumes "idle g p = (True, p')" "\<forall>i. by_steps (g i)"
  shows "seen_empty p p' \<and> k_busy (p_c p') = 0"
proof -
  define q2 where "q2 = g 0 p"
  define q3 where "q3 = g 1 q2"
  define q4 where "q4 = g 2 q3"
  have "PQ_Len (p_q p) + FIFO_Len (p_fastq q2) + FIFO_Len (p_basicq q3) + SpillDepth q4 = 0" and p': "p' = g 3 q4" "k_busy (p_c p') = 0"
    using assms(1) by (auto simp: idle_def q2_def q3_def q4_def Let_def)
  then have "int (length (pq_items (p_q p))) + int (fq_len (p_fastq q2)) + int (fq_len (p_basicq q3)) + int (length (p_spill q4)) = 0"
    by (simp add: PQ_Len_def FIFO_Len_def SpillDepth_def)
  then have "length (pq_items (p_q p)) = 0" "fq_len (p_fastq q2) = 0" "fq_len (p_basicq q3) = 0" "length (p_spill q4) = 0"
    by linarith+
  moreover have "pool_step\<^sup>*\<^sup>* p q2" "pool_step\<^sup>*\<^sup>* q2 q3" "pool_step\<^sup>*\<^sup>* q3 q4" "pool_step\<^sup>*\<^sup>* q4 p'"
    using assms(2) by (simp_all add: q2_def q3_def q4_def p'(1) by_steps_def)
  ultimately show ?thesis using p'(2) unfolding seen_empty_def
    by (intro conjI exI [of _ p] exI [of _ q2] exI [of _ q3] exI [of _ q4]) simp_all
qed

lemma idle_steps: "idle g p = (b, p') \<Longrightarrow> \<forall>i. by_steps (g i) \<Longrightarrow> pool_step\<^sup>*\<^sup>* p p'"
proof -
  assume "idle g p = (b, p')" "\<forall>i. by_steps (g i)"
  then have "p' = g 3 (g 2 (g 1 (g 0 p)))" by (simp add: idle_def Let_def)
  with \<open>\<forall>i. by_steps (g i)\<close> show ?thesis by (simp add: then_by)
qed

lemma WaitIdle_seen:
  "WaitIdle rs p = Some (None, p') \<Longrightarrow> \<forall>r \<in> set rs. idle_by_steps r \<Longrightarrow> seen_empty p p' \<and> k_busy (p_c p') = 0"
proof (induction rs arbitrary: p)
  case (Cons r rs)
  obtain g er f where r: "r = (g, er, f)" by (cases r)
  obtain b q where q: "idle g p = (b, q)" by fastforce
  have g: "\<forall>i. by_steps (g i)" "by_steps f" using Cons.prems(2) by (simp_all add: r idle_by_steps_def)
  show ?case
  proof (cases b)
    case True
    with Cons.prems(1) r q idle_seen [OF _ g(1)] show ?thesis by simp
  next
    case False
    with Cons.prems(1) r q have "WaitIdle rs (f q) = Some (None, p')" by (auto split: option.splits)
    with Cons.IH Cons.prems(2) have "seen_empty (f q) p' \<and> k_busy (p_c p') = 0" by simp
    with seen_empty_from [OF then_by [OF idle_steps [OF q g(1)] g(2)]] show ?thesis by simp
  qed
qed simp

text \<open>Without interference in the test all were empty at once.\<close>

lemma WaitIdle_still:
  "WaitIdle rs p = Some (None, p') \<Longrightarrow> \<forall>(g, _) \<in> set rs. \<forall>i q. g i q = q \<Longrightarrow> inside p' = length (p_inflight p') + p_basicTaken p' + p_basicRunning p'"
proof (induction rs arbitrary: p)
  case (Cons r rs)
  obtain g er f where r: "r = (g, er, f)" by (cases r)
  have g: "g i q = q" for i q using Cons.prems(2) by (simp add: r)
  obtain b q where q: "idle g p = (b, q)" by fastforce
  show ?case
  proof (cases b)
    case True
    with Cons.prems(1) r q have p': "q = p'" by simp
    have "int (length (pq_items (p_q p'))) + int (fq_len (p_fastq p')) + int (fq_len (p_basicq p')) + int (length (p_spill p')) = 0"
      using q True by (auto simp: idle_def g Let_def p' PQ_Len_def FIFO_Len_def SpillDepth_def)
    then have "length (pq_items (p_q p')) = 0" "fq_len (p_fastq p') = 0" "fq_len (p_basicq p') = 0" "length (p_spill p') = 0"
      by linarith+
    then show ?thesis by (simp add: inside_def)
  next
    case False
    with Cons.prems r q Cons.IH [of "f q"] show ?thesis by (auto split: option.splits)
  qed
qed simp

text \<open>C37. \<open>WaitIdle\<close> reads the four queues and the busy counter one after the other.  When it returns nil
  no job runs at that moment, and each queue was empty when it was read - but not all at once: a job
  that moves meanwhile, such as a running one that fails and is queued again, can be in a queue that
  was read before, and one a worker has taken and not begun is in none.  When nothing happens between
  the reads, every accepted job has ended except those some goroutine holds.\<close>

theorem WaitIdle_misses_held:
  assumes "pool_step\<^sup>*\<^sup>* (New e c opts) p" "WaitIdle rs p = Some (None, p')" "\<forall>r \<in> set rs. idle_by_steps r"
  shows "seen_empty p p' \<and> p_running p' = [] \<and> p_basicRunning p' = 0 \<and>
    k_accepted (p_c p') = of_nat (inside p') + k_completed (p_c p') + k_dlq (p_c p') + p_gone p' \<and>
    ((\<forall>(g, _) \<in> set rs. \<forall>i q. g i q = q) \<longrightarrow> inside p' = length (p_inflight p') + p_basicTaken p')"
proof -
  have seen: "seen_empty p p'" "k_busy (p_c p') = 0" using WaitIdle_seen [OF assms(2,3)] by simp_all
  then have "pool_step\<^sup>*\<^sup>* p p'" unfolding seen_empty_def by (meson rtranclp_trans)
  with assms(1) have "pool_step\<^sup>*\<^sup>* (New e c opts) p'" by (rule rtranclp_trans)
  note r = reachable_sound [OF this]
  from r(3) seen(2) have run: "p_running p' = []" "p_basicRunning p' = 0" by (auto simp: busy_gap_def)
  with seen(1) r(2) WaitIdle_still [OF assms(2)] show ?thesis by (simp add: balance_def algebra_simps)
qed

text \<open>A job that fails and is queued again between the first two reads.\<close>

definition ex_race :: "nat \<Rightarrow> pool \<Rightarrow> pool" where
  "ex_race i q =
     (if i = 0 \<and> 0 \<in> set (p_inflight q) \<and> 0 \<in> set (p_running q)
      then (case execute_finish ex_env [] 1 0 \<lparr>re_outcome = Returned (Some (Errorf ''later'')), re_deadline = False, re_deadlineFirst = False\<rparr> q of
              None \<Rightarrow> q | Some q' \<Rightarrow> q')
      else q)"

lemma ex_race_steps: "by_steps (ex_race i)"
proof -
  have "rely_rounds 0 []" by (simp add: rely_rounds_def)
  then show ?thesis by (auto simp: by_steps_def ex_race_def intro!: r_into_rtranclp Finish split: option.splits)
qed

definition raced :: "pool \<Rightarrow> bool" where
  "raced r \<longleftrightarrow> (case idle ex_race r of (t, s) \<Rightarrow> t \<and> inside s = 1 \<and> List.map it_Value (pq_items (p_q s)) = [0])"

theorem WaitIdle_misses_held_witness:
  "(\<exists>q :: pool. WaitIdle [(\<lambda>_ p. p, None, \<lambda>p. p)] q = Some (None, q) \<and> inside q = 1 \<and> p_running q = [] \<and> p_inflight q = [0]) \<and>
   (\<exists>r q :: pool. WaitIdle [(ex_race, None, \<lambda>p. p)] r = Some (None, q) \<and> inside q = 1 \<and> p_running q = [] \<and>
      List.map it_Value (pq_items (p_q q)) = [0])"
proof -
  let ?opt = "no_options\<lparr>o_MaxAttempts := 3, o_Backoff := Some (ConstantBackoff 500)\<rparr>"
  let ?still = "\<lambda>_ p. p :: pool" and ?id = "\<lambda>p. p :: pool"
  have "case submit ex_env [] [] (Some (UserJob 1)) None [?opt] ex_pool of
      None \<Rightarrow> False
    | Some (res, p) \<Rightarrow> (case worker_poll 5000 p of (w, q) \<Rightarrow> fst (idle ?still q) \<and> p_inflight q = [0] \<and> p_running q = [] \<and> inside q = 1 \<and>
        (case execute_begin ex_env [] 0 q of
           None \<Rightarrow> False
         | Some (b, r) \<Rightarrow> p_running r = [0] \<and> raced r))"
    by code_simp
  then obtain res p w q b r where s: "submit ex_env [] [] (Some (UserJob 1)) None [?opt] ex_pool = Some (res, p)"
    "worker_poll 5000 p = (w, q)" "fst (idle ?still q)" "p_inflight q = [0]" "p_running q = []" "inside q = 1"
    "execute_begin ex_env [] 0 q = Some (b, r)" "raced r"
    by (auto split: option.splits prod.splits)
  from s(8) obtain s where i: "idle ex_race r = (True, s)" "inside s = 1" "List.map it_Value (pq_items (p_q s)) = [0]"
    by (auto simp: raced_def split: prod.splits)
  have "pool_step ex_pool p" "pool_step p q" "pool_step q r"
    by (rule Submit [OF no_rounds s(1)], rule Poll [OF s(2)], rule Begin [OF _ _ _ s(7)]) (simp_all add: s(4,5) rely_rounds_def)
  then have reach: "pool_step\<^sup>*\<^sup>* (New ex_env ex_config []) q" "pool_step\<^sup>*\<^sup>* (New ex_env ex_config []) r"
    using ex_pool_reach by (meson rtranclp.simps)+
  have w: "WaitIdle [(?still, None, ?id)] q = Some (None, q)" "WaitIdle [(ex_race, None, ?id)] r = Some (None, s)"
    using s(3) i(1) by (simp add: idle_def Let_def, simp)
  have st: "\<forall>r \<in> set [(?still, None, ?id)]. idle_by_steps r" "\<forall>r \<in> set [(ex_race, None, ?id)]. idle_by_steps r"
    using ex_race_steps by (simp_all add: idle_by_steps_def by_steps_def)
  have run: "p_running q = []" "p_running s = []"
    using WaitIdle_misses_held [OF reach(1) w(1) st(1)] WaitIdle_misses_held [OF reach(2) w(2) st(2)] by blast+
  show ?thesis
    by (intro conjI exI [of _ q] exI [of _ r] exI [of _ s] w run) (rule s i)+
qed

end
