(* ===== verification/Http_Surface.thy ===== *)
theory Http_Surface
  imports Pool_Observe Scheduler
begin

text \<open>
  The HTTP side of a pool: \<open>AdminServer\<close> of \<open>admin.go\<close> and \<open>HTTPMiddleware\<close> of
  \<open>usability.go\<close>.

  A request is its method, its cleaned path and its \<open>Authorization\<close> header; the multiplexer sends
  an exact pattern to its handler, \<open>/jobs/\<close> and what is below it to \<open>job\<close>, anything else to a
  404.  A response is its status and its body, without a final line break; a body that \<open>encoding/json\<close> prints is the value
  printed.
\<close>

record request =
  rq_method :: string
  rq_path :: string
  rq_auth :: string

datatype body =
    Text string | JStats stats | JJobs "JobInfo list" | JJob JobInfo | JDead "JobOptions list"
  | JOk | JCancelled bool | JReplayed int "string option" | JPurged int | JAccepted string

type_synonym response = "int \<times> body"

abbreviation (input) StatusOK :: int where "StatusOK \<equiv> 200"
abbreviation (input) StatusAccepted :: int where "StatusAccepted \<equiv> 202"
abbreviation (input) StatusUnauthorized :: int where "StatusUnauthorized \<equiv> 401"
abbreviation (input) StatusNotFound :: int where "StatusNotFound \<equiv> 404"
abbreviation (input) StatusMethodNotAllowed :: int where "StatusMethodNotAllowed \<equiv> 405"
abbreviation (input) StatusConflict :: int where "StatusConflict \<equiv> 409"
abbreviation (input) StatusServiceUnavailable :: int where "StatusServiceUnavailable \<equiv> 503"

definition NotFound :: response where
  "NotFound = (StatusNotFound, Text ''404 page not found'')"

subsection \<open>Handlers\<close>

definition method_error :: response where
  "method_error = (StatusMethodNotAllowed, Text ''method not allowed'')"

definition writeErr :: "err option \<Rightarrow> response" where
  "writeErr er = (case er of Some x \<Rightarrow> (StatusConflict, Text (Error_text x)) | None \<Rightarrow> (StatusOK, JOk))"

definition admin_ready :: "pool \<Rightarrow> response" where
  "admin_ready p =
     (if \<not> (p_state p = stateRunning \<or> p_state p = statePaused) then (StatusServiceUnavailable, Text ''not ready'')
      else (StatusOK, Text ''ready''))"

text \<open>\<open>pause\<close>, \<open>resume\<close> and \<open>terminate\<close>; the list is what the others do in the loop of
  \<open>Pause\<close> and \<open>Resume\<close>.\<close>

definition admin_pause :: "env \<Rightarrow> (pool \<Rightarrow> pool) list \<Rightarrow> request \<Rightarrow> pool \<Rightarrow> response \<times> pool" where
  "admin_pause e rs r p =
     (if rq_method r \<noteq> ''POST'' then (method_error, p)
      else case Pause e rs p of (er, p') \<Rightarrow> (writeErr er, p'))"

definition admin_resume :: "env \<Rightarrow> (pool \<Rightarrow> pool) list \<Rightarrow> request \<Rightarrow> pool \<Rightarrow> response \<times> pool" where
  "admin_resume e rs r p =
     (if rq_method r \<noteq> ''POST'' then (method_error, p)
      else case Resume e rs p of (er, p') \<Rightarrow> (writeErr er, p'))"

definition admin_terminate :: "env \<Rightarrow> request \<Rightarrow> pool \<Rightarrow> response \<times> pool" where
  "admin_terminate e r p =
     (if rq_method r \<noteq> ''POST'' then (method_error, p) else (writeErr None, Terminate e p))"

definition admin_job :: "env \<Rightarrow> request \<Rightarrow> pool \<Rightarrow> response \<times> pool" where
  "admin_job e r p =
     (let i = TrimPrefix (rq_path r) ''/jobs/''
      in if i = '''' then (NotFound, p)
         else if HasSuffix i ''/cancel'' then
           (if rq_method r \<noteq> ''POST'' then (method_error, p)
            else case CancelJob e (TrimSuffix i ''/cancel'') p of (ok, p') \<Rightarrow> ((StatusOK, JCancelled ok), p'))
         else case InspectJob i p of
           None \<Rightarrow> (NotFound, p)
         | Some ji \<Rightarrow> ((StatusOK, JJob ji), p))"

definition admin_replay :: "env \<Rightarrow> request \<Rightarrow> pool \<Rightarrow> response \<times> pool" where
  "admin_replay e r p =
     (if rq_method r \<noteq> ''POST'' then (method_error, p)
      else case ReplayDeadLetters e p of ((n, er), p') \<Rightarrow> ((StatusOK, JReplayed n (map_option Error_text er)), p'))"

definition admin_purge :: "request \<Rightarrow> pool \<Rightarrow> response \<times> pool" where
  "admin_purge r p =
     (if rq_method r \<noteq> ''POST'' then (method_error, p)
      else case PurgeDeadLetters p of (n, p') \<Rightarrow> ((StatusOK, JPurged n), p'))"

subsection \<open>Routing\<close>

datatype route =
    RHealthz | RReadyz | RStats | RMetrics | RPause | RResume | RTerminate | RJobs | RJob
  | RDlq | RReplay | RPurge

definition mux :: "string \<Rightarrow> route option" where
  "mux path =
     (if path = ''/healthz'' then Some RHealthz
      else if path = ''/readyz'' then Some RReadyz
      else if path = ''/stats'' then Some RStats
      else if path = ''/metrics'' then Some RMetrics
      else if path = ''/pause'' then Some RPause
      else if path = ''/resume'' then Some RResume
      else if path = ''/terminate'' then Some RTerminate
      else if path = ''/jobs'' then Some RJobs
      else if HasPrefix path ''/jobs/'' then Some RJob
      else if path = ''/dlq'' then Some RDlq
      else if path = ''/dlq/replay'' then Some RReplay
      else if path = ''/dlq/purge'' then Some RPurge
      else None)"

text \<open>The handlers that only report.\<close>

definition admin_stats :: "time \<Rightarrow> pool \<Rightarrow> response" where
  "admin_stats now p = (StatusOK, JStats (Stats now p))"

definition admin_prometheus :: "env \<Rightarrow> time \<Rightarrow> pool \<Rightarrow> response" where
  "admin_prometheus e now p = (StatusOK, Text (Prometheus e now p))"

definition admin_jobs :: "pool \<Rightarrow> response" where
  "admin_jobs p = (StatusOK, JJobs (ActiveJobs p))"

definition admin_dlq :: "pool \<Rightarrow> response" where
  "admin_dlq p = (StatusOK, JDead (DeadLetters p))"

fun admin_serve :: "env \<Rightarrow> (pool \<Rightarrow> pool) list \<Rightarrow> time \<Rightarrow> route \<Rightarrow> request \<Rightarrow> pool \<Rightarrow> response \<times> pool" where
  "admin_serve e rs now RHealthz r p = ((StatusOK, Text ''ok''), p)"
| "admin_serve e rs now RReadyz r p = (admin_ready p, p)"
| "admin_serve e rs now RStats r p = (admin_stats now p, p)"
| "admin_serve e rs now RMetrics r p = (admin_prometheus e now p, p)"
| "admin_serve e rs now RPause r p = admin_pause e rs r p"
| "admin_serve e rs now RResume r p = admin_resume e rs r p"
| "admin_serve e rs now RTerminate r p = admin_terminate e r p"
| "admin_serve e rs now RJobs r p = (admin_jobs p, p)"
| "admin_serve e rs now RJob r p = admin_job e r p"
| "admin_serve e rs now RDlq r p = (admin_dlq p, p)"
| "admin_serve e rs now RReplay r p = admin_replay e r p"
| "admin_serve e rs now RPurge r p = admin_purge r p"

text \<open>\<open>wrap\<close>: the check of the token around every handler.\<close>

definition admin_wrap :: "string \<Rightarrow> (request \<Rightarrow> pool \<Rightarrow> response \<times> pool) \<Rightarrow> request \<Rightarrow> pool \<Rightarrow> response \<times> pool" where
  "admin_wrap token next r p =
     (if token \<noteq> '''' \<and> rq_auth r \<noteq> ''Bearer '' @ token then ((StatusUnauthorized, Text ''unauthorized''), p)
      else next r p)"

definition admin_handler :: "string \<Rightarrow> env \<Rightarrow> (pool \<Rightarrow> pool) list \<Rightarrow> time \<Rightarrow> request \<Rightarrow> pool \<Rightarrow> response \<times> pool" where
  "admin_handler token e rs now r p =
     (case mux (rq_path r) of
        None \<Rightarrow> (NotFound, p)
      | Some rt \<Rightarrow> admin_wrap token (admin_serve e rs now rt) r p)"

text \<open>The requests that may change the pool.\<close>

definition control_path :: "string \<Rightarrow> bool" where
  "control_path path \<longleftrightarrow> path \<in> {''/pause'', ''/resume'', ''/terminate'', ''/dlq/replay'', ''/dlq/purge''} \<or>
     (HasPrefix path ''/jobs/'' \<and> HasSuffix path ''/cancel'')"

lemma mux_control:
  "mux path = Some rt \<Longrightarrow> rt \<in> {RPause, RResume, RTerminate, RReplay, RPurge} \<Longrightarrow> control_path path"
  by (auto simp: mux_def control_path_def split: if_splits)

lemma mux_job: "mux path = Some RJob \<Longrightarrow> HasPrefix path ''/jobs/''"
  by (auto simp: mux_def split: if_splits)

lemma HasSuffix_drop: "HasSuffix (drop n s) suf \<Longrightarrow> HasSuffix s suf"
  unfolding HasSuffix_iff by (metis append_assoc append_take_drop_id)

lemma admin_serve_change:
  assumes "mux (rq_path r) = Some rt" "snd (admin_serve e rs now rt r p) \<noteq> p"
  shows "rq_method r = ''POST'' \<and> control_path (rq_path r)"
proof -
  have "rq_method r = ''POST'' \<and> (rt = RJob \<longrightarrow> HasSuffix (TrimPrefix (rq_path r) ''/jobs/'') ''/cancel'')"
    "rt \<in> {RPause, RResume, RTerminate, RReplay, RPurge, RJob}"
    using assms(2)
    by (cases rt; auto simp: admin_pause_def admin_resume_def admin_terminate_def admin_job_def admin_replay_def
        admin_purge_def Let_def split: if_splits option.splits prod.splits)+
  moreover have "rt = RJob \<Longrightarrow> HasSuffix (TrimPrefix (rq_path r) ''/jobs/'') ''/cancel'' \<Longrightarrow> control_path (rq_path r)"
    using mux_job assms(1) HasSuffix_drop by (auto simp: control_path_def TrimPrefix_def)
  ultimately show ?thesis using mux_control [OF assms(1)] by auto
qed

text \<open>C38. The admin server changes a pool only on a POST to one of its control paths, and, when it has
  a token, only if the request carries it: any other request leaves the whole pool as it was, and one
  without the token learns nothing but 401 (or 404 where there is no handler).\<close>

theorem admin_guarded:
  assumes "admin_handler token e rs now r p = (resp, p')"
  shows "(p' \<noteq> p \<longrightarrow> rq_method r = ''POST'' \<and> control_path (rq_path r) \<and> (token = [] \<or> rq_auth r = ''Bearer '' @ token)) \<and>
    (token \<noteq> [] \<and> rq_auth r \<noteq> ''Bearer '' @ token \<longrightarrow>
      p' = p \<and> (resp = (StatusUnauthorized, Text ''unauthorized'') \<or> resp = NotFound))"
proof (cases "mux (rq_path r)")
  case None
  with assms show ?thesis by (simp add: admin_handler_def)
next
  case (Some rt)
  with assms have h: "admin_wrap token (admin_serve e rs now rt) r p = (resp, p')" by (simp add: admin_handler_def)
  show ?thesis
  proof (cases "token \<noteq> '''' \<and> rq_auth r \<noteq> ''Bearer '' @ token")
    case True
    with h show ?thesis by (simp add: admin_wrap_def)
  next
    case False
    with h have "snd (admin_serve e rs now rt r p) = p'" by (simp only: admin_wrap_def if_False snd_conv)
    with admin_serve_change [OF Some, of e rs now p] False show ?thesis by blast
  qed
qed

theorem admin_guarded_witness:
  "(case admin_handler ''secret'' ex_env [] 0 \<lparr>rq_method = ''POST'', rq_path = ''/terminate'', rq_auth = ''Bearer guess''\<rparr> ex_pool of
      (resp, q) \<Rightarrow> resp = (401, Text ''unauthorized'') \<and> p_state q = stateRunning) \<and>
   (case admin_handler ''secret'' ex_env [] 0 \<lparr>rq_method = ''POST'', rq_path = ''/terminate'', rq_auth = ''Bearer secret''\<rparr> ex_pool of
      (resp, q) \<Rightarrow> resp = (200, JOk) \<and> p_state q = stateTerminated)"
proof -
  let ?r = "\<lparr>rq_method = ''POST'', rq_path = ''/terminate'', rq_auth = ''Bearer guess''\<rparr>"
  obtain resp q where h: "admin_handler ''secret'' ex_env [] 0 ?r ex_pool = (resp, q)" by fastforce
  have "q = ex_pool" using admin_guarded [OF h] by simp
  moreover have "p_state ex_pool = stateRunning" by code_simp
  moreover have "resp = (401, Text ''unauthorized'')"
    using h by (simp add: admin_handler_def mux_def admin_wrap_def)
  moreover have "p_state (Terminate ex_env ex_pool) = stateTerminated"
    by code_simp
  ultimately show ?thesis using h
    by (simp add: admin_handler_def mux_def admin_wrap_def admin_terminate_def writeErr_def)
qed

subsection \<open>Accepting jobs over HTTP\<close>

record HTTPOptions =
  ho_Queue :: string
  ho_AcceptedCode :: int
  ho_MaxBodySize :: int
  ho_CaptureHeaders :: "string list"
  ho_RateLimitKey :: string
  ho_Timeout :: duration
  ho_MaxAttempts :: int
  ho_RespondJobID :: bool

record HTTPRequest =
  hr_Method :: string
  hr_URL :: string
  hr_Header :: "(string \<times> string list) list"
  hr_Body :: string
  hr_RemoteAddr :: string
  hr_ReceivedAt :: time

text \<open>What arrives: the values of a header, the bytes of the body and the error that ends them, if
  they do not end by themselves.\<close>

record incoming =
  in_Method :: string
  in_URL :: string
  in_Header :: "string \<Rightarrow> string list"
  in_Body :: string
  in_BodyErr :: "err option"
  in_RemoteAddr :: string

definition http_max :: "HTTPOptions \<Rightarrow> int" where
  "http_max opt = (if ho_MaxBodySize opt \<le> 0 then 2 ^ 20 else ho_MaxBodySize opt)"

text \<open>\<open>io.ReadAll(io.LimitReader(r.Body, max+1))\<close>; the bound is computed in 64 bits, and the error
  of the body is met only if the bound is not reached before it.\<close>

definition http_read :: "int \<Rightarrow> incoming \<Rightarrow> err + string" where
  "http_read bound r =
     (let n = nat (wrap64 (bound + 1))
      in case in_BodyErr r of
           None \<Rightarrow> Inr (take n (in_Body r))
         | Some er \<Rightarrow> if n \<le> length (in_Body r) then Inr (take n (in_Body r)) else Inl er)"

definition http_headers :: "string list \<Rightarrow> incoming \<Rightarrow> (string \<times> string list) list" where
  "http_headers ks r = fold (\<lambda>k hdr. if in_Header r k \<noteq> [] then AList.update k (in_Header r k) hdr else hdr) ks []"

definition http_request :: "HTTPOptions \<Rightarrow> time \<Rightarrow> incoming \<Rightarrow> string \<Rightarrow> HTTPRequest" where
  "http_request opt now r b = \<lparr>hr_Method = in_Method r, hr_URL = in_URL r,
     hr_Header = http_headers (ho_CaptureHeaders opt) r, hr_Body = b, hr_RemoteAddr = in_RemoteAddr r,
     hr_ReceivedAt = now\<rparr>"

definition http_options :: "HTTPOptions \<Rightarrow> int \<Rightarrow> JobOptions" where
  "http_options opt unixNano =
     no_options\<lparr>o_Queue := ho_Queue opt, o_RateLimitKey := ho_RateLimitKey opt, o_Timeout := ho_Timeout opt,
       o_MaxAttempts := ho_MaxAttempts opt,
       o_ID := (if ho_RespondJobID opt then ''job-'' @ FormatInt unixNano else '''')\<rparr>"

text \<open>The handler, with the closure \<open>mk\<close> that hands the captured request to the application; beside
  the response, the request it captured.\<close>

definition HTTPMiddleware ::
  "env \<Rightarrow> (time \<times> time \<times> (pool \<Rightarrow> pool)) list \<Rightarrow> round list \<Rightarrow> (HTTPRequest \<Rightarrow> job) \<Rightarrow> int \<Rightarrow> HTTPOptions \<Rightarrow> incoming \<Rightarrow>
   pool \<Rightarrow> ((response \<times> HTTPRequest option) \<times> pool) option" where
  "HTTPMiddleware e ars rs mk unixNano opt r p =
     (case http_read (http_max opt) r of
        Inl er \<Rightarrow> Some (((400, Text (Error_text er)), None), p)
      | Inr b \<Rightarrow>
          if int (length b) > http_max opt then Some (((413, Text ''request body too large''), None), p)
          else (let req = http_request opt (e_now e 0) r b; jo = http_options opt unixNano
                in case Submit e ars rs (Some (mk req)) [jo] p of
                     None \<Rightarrow> None
                   | Some (Some er, p') \<Rightarrow> Some (((StatusServiceUnavailable, Text (Error_text er)), Some req), p')
                   | Some (None, p') \<Rightarrow>
                       Some (((if ho_AcceptedCode opt = 0 then StatusAccepted else ho_AcceptedCode opt,
                               JAccepted (o_ID jo)), Some req), p')))"

lemma http_read_fits:
  assumes "ho_MaxBodySize opt < 2 ^ 63 - 1"
  shows "nat (wrap64 (http_max opt + 1)) = nat (http_max opt) + 1"
proof -
  have m: "0 < http_max opt" "http_max opt < 2 ^ 63 - 1" using assms by (simp_all add: http_max_def)
  then have "wrap64 (http_max opt + 1) = http_max opt + 1" by (intro wrap64_id) simp_all
  with m show ?thesis by (simp add: nat_add_distrib)
qed

lemma http_body_cases:
  shows "ho_MaxBodySize opt < 2 ^ 63 - 1 \<Longrightarrow> int (length (in_Body r)) > http_max opt \<Longrightarrow>
      HTTPMiddleware e ars rs mk u opt r p = Some (((413, Text ''request body too large''), None), p)"
    and "ho_MaxBodySize opt < 2 ^ 63 - 1 \<Longrightarrow> int (length (in_Body r)) \<le> http_max opt \<Longrightarrow> in_BodyErr r = None \<Longrightarrow>
      HTTPMiddleware e ars rs mk u opt r p = Some ((resp, req), q) \<Longrightarrow>
      (\<exists>h. req = Some h \<and> hr_Body h = in_Body r \<and>
        (\<exists>er. Submit e ars rs (Some (mk h)) [http_options opt u] p = Some (er, q) \<and>
          (case er of
             Some x \<Rightarrow> resp = (StatusServiceUnavailable, Text (Error_text x))
           | None \<Rightarrow> fst resp = (if ho_AcceptedCode opt = 0 then StatusAccepted else ho_AcceptedCode opt))))"
    and "ho_MaxBodySize opt = 2 ^ 63 - 1 \<Longrightarrow>
      HTTPMiddleware e ars rs mk u opt r p = Some ((resp, req), q) \<Longrightarrow> \<exists>h. req = Some h \<and> hr_Body h = []"
proof -
  assume m: "ho_MaxBodySize opt < 2 ^ 63 - 1"
  note n = http_read_fits [OF m]
  {
    assume l: "int (length (in_Body r)) > http_max opt"
    have pos: "0 < http_max opt" by (simp add: http_max_def)
    from l pos have "nat (http_max opt) + 1 \<le> length (in_Body r)" by linarith
    then have "http_read (http_max opt) r = Inr (take (nat (http_max opt) + 1) (in_Body r))"
      by (simp add: http_read_def n Let_def split: option.split)
    moreover have "int (length (take (nat (http_max opt) + 1) (in_Body r))) > http_max opt"
      using l pos by simp
    ultimately show "HTTPMiddleware e ars rs mk u opt r p = Some (((413, Text ''request body too large''), None), p)"
      by (simp only: HTTPMiddleware_def sum.case if_True)
  next
    assume l: "int (length (in_Body r)) \<le> http_max opt" and er: "in_BodyErr r = None"
      and h: "HTTPMiddleware e ars rs mk u opt r p = Some ((resp, req), q)"
    have "http_read (http_max opt) r = Inr (in_Body r)"
      using l by (simp add: http_read_def n er Let_def)
    with h l show "\<exists>h. req = Some h \<and> hr_Body h = in_Body r \<and>
        (\<exists>er. Submit e ars rs (Some (mk h)) [http_options opt u] p = Some (er, q) \<and>
          (case er of
             Some x \<Rightarrow> resp = (StatusServiceUnavailable, Text (Error_text x))
           | None \<Rightarrow> fst resp = (if ho_AcceptedCode opt = 0 then StatusAccepted else ho_AcceptedCode opt)))"
      by (auto simp: HTTPMiddleware_def Let_def http_request_def split: option.splits prod.splits)
  }
next
  assume m: "ho_MaxBodySize opt = 2 ^ 63 - 1" and h: "HTTPMiddleware e ars rs mk u opt r p = Some ((resp, req), q)"
  have "wrap64 (http_max opt + 1) < 0" by (simp add: http_max_def m wrap64_def signed_take_bit_eq_take_bit_shift)
  then have "http_read (http_max opt) r = Inr []" by (simp add: http_read_def Let_def split: option.split)
  with h show "\<exists>h. req = Some h \<and> hr_Body h = []"
    by (auto simp: HTTPMiddleware_def Let_def http_request_def http_max_def m split: option.splits prod.splits)
qed

text \<open>For a limit below the largest 64-bit integer: a body of at most the limit is handed to the
  handler byte for byte, a longer one is answered with 413 and the pool is not touched; the error of
  submission becomes a 503.  With the largest integer as limit the bound wraps around, and every body
  is handed over as empty.\<close>

theorem http_body_limit:
  assumes "HTTPMiddleware e ars rs mk u opt r p = Some ((resp, req), q)" "in_BodyErr r = None" "ho_MaxBodySize opt < 2 ^ 63"
  shows "if ho_MaxBodySize opt = 2 ^ 63 - 1 then \<exists>h. req = Some h \<and> hr_Body h = []
    else if int (length (in_Body r)) > http_max opt then resp = (413, Text ''request body too large'') \<and> req = None \<and> q = p
    else \<exists>h. req = Some h \<and> hr_Body h = in_Body r \<and>
      (\<exists>er. Submit e ars rs (Some (mk h)) [http_options opt u] p = Some (er, q) \<and>
        (case er of
           Some x \<Rightarrow> resp = (StatusServiceUnavailable, Text (Error_text x))
         | None \<Rightarrow> fst resp = (if ho_AcceptedCode opt = 0 then StatusAccepted else ho_AcceptedCode opt)))"
  using http_body_cases(1) [of opt r e ars rs mk u p] http_body_cases(2) [of opt r e ars rs mk u p resp req q]
    http_body_cases(3) [of opt e ars rs mk u r p resp req q] assms by auto

definition ex_http :: HTTPOptions where
  "ex_http = \<lparr>ho_Queue = ''api'', ho_AcceptedCode = 0, ho_MaxBodySize = 3, ho_CaptureHeaders = [''X-Id''],
     ho_RateLimitKey = '''', ho_Timeout = 0, ho_MaxAttempts = 0, ho_RespondJobID = True\<rparr>"

definition ex_incoming :: "string \<Rightarrow> incoming" where
  "ex_incoming b = \<lparr>in_Method = ''POST'', in_URL = ''/work'', in_Header = (\<lambda>_. [''7'']), in_Body = b,
     in_BodyErr = None, in_RemoteAddr = ''10.0.0.1''\<rparr>"

theorem http_body_limit_witness:
  "(case HTTPMiddleware ex_env [] [] (\<lambda>_. UserJob 1) 99 ex_http (ex_incoming ''abc'') ex_pool of
      Some ((resp, Some h), q) \<Rightarrow> fst resp = 202 \<and> hr_Body h = ''abc'' | _ \<Rightarrow> False) \<and>
   HTTPMiddleware ex_env [] [] (\<lambda>_. UserJob 1) 99 ex_http (ex_incoming ''abcd'') ex_pool =
     Some (((413, Text ''request body too large''), None), ex_pool)"
proof -
  let ?h = "\<lambda>b. HTTPMiddleware ex_env [] [] (\<lambda>_. UserJob 1) 99 ex_http (ex_incoming b) ex_pool"
  have m: "http_max ex_http = 3" "ho_MaxBodySize ex_http = 3" "\<And>b. in_BodyErr (ex_incoming b) = None" "\<And>b. in_Body (ex_incoming b) = b"
    by (simp_all add: http_max_def ex_http_def ex_incoming_def)
  have "case ?h ''abc'' of Some ((resp, Some h), q) \<Rightarrow> fst resp = 202 | _ \<Rightarrow> False" by code_simp
  then obtain resp h q where abc: "?h ''abc'' = Some ((resp, Some h), q)" "fst resp = 202"
    by (auto split: option.splits)
  have abcd: "?h ''abcd'' = Some (((413, Text ''request body too large''), None), ex_pool)"
    by (rule http_body_cases(1)) (simp_all add: m)
  from http_body_limit [OF abc(1)] http_body_limit [OF abcd] abc abcd show ?thesis by (simp add: m)
qed

end
