(* ===== verification/Worker_Drain.thy ===== *)
theory Worker_Drain
  imports Worker_Loop Job_Properties
begin

text \<open>
  Progress: a job that a worker takes leaves its hands (\<open>execute\<close> as a whole), and a single worker left
  alone with jobs that can run empties every queue.
\<close>

subsection \<open>The whole of \<open>execute\<close>\<close>

text \<open>\<open>execute\<close> around the job's \<open>Run\<close>, during which the others act.\<close>

definition execute ::
  "env \<Rightarrow> round list \<Rightarrow> (pool \<Rightarrow> pool) \<Rightarrow> env \<Rightarrow> round list \<Rightarrow> int \<Rightarrow> nat \<Rightarrow> run_end \<Rightarrow> pool \<Rightarrow> pool option" where
  "execute e1 rs1 others e2 rs2 wid x r p =
     (case execute_begin e1 rs1 x p of
        None \<Rightarrow> None
      | Some (False, p) \<Rightarrow> Some p
      | Some (True, p) \<Rightarrow> execute_finish e2 rs2 wid x r (others p))"

lemma execute_released:
  assumes wf: "pool_wf p" and x: "x \<in> set (p_inflight p)"
    and rr: "rely_rounds x rs1" "rely x others" "rely_rounds x rs2"
    and r: "execute e1 rs1 others e2 rs2 wid x r p = Some p'"
  shows "\<not> held x p' \<and> pool_wf p' \<and> balance p' = balance p \<and> busy_gap p' = busy_gap p \<and>
    (x \<notin> set (p_running p) \<longrightarrow> attempts_ok p \<longrightarrow> attempts_ok p')"
proof -
  obtain b q where b: "execute_begin e1 rs1 x p = Some (b, q)" using r by (auto simp: execute_def split: option.splits)
  note bs = execute_begin_spec [OF wf x rr(1) b]
  show ?thesis
  proof (cases b)
    case False
    with b r bs show ?thesis by (simp add: execute_def)
  next
    case True
    with bs have q: "pool_wf q" "x \<in> set (p_inflight q)" "x \<in> set (p_running q)" by auto
    have "stays x q (others q)" using rr(2) q by (simp add: rely_def held_def)
    then have o: "pool_wf (others q)" "x \<in> set (p_inflight (others q))" "x \<in> set (p_running (others q))"
      "balance (others q) = balance q" "busy_gap (others q) = busy_gap q" "attempts_ok q \<longrightarrow> attempts_ok (others q)"
      using q stays_inflight [of x q "others q"] by (simp_all add: stays_def)
    from execute_finish_spec [OF o(1-3) rr(3), of e2 wid r p'] True b r bs o show ?thesis by (simp add: execute_def)
  qed
qed

subsection \<open>What a poll takes\<close>

definition waiting :: "pool \<Rightarrow> nat multiset" where
  "waiting p = mset (fast_ptrs p) + mset (p_spill p) + image_mset it_Value (pq_elems (p_q p))"

definition load :: "pool \<Rightarrow> nat" where
  "load p = fq_len (p_basicq p) + fq_len (p_fastq p) + length (p_spill p) + length (pq_items (p_q p))"

text \<open>The parts of a pool that a poll and a successful run leave alone.\<close>

definition scene :: "pool \<Rightarrow> State \<times> bool \<times> nat set \<times> (string \<Rightarrow> bool) \<times> nat list \<times> 64 word" where
  "scene p = (p_state p, p_ctxCancelled p, p_cancelled p, p_pausedQueues p, p_dlq p, k_dlq (p_c p))"

definition due :: "time \<Rightarrow> pool \<Rightarrow> bool" where
  "due now p \<longleftrightarrow> (\<forall>it \<in># pq_elems (p_q p). it_RunAt it \<le> now)"

lemma load_eq: "load p = length (fifo_contents (p_basicq p)) + length (fast_ptrs p) + length (p_spill p) + size (pq_elems (p_q p))"
  by (simp add: load_def fast_ptrs_def length_items)

lemma poll_takes:
  assumes wf: "pool_wf p" and st: "p_state p \<noteq> stateTerminated" "p_state p \<noteq> statePaused"
    and d: "due now p" and l: "load p = Suc n" and w: "worker_poll now p = (w, p')"
  shows "load p' = n \<and> scene p' = scene p \<and> p_heap p' = p_heap p \<and> k_completed (p_c p') = k_completed (p_c p) \<and>
    p_basicRunning p' = p_basicRunning p \<and> p_running p' = p_running p \<and> pq_elems (p_q p') \<subseteq># pq_elems (p_q p) \<and>
    ((\<exists>j. w = WBasic j) \<and> p_inflight p' = p_inflight p \<and> p_basicTaken p' = Suc (p_basicTaken p) \<and> waiting p' = waiting p \<or>
     (\<exists>x. w = WJob x \<and> p_inflight p' = x # p_inflight p \<and> p_basicTaken p' = p_basicTaken p \<and> waiting p = add_mset x (waiting p')))"
proof -
  obtain b p1 where b: "pop_basic p = (b, p1)" by fastforce
  obtain f p2 where f: "pop_fast p1 = (f, p2)" by fastforce
  obtain s p3 where s: "popSpill p2 = (s, p3)" by fastforce
  obtain q p4 where q: "pop_q now p3 = (q, p4)" by fastforce
  note bf = pop_basic_front [OF wf b]
  show ?thesis
  proof (cases b)
    case (Some j)
    moreover have "p_q p1 = p_q p" "p_fastq p1 = p_fastq p" "p_spill p1 = p_spill p" "scene p1 = scene p" "p_heap p1 = p_heap p"
      "p_c p1 = p_c p" "p_basicRunning p1 = p_basicRunning p" "p_running p1 = p_running p" "p_inflight p1 = p_inflight p"
      "p_basicTaken p1 = Suc (p_basicTaken p)"
      using b Some by (auto simp: pop_basic_def scene_def split: prod.splits option.splits)
    ultimately show ?thesis using w b bf l st by (auto simp: worker_poll_def load_eq waiting_def fast_ptrs_def)
  next
    case bn: None
    then have p1: "p1 = p" "fifo_contents (p_basicq p) = []" using bf by simp_all
    note ff = pop_fast_front [OF wf f [unfolded p1]]
    show ?thesis
    proof (cases f)
      case (Some y)
      with ff obtain x where y: "y = Some x" by auto
      moreover have "p_q p2 = p_q p" "p_basicq p2 = p_basicq p" "p_spill p2 = p_spill p" "scene p2 = scene p" "p_heap p2 = p_heap p"
        "p_c p2 = p_c p" "p_basicRunning p2 = p_basicRunning p" "p_running p2 = p_running p" "p_inflight p2 = x # p_inflight p"
        "p_basicTaken p2 = p_basicTaken p"
        using f Some y p1 by (auto simp: pop_fast_def scene_def split: prod.splits option.splits)
      ultimately show ?thesis using Some w b f ff bn p1 l st by (auto simp: worker_poll_def load_eq waiting_def fast_ptrs_def)
    next
      case fn: None
      then have p2: "p2 = p" "fifo_contents (p_fastq p) = []" using ff by simp_all
      show ?thesis
      proof (cases s)
        case (Some x)
        then obtain rest where p3: "p_spill p = x # rest" "p3 = p\<lparr>p_spill := rest, p_inflight := x # p_inflight p\<rparr>"
          using s p2 by (auto simp: popSpill_def split: list.splits)
        have "(w, p') = (WJob x, p3)" using Some w b f s bn fn p1 p2 st by (simp add: worker_poll_def)
        with p3 p1 p2 l show ?thesis by (simp add: load_eq waiting_def fast_ptrs_def scene_def)
      next
        case sn: None
        then have p3: "p3 = p" "p_spill p = []" using s p2 by (auto simp: popSpill_def split: list.splits)
        note qf = pop_q_front [OF wf q [unfolded p3]]
        have "pq_elems (p_q p) \<noteq> {#}" using l p1 p2 p3 by (auto simp: load_eq fast_ptrs_def)
        with qf d obtain x where x: "q = Some x" by (cases q) (auto simp: due_def not_le [symmetric])
        with q p3 have "p_basicq p4 = p_basicq p \<and> p_fastq p4 = p_fastq p \<and> p_spill p4 = p_spill p \<and> scene p4 = scene p \<and> p_heap p4 = p_heap p \<and>
          p_c p4 = p_c p \<and> p_basicRunning p4 = p_basicRunning p \<and> p_running p4 = p_running p \<and> p_inflight p4 = x # p_inflight p \<and>
          p_basicTaken p4 = p_basicTaken p"
          by (auto simp: pop_q_def scene_def split: prod.splits option.splits)
        with qf x w b f s q bn fn sn p1 p2 p3 l st show ?thesis
          by (auto simp: worker_poll_def load_eq waiting_def fast_ptrs_def)
      qed
    qed
  qed
qed

subsection \<open>Serving a job\<close>

text \<open>A run that returns nil before any deadline.\<close>

definition good_run :: run_end where
  "good_run = \<lparr>re_outcome = Returned None, re_deadline = False, re_deadlineFirst = False\<rparr>"

text \<open>Nothing stands between the job and its run: it is not cancelled, its queue is not paused, it has no
  rate limit and no concurrency key.\<close>

definition plain :: "pool \<Rightarrow> nat \<Rightarrow> bool" where
  "plain p x \<longleftrightarrow> (case qj_ctx (p_heap p x) of None \<Rightarrow> True | Some c \<Rightarrow> ctx_Err p c = None) \<and> \<not> isQueuedPaused x p \<and>
     o_RateLimitKey (qj_opts (p_heap p x)) = '''' \<and> o_ConcurrencyKey (qj_opts (p_heap p x)) = ''''"

lemma plain_scene:
  assumes "plain p x" "scene p' = scene p" "p_heap p' x = p_heap p x"
  shows "plain p' x"
  using assms by (auto simp: plain_def scene_def ctx_Err_def isQueuedPaused_def split: option.splits gctx.splits)

definition queues :: "pool \<Rightarrow> nat pqueue \<times> job option fifo \<times> nat option fifo \<times> nat list \<times> nat \<times> nat" where
  "queues p = (p_q p, p_basicq p, p_fastq p, p_spill p, p_basicTaken p, p_basicRunning p)"

lemma scene_observer [simp]:
  "scene (emitJob e t y n er msg p) = scene p" "scene (p\<lparr>p_sem := sm\<rparr>) = scene p" "scene (p\<lparr>p_running := rn\<rparr>) = scene p"
  "scene (p\<lparr>p_unlimited := un\<rparr>) = scene p"
  "scene (callback_call f y er p) = scene p" "scene (job_hook h y n er p) = scene p" "scene (store_job y p) = scene p"
  "scene (upd_job y g p) = scene p" "scene (complete_future u er p) = scene p" "scene (untrack_job opts p) = scene p"
  "scene (forget_key opts p) = scene p" "scene (leave y p) = scene p" "scene (releaseJob y p) = scene p"
  "scene (bump (k_started_update g1) p) = scene p" "scene (bump (k_busy_update g2) p) = scene p"
  "scene (bump (k_completed_update g3) p) = scene p"
  by (simp_all add: scene_def)
    (auto simp: upd_job_def complete_future_def untrack_job_def untrack_def forget_key_def leave_def releaseJob_def bump_def split: option.split)

lemma queues_observer [simp]:
  "queues (emitJob e t y n er msg p) = queues p" "queues (p\<lparr>p_sem := sm\<rparr>) = queues p" "queues (p\<lparr>p_running := rn\<rparr>) = queues p"
  "queues (p\<lparr>p_unlimited := un\<rparr>) = queues p"
  "queues (callback_call f y er p) = queues p" "queues (job_hook h y n er p) = queues p" "queues (store_job y p) = queues p"
  "queues (upd_job y g p) = queues p" "queues (complete_future u er p) = queues p" "queues (untrack_job opts p) = queues p"
  "queues (forget_key opts p) = queues p" "queues (leave y p) = queues p" "queues (releaseJob y p) = queues p"
  "queues (bump g1 p) = queues p"
  by (simp_all add: queues_def releaseJob_def)

lemma start_job_effect:
  "scene (start_job e x p) = scene p" "queues (start_job e x p) = queues p" "p_inflight (start_job e x p) = p_inflight p"
  "k_completed (p_c (start_job e x p)) = k_completed (p_c p)" "p_running (start_job e x p) = x # p_running p"
  "y \<noteq> x \<Longrightarrow> p_heap (start_job e x p) y = p_heap p y" "qj_opts (p_heap (start_job e x p) x) = qj_opts (p_heap p x)"
  "qj_ctx (p_heap (start_job e x p) x) = qj_ctx (p_heap p x)"
  by (simp_all add: start_job_def Let_def)

lemma succeed_job_effect:
  "scene (succeed_job e x p) = scene p" "queues (succeed_job e x p) = queues p" "p_inflight (succeed_job e x p) = remove1 x (p_inflight p)"
  "k_completed (p_c (succeed_job e x p)) = k_completed (p_c p) + 1" "p_running (succeed_job e x p) = p_running p"
  "y \<noteq> x \<Longrightarrow> p_heap (succeed_job e x p) y = p_heap p y"
  by (simp_all add: succeed_job_def succeed_record_def Let_def) (simp_all add: releaseJob_def)

lemma serve:
  assumes pl: "plain p x" and c: "\<not> p_ctxCancelled p"
  shows "\<exists>p'. execute e [] (\<lambda>p. p) e [] wid x good_run p = Some p' \<and> scene p' = scene p \<and> queues p' = queues p \<and>
    k_completed (p_c p') = k_completed (p_c p) + 1 \<and> p_inflight p' = remove1 x (p_inflight p) \<and> p_running p' = p_running p \<and>
    (\<forall>y. y \<noteq> x \<longrightarrow> p_heap p' y = p_heap p y)"
proof -
  define q where "q = emitJob e EventJobDequeued x (qj_attempt (p_heap p x)) None '''' p"
  define t where "t = start_job e x (q\<lparr>p_sem := p_sem q\<rparr>)"
  have hq: "p_heap q = p_heap p" "scene q = scene p" by (simp_all add: q_def)
  have pq: "plain q x" by (rule plain_scene [OF pl]) (simp_all add: hq)
  have "execute_begin e [] x p = Some (True, t)"
    using pq by (cases "qj_ctx (p_heap q x)")
      (simp_all add: execute_begin_def Let_def q_def [symmetric] plain_def delayForRateLimit_def tryAcquire_def t_def hq)
  moreover have "run_ctx_err good_run x t = None"
  proof -
    have "scene t = scene p" "qj_ctx (p_heap t x) = qj_ctx (p_heap p x)" by (simp_all add: t_def start_job_effect hq)
    then show ?thesis using pl c
      by (auto simp: run_ctx_err_def good_run_def plain_def scene_def ctx_Err_def Let_def split: option.splits gctx.splits)
  qed
  then have "execute_finish e [] wid x good_run t = Some (end_run x (o_ConcurrencyKey (qj_opts (p_heap t x))) (succeed_job e x t))"
    by (simp add: execute_finish_def run_result_def good_run_def Let_def)
  ultimately have "execute e [] (\<lambda>p. p) e [] wid x good_run p =
      Some (end_run x (o_ConcurrencyKey (qj_opts (p_heap t x))) (succeed_job e x t))"
    by (simp add: execute_def)
  then show ?thesis
    by (intro exI conjI, assumption)
      (simp_all add: end_run_def Let_def succeed_job_effect t_def start_job_effect hq, simp_all add: q_def)
qed

subsection \<open>A worker alone\<close>

text \<open>Passes of a worker that nobody disturbs and whose jobs all succeed, one for each \<open>env\<close>.\<close>

fun work_off :: "env list \<Rightarrow> pool \<Rightarrow> pool option" where
  "work_off [] p = Some p"
| "work_off (e # es) p =
     (case worker_poll (e_now e 0) p of
        (WJob x, p) \<Rightarrow>
          (case execute e [] (\<lambda>p. p) e [] 1 x good_run p of None \<Rightarrow> None | Some p \<Rightarrow> work_off es p)
      | (WBasic j, p) \<Rightarrow> work_off es (basic_finish (Returned None) (basic_begin p))
      | (_, p) \<Rightarrow> Some p)"

lemma basic_effect:
  "scene (basic_finish (Returned None) (basic_begin p)) = scene p" "p_heap (basic_finish (Returned None) (basic_begin p)) = p_heap p"
  "p_inflight (basic_finish (Returned None) (basic_begin p)) = p_inflight p" "p_running (basic_finish (Returned None) (basic_begin p)) = p_running p"
  "k_completed (p_c (basic_finish (Returned None) (basic_begin p))) = k_completed (p_c p) + 1"
  "load (basic_finish (Returned None) (basic_begin p)) = load p" "waiting (basic_finish (Returned None) (basic_begin p)) = waiting p"
  "p_q (basic_finish (Returned None) (basic_begin p)) = p_q p"
  "p_basicTaken (basic_finish (Returned None) (basic_begin p)) = p_basicTaken p - 1"
  "p_basicRunning (basic_finish (Returned None) (basic_begin p)) = p_basicRunning p"
  by (simp_all add: basic_finish_def basic_begin_def Let_def scene_def load_def waiting_def fast_ptrs_def) (simp_all add: bump_def)

lemma work_off_drains:
  assumes "pool_wf p" "p_state p \<noteq> stateTerminated" "p_state p \<noteq> statePaused" "\<not> p_ctxCancelled p"
    and "\<forall>x \<in># waiting p. plain p x" "\<forall>e \<in> set es. due (e_now e 0) p" "length es = load p"
  shows "\<exists>p'. work_off es p = Some p' \<and> load p' = 0 \<and> k_completed (p_c p') = k_completed (p_c p) + of_nat (load p) \<and>
    scene p' = scene p \<and> p_inflight p' = p_inflight p \<and> p_running p' = p_running p \<and> p_basicTaken p' = p_basicTaken p \<and>
    p_basicRunning p' = p_basicRunning p \<and> busy_gap p' = busy_gap p"
  using assms
proof (induction es arbitrary: p)
  case Nil
  then show ?case by simp
next
  case (Cons e es)
  obtain w p1 where w: "worker_poll (e_now e 0) p = (w, p1)" by fastforce
  have d: "due (e_now e 0) p" "load p = Suc (length es)" using Cons.prems by simp_all
  note tk = poll_takes [OF Cons.prems(1,2,3) d w]
  have wf1: "pool_wf p1" using worker_poll_calm [OF Cons.prems(1) w] calm_wf by blast
  have bg1: "busy_gap p1 = busy_gap p" using worker_poll_calm [OF Cons.prems(1) w] by (simp add: calm_def sound_def)
  have sc: "scene p1 = scene p" and pe: "pq_elems (p_q p1) \<subseteq># pq_elems (p_q p)" and hp: "p_heap p1 = p_heap p" using tk by auto
  have d1: "\<forall>e \<in> set es. due (e_now e 0) p1" using Cons.prems(6) pe by (auto simp: due_def dest: mset_subset_eqD)
  have c1: "\<not> p_ctxCancelled p1" using sc Cons.prems(4) by (simp add: scene_def)
  from tk consider (basic) j where "w = WBasic j" "p_inflight p1 = p_inflight p" "p_basicTaken p1 = Suc (p_basicTaken p)" "waiting p1 = waiting p"
    | (job) x where "w = WJob x" "p_inflight p1 = x # p_inflight p" "p_basicTaken p1 = p_basicTaken p" "waiting p = add_mset x (waiting p1)"
    by auto
  then show ?case
  proof cases
    case basic
    define p2 where "p2 = basic_finish (Returned None) (basic_begin p1)"
    note be = basic_effect [of p1, folded p2_def]
    have b1: "pool_wf (basic_begin p1)" using basic_begin_wf [OF wf1] basic(3) calm_wf by simp
    have "p_basicRunning (basic_begin p1) > 0" by (simp add: basic_begin_def Let_def)
    then have "pool_wf p2" unfolding p2_def by (intro calm_wf [OF basic_finish_wf [OF b1]])
    moreover have bg2: "busy_gap p2 = busy_gap p1"
      by (simp add: p2_def busy_gap_def basic_finish_def basic_begin_def Let_def)
    moreover have "\<forall>x \<in># waiting p2. plain p2 x" using Cons.prems(5) plain_scene sc hp be basic by (metis (no_types))
    ultimately have "\<exists>p'. work_off es p2 = Some p' \<and> load p' = 0 \<and> k_completed (p_c p') = k_completed (p_c p2) + of_nat (load p2) \<and>
        scene p' = scene p2 \<and> p_inflight p' = p_inflight p2 \<and> p_running p' = p_running p2 \<and> p_basicTaken p' = p_basicTaken p2 \<and>
        p_basicRunning p' = p_basicRunning p2 \<and> busy_gap p' = busy_gap p2"
      using Cons.prems(2-4) d1 tk be sc by (intro Cons.IH) (auto simp: scene_def due_def)
    then show ?thesis using w basic tk be d bg1 bg2 by (auto simp: p2_def [symmetric] scene_def algebra_simps)
  next
    case job
    have pl: "plain p1 x" using Cons.prems(5) plain_scene [OF _ sc] hp job by auto
    from serve [OF pl c1, of e 1] obtain p2 where ex: "execute e [] (\<lambda>p. p) e [] 1 x good_run p1 = Some p2"
      and e2: "scene p2 = scene p1" "queues p2 = queues p1" "k_completed (p_c p2) = k_completed (p_c p1) + 1"
        "p_inflight p2 = remove1 x (p_inflight p1)" "p_running p2 = p_running p1" "\<And>y. y \<noteq> x \<Longrightarrow> p_heap p2 y = p_heap p1 y"
      by blast
    have q2: "load p2 = load p1" "waiting p2 = waiting p1" "p_q p2 = p_q p1" "p_basicTaken p2 = p_basicTaken p1" "p_basicRunning p2 = p_basicRunning p1"
      using e2(2) by (simp_all add: queues_def load_def waiting_def fast_ptrs_def)
    have x: "x \<in> set (p_inflight p1)" using job by simp
    have wf2: "pool_wf p2" and bg2: "busy_gap p2 = busy_gap p1"
      using execute_released [OF wf1 x _ _ _ ex] by (simp_all add: rely_rounds_def rely_id)
    note wf2
    moreover have "\<forall>y \<in># waiting p2. plain p2 y"
    proof
      fix y assume y: "y \<in># waiting p2"
      have "x \<notin># waiting p1" using inflight_only(1) [OF wf1 x] by (simp add: waiting_def queued_ptrs_def)
      then have "y \<noteq> x" "y \<in># waiting p" using y q2 job by auto
      then show "plain p2 y" using Cons.prems(5) plain_scene [of p y p2] sc e2 hp by simp
    qed
    ultimately have "\<exists>p'. work_off es p2 = Some p' \<and> load p' = 0 \<and> k_completed (p_c p') = k_completed (p_c p2) + of_nat (load p2) \<and>
        scene p' = scene p2 \<and> p_inflight p' = p_inflight p2 \<and> p_running p' = p_running p2 \<and> p_basicTaken p' = p_basicTaken p2 \<and>
        p_basicRunning p' = p_basicRunning p2 \<and> busy_gap p' = busy_gap p2"
      using Cons.prems(2-4) d1 tk e2 sc q2 d by (intro Cons.IH) (auto simp: scene_def due_def)
    then show ?thesis using w job tk e2 q2 d ex bg1 bg2 by (auto simp: scene_def algebra_simps)
  qed
qed

lemma QueueDepth_load: "QueueDepth p = int (load p)"
  by (simp add: QueueDepth_def load_def FIFO_Len_def PQ_Len_def SpillDepth_def)

text \<open>C6. Every queued job is served: in any reachable pool that runs or stops gracefully, a single worker
  left alone, whose jobs succeed, empties all four queues in as many passes as there are jobs and
  completes every one of them; none is lost, dead-lettered or left in its hands.  The jobs must be due
  and free to run: not cancelled, in no paused queue, without a rate limit or a concurrency key.\<close>

theorem lone_worker_drains:
  assumes "pool_step\<^sup>*\<^sup>* (New e0 c opts) p" "p_state p = stateRunning \<or> p_state p = stateStopping" "\<not> p_ctxCancelled p"
    and "\<forall>x \<in># waiting p. plain p x" "\<forall>e \<in> set es. due (e_now e 0) p" "int (length es) = QueueDepth p"
  shows "\<exists>p'. work_off es p = Some p' \<and> QueueDepth p' = 0 \<and>
    k_completed (p_c p') = k_completed (p_c p) + of_int (QueueDepth p) \<and> p_dlq p' = p_dlq p \<and>
    p_inflight p' = p_inflight p \<and> k_busy (p_c p') = k_busy (p_c p)"
proof -
  have st: "p_state p \<noteq> stateTerminated" "p_state p \<noteq> statePaused" "length es = load p"
    using assms(2,6) by (auto simp: QueueDepth_load)
  obtain p' where p': "work_off es p = Some p'" "load p' = 0" "k_completed (p_c p') = k_completed (p_c p) + of_nat (load p)"
    "scene p' = scene p" "p_inflight p' = p_inflight p" "p_running p' = p_running p" "p_basicRunning p' = p_basicRunning p"
    "busy_gap p' = busy_gap p"
    using work_off_drains [OF reachable_sound(1) [OF assms(1)] st(1,2) assms(3,4,5) st(3)] by blast
  then have "k_busy (p_c p') = k_busy (p_c p)" by (simp add: busy_gap_def)
  with p' show ?thesis by (auto simp: QueueDepth_load scene_def)
qed

text \<open>The example pool with one job in its fast queue.\<close>

lemma ex_waiting:
  obtains q where "pool_step\<^sup>*\<^sup>* (New ex_env ex_config []) q" "p_state q = stateRunning" "\<not> p_ctxCancelled q"
    "QueueDepth q = 1" "plain q 0" "fast_ptrs q = [0]" "p_spill q = []" "pq_items (p_q q) = []" "k_completed (p_c q) = 0"
proof -
  have "case submit ex_env [] [] (Some (UserJob 1)) None [] ex_pool of
      None \<Rightarrow> False
    | Some (r, q) \<Rightarrow> p_state q = stateRunning \<and> \<not> p_ctxCancelled q \<and> QueueDepth q = 1 \<and> plain q 0 \<and>
        fast_ptrs q = [0] \<and> p_spill q = [] \<and> pq_items (p_q q) = [] \<and> k_completed (p_c q) = 0"
    by code_simp
  then obtain r q where s: "submit ex_env [] [] (Some (UserJob 1)) None [] ex_pool = Some (r, q)" and q: "p_state q = stateRunning"
    "\<not> p_ctxCancelled q" "QueueDepth q = 1" "plain q 0" "fast_ptrs q = [0]" "p_spill q = []" "pq_items (p_q q) = []" "k_completed (p_c q) = 0"
    by (auto split: option.splits)
  have "pool_step ex_pool q" by (rule Submit [OF no_rounds s])
  with ex_pool_reach have "pool_step\<^sup>*\<^sup>* (New ex_env ex_config []) q" by (rule rtranclp.rtrancl_into_rtrancl)
  with q that show thesis by blast
qed

theorem lone_worker_drains_witness:
  "\<exists>q q' :: pool. QueueDepth q = 1 \<and> work_off [ex_env] q = Some q' \<and> QueueDepth q' = 0 \<and> k_completed (p_c q') = 1"
proof -
  obtain q where q: "pool_step\<^sup>*\<^sup>* (New ex_env ex_config []) q" "p_state q = stateRunning" "\<not> p_ctxCancelled q"
    "QueueDepth q = 1" "plain q 0" "fast_ptrs q = [0]" "p_spill q = []" "pq_items (p_q q) = []" "k_completed (p_c q) = 0"
    by (rule ex_waiting)
  have "\<forall>x \<in># waiting q. plain q x" "\<forall>e \<in> set [ex_env]. due (e_now e 0) q"
    using q by (simp_all add: waiting_def due_def pq_elems_def)
  with lone_worker_drains [of ex_env ex_config "[]" q "[ex_env]"] q show ?thesis by fastforce
qed

end
