(* ===== verification/File_Store.thy ===== *)
theory File_Store
  imports Go_Errors Job_Model
begin

text \<open>
  \<open>FileStore\<close> of \<open>store.go\<close>, the audit store of JSON lines, and the \<open>noopStore\<close> of \<open>pool.go\<close>.

  What the operating system answers is an argument of each operation: the error of \<open>MkdirAll\<close>, of the
  opening of a path, of \<open>Sync\<close> and \<open>Close\<close>, and how much of a write arrives with which error.
  The line \<open>encoding/json\<close> makes of a job, or its error, is the argument \<open>enc\<close>, and the path
  \<open>filepath.Join\<close> makes is \<open>join\<close>.  A file is what was appended to it.  All writes go through one
  mutex, so they are one after the other.
\<close>

record store_file =
  sf_path :: string
  sf_data :: string
  sf_synced :: nat
  sf_open :: bool

record FileStore =
  fs_jobs :: store_file
  fs_dlq :: store_file

definition opened :: "string \<Rightarrow> store_file" where
  "opened path = \<lparr>sf_path = path, sf_data = [], sf_synced = 0, sf_open = True\<rparr>"

text \<open>The second component lists the files left open when the call fails.\<close>

definition NewFileStore ::
  "(string \<Rightarrow> string \<Rightarrow> string) \<Rightarrow> (string \<Rightarrow> err option) \<Rightarrow> (string \<Rightarrow> err option) \<Rightarrow> string \<Rightarrow>
   (err + FileStore) \<times> store_file list" where
  "NewFileStore join mkdir openf dir =
     (case mkdir dir of
        Some er \<Rightarrow> (Inl er, [])
      | None \<Rightarrow>
          (case openf (join dir ''jobs.jsonl'') of
             Some er \<Rightarrow> (Inl er, [])
           | None \<Rightarrow>
               let jf = opened (join dir ''jobs.jsonl'')
               in case openf (join dir ''dlq.jsonl'') of
                    Some er \<Rightarrow> let jf = jf\<lparr>sf_open := False\<rparr> in (Inl er, filter sf_open [jf])
                  | None \<Rightarrow> (Inr \<lparr>fs_jobs = jf, fs_dlq = opened (join dir ''dlq.jsonl'')\<rparr>, [])))"

text \<open>What the system does with a write of one line and with the \<open>Sync\<close> after it: how many of the
  bytes arrive, the error of the write, the error of the sync.\<close>

record os_write =
  ow_arrived :: nat
  ow_err :: "err option"
  ow_sync :: "err option"

definition file_write :: "(JobInfo \<Rightarrow> err + string) \<Rightarrow> err option \<Rightarrow> os_write \<Rightarrow> JobInfo \<Rightarrow> store_file \<Rightarrow> err option \<times> store_file" where
  "file_write enc ctxErr w ji f =
     (case ctxErr of
        Some er \<Rightarrow> (Some er, f)
      | None \<Rightarrow>
          (case enc ji of
             Inl er \<Rightarrow> (Some er, f)
           | Inr line \<Rightarrow>
               (case ow_err w of
                  Some er \<Rightarrow> (Some er, f\<lparr>sf_data := sf_data f @ take (ow_arrived w) (line @ [CHR 0x0A])\<rparr>)
                | None \<Rightarrow>
                    let f = f\<lparr>sf_data := sf_data f @ line @ [CHR 0x0A]\<rparr>
                    in case ow_sync w of
                         Some er \<Rightarrow> (Some er, f)
                       | None \<Rightarrow> (None, f\<lparr>sf_synced := length (sf_data f)\<rparr>))))"

definition FileStore_SaveJob :: "(JobInfo \<Rightarrow> err + string) \<Rightarrow> err option \<Rightarrow> os_write \<Rightarrow> JobInfo \<Rightarrow> FileStore \<Rightarrow> err option \<times> FileStore" where
  "FileStore_SaveJob enc ctxErr w ji s =
     (case file_write enc ctxErr w ji (fs_jobs s) of (er, f) \<Rightarrow> (er, s\<lparr>fs_jobs := f\<rparr>))"

definition FileStore_SaveDeadLetter :: "(JobInfo \<Rightarrow> err + string) \<Rightarrow> err option \<Rightarrow> os_write \<Rightarrow> JobInfo \<Rightarrow> FileStore \<Rightarrow> err option \<times> FileStore" where
  "FileStore_SaveDeadLetter enc ctxErr w ji s =
     (case file_write enc ctxErr w ji (fs_dlq s) of (er, f) \<Rightarrow> (er, s\<lparr>fs_dlq := f\<rparr>))"

text \<open>Both files are closed whatever the errors; the first error is returned.\<close>

definition FileStore_Close :: "err option \<Rightarrow> err option \<Rightarrow> FileStore \<Rightarrow> err option \<times> FileStore" where
  "FileStore_Close e1 e2 s =
     (let er = e1;
          er = (if er = None \<and> e2 \<noteq> None then e2 else er)
      in (er, s\<lparr>fs_jobs := (fs_jobs s)\<lparr>sf_open := False\<rparr>, fs_dlq := (fs_dlq s)\<lparr>sf_open := False\<rparr>\<rparr>))"

definition noopStore_SaveJob :: "JobInfo \<Rightarrow> err option" where
  "noopStore_SaveJob ji = None"

definition noopStore_SaveDeadLetter :: "JobInfo \<Rightarrow> err option" where
  "noopStore_SaveDeadLetter ji = None"

definition noopStore_Close :: "err option" where
  "noopStore_Close = None"

subsection \<open>The log of a store\<close>

lemma NewFileStore_closes: "NewFileStore join mkdir openf dir = (Inl er, fs) \<Longrightarrow> fs = []"
  by (auto simp: NewFileStore_def Let_def split: option.splits)

text \<open>Records are only ever appended; a record saved without error is there whole, and durable.\<close>

lemma file_write_appends:
  assumes "file_write enc ctxErr w ji f = (er, f')"
  shows "\<exists>rest. sf_data f' = sf_data f @ rest"
    and "er = None \<Longrightarrow> \<exists>line. enc ji = Inr line \<and> ctxErr = None \<and> sf_data f' = sf_data f @ line @ [CHR 0x0A] \<and>
      sf_synced f' = length (sf_data f')"
  using assms by (auto simp: file_write_def Let_def split: option.splits sum.splits)

text \<open>One call after the other: \<open>False\<close> saves a job, \<open>True\<close> a dead letter.\<close>

fun store_calls :: "(JobInfo \<Rightarrow> err + string) \<Rightarrow> (bool \<times> err option \<times> os_write \<times> JobInfo) list \<Rightarrow> FileStore \<Rightarrow> err option list \<times> FileStore" where
  "store_calls enc [] s = ([], s)"
| "store_calls enc ((dead, ctxErr, w, ji) # cs) s =
     (case (if dead then FileStore_SaveDeadLetter enc ctxErr w ji s else FileStore_SaveJob enc ctxErr w ji s) of
        (er, s) \<Rightarrow> (case store_calls enc cs s of (ers, s) \<Rightarrow> (er # ers, s)))"

definition lines_of :: "(JobInfo \<Rightarrow> err + string) \<Rightarrow> JobInfo list \<Rightarrow> string" where
  "lines_of enc infos = concat (map (\<lambda>i. (case enc i of Inl _ \<Rightarrow> [] | Inr l \<Rightarrow> l @ [CHR 0x0A])) infos)"

lemma store_calls_log:
  "store_calls enc cs s = (ers, s') \<Longrightarrow> set ers \<subseteq> {None} \<Longrightarrow>
   sf_data (fs_jobs s') = sf_data (fs_jobs s) @ lines_of enc [i. (d, c, w, i) \<leftarrow> cs, \<not> d] \<and>
   sf_data (fs_dlq s') = sf_data (fs_dlq s) @ lines_of enc [i. (d, c, w, i) \<leftarrow> cs, d]"
proof (induction enc cs s arbitrary: ers s' rule: store_calls.induct)
  case (2 enc dead ctxErr w ji cs s)
  obtain er s1 where s1: "(if dead then FileStore_SaveDeadLetter enc ctxErr w ji s else FileStore_SaveJob enc ctxErr w ji s) = (er, s1)"
    by fastforce
  obtain ers1 where r: "store_calls enc cs s1 = (ers1, s')" "ers = er # ers1"
    using "2.prems"(1) by (auto simp: s1 split: prod.splits)
  have er: "er = None" "set ers1 \<subseteq> {None}" using "2.prems"(2) r(2) by auto
  have w1: "sf_data (fs_jobs s1) = sf_data (fs_jobs s) @ (if dead then [] else lines_of enc [ji])"
    "sf_data (fs_dlq s1) = sf_data (fs_dlq s) @ (if dead then lines_of enc [ji] else [])"
    using s1 er(1) file_write_appends(2) [of enc ctxErr w ji _ None]
    by (auto simp: FileStore_SaveJob_def FileStore_SaveDeadLetter_def lines_of_def split: if_splits prod.splits) fastforce+
  from "2.IH" [OF s1 [symmetric] r(1) er(2)] w1 show ?case by (auto simp: lines_of_def)
qed (simp add: lines_of_def)

end
