(* ===== verification/Spec2Isabelle.thy ===== *)
theory Spec2Isabelle
  imports Priority_Queue Fifo_Queue Ring_Queue Submit_Properties Idempotency Job_Properties Control_Properties
    Config_File Scheduler Job_Groups Middleware_Jobs Pool_Calls Pool_Observe Http_Surface Worker_Drain File_Store
begin

text \<open>
\<^bold>\<open>fastworker: a verification development.\<close>

The repository is a Go library, a worker pool: jobs are submitted to a \<open>Pool\<close>, wait in one of
several queues, are run by worker goroutines with retries, timeouts, rate limits and concurrency
limits per key, and end as completed, dead-lettered or cancelled.  Around the pool there are futures,
an event bus, schedules, groups, chains and batches, configuration files, an HTTP intake and an admin
server.  This development models the library's Go code (all of \<open>src/*.go\<close> and \<open>src/queue/\<close>) as
executable HOL functions over explicit states and proves what makes each part correct, or shows where
it is not.  Definitions have the names of the code where HOL allows it; a record field \<open>p_x\<close> is the
field \<open>x\<close> of \<open>Pool\<close>, \<open>qj_x\<close> of \<open>queuedJob\<close>, \<open>o_x\<close> of \<open>JobOptions\<close>, and so on.

\<^bold>\<open>1. The parts of the program and the theories that model them.\<close>

  \<^item> \<open>FW_Prelude\<close>: times and durations as integers, \<open>wrap64\<close> for \<open>int64\<close> arithmetic that may
    overflow, lists by index, runs of push and pop requests (\<open>queue_run\<close>).
  \<^item> \<open>queue/priority.go\<close>: \<open>Priority_Heap\<close> (the array heap \<open>pq\<close>: order, sifting, push, pop) and
    \<open>Priority_Queue\<close> (\<open>PriorityQueue\<close>: \<open>Push\<close>, \<open>DropOldestPush\<close>, \<open>TryPop\<close>, \<open>Pop\<close>, \<open>PopTimeout\<close>,
    \<open>Close\<close>).  \<open>queue/fifo.go\<close>: \<open>Fifo_Queue\<close>, the circular buffer.  \<open>queue/ring.go\<close>: \<open>Ring_Queue\<close>, the
    ring with 64-bit sequence numbers.  \<open>Queue_Interfaces\<close> states what a queue promises as locales
    (\<open>job_container\<close>, \<open>fifo_container\<close>, \<open>bounded_fifo\<close>, \<open>prio_container\<close>); the three queues interpret
    them (\<open>pqi\<close>, \<open>fq\<close>, \<open>rq\<close>), and the pool uses the facts of the interpretations.
  \<^item> Library parts: \<open>Go_Errors\<close> (\<open>errors.go\<close>, \<open>retry.go\<close> and the walk of \<open>errors.As\<close>), \<open>Go_Float\<close>
    (\<open>float64\<close>), \<open>Go_Strings\<close> (\<open>strings\<close>, \<open>strconv\<close>, \<open>time.ParseDuration\<close>).
  \<^item> Parts the pool is made of: \<open>Backoff\<close> (\<open>backoff.go\<close>), \<open>Job_Model\<close> (\<open>job.go\<close>, \<open>callback.go\<close>,
    \<open>progress.go\<close>, the defaults and queue policies of \<open>hooks.go\<close> and \<open>usability.go\<close>), \<open>Future\<close>
    (\<open>future.go\<close>), \<open>Lifecycle\<close> (the bus of \<open>lifecycle.go\<close>), \<open>Keyed_Semaphore\<close> and \<open>Rate_Limiter\<close>
    (\<open>rate_limiter.go\<close>), \<open>Config\<close> (\<open>config.go\<close>, the states and options), \<open>File_Store\<close> (\<open>store.go\<close>).
  \<^item> The pool (\<open>pool.go\<close> with \<open>metrics.go\<close>, \<open>hooks.go\<close>, \<open>control.go\<close>, \<open>inspect.go\<close>, \<open>dlq.go\<close>):
    \<open>Pool_State\<close> (the struct \<open>Pool\<close>, its queues and the loops that wait for room), \<open>Pool_Submit\<close>
    (\<open>submit\<close>), \<open>Pool_Execute\<close> (\<open>execute\<close>, \<open>executeBasic\<close>, \<open>deadletter\<close>, what a worker takes),
    \<open>Pool_Control\<close> (\<open>New\<close>, \<open>Start\<close>, \<open>Pause\<close>, \<open>Shutdown\<close>, \<open>Terminate\<close>, cancellation, dead letters,
    reconfiguration), \<open>Worker_Loop\<close> (the whole worker loop with its waits, \<open>autoscale\<close>), \<open>Pool_Calls\<close>
    (the application's calls in \<open>pool.go\<close>, \<open>usability.go\<close>, \<open>typed.go\<close>), \<open>Pool_Observe\<close> (waiting,
    metrics, diagnosis).
  \<^item> Around the pool: \<open>Scheduler\<close> (\<open>cron.go\<close>, the schedules of \<open>scheduler.go\<close>), \<open>Job_Groups\<close>
    (\<open>Group\<close>, \<open>Map\<close>, chains, \<open>WhenAll\<close>), \<open>Middleware_Jobs\<close> (\<open>middleware.go\<close>), \<open>Config_File\<close> (the YAML
    reader of \<open>usability.go\<close>), \<open>Http_Surface\<close> (\<open>admin.go\<close>, \<open>HTTPMiddleware\<close>).

A job travels as follows.  \<open>submit\<close> turns down what a pool that stops must not take, computes the
options, and puts the job into the basic queue (a bare \<open>Job\<close>, when nothing needs a job object), the
fast queue or the priority queue, or into the overflow list when the queue is full.  A worker takes
it (\<open>worker_take\<close>), \<open>execute_begin\<close> cancels it, puts it off or starts it, its \<open>Run\<close> happens, and
\<open>execute_finish\<close> completes it, queues it again or makes it a dead letter.

\<^bold>\<open>2. Conventions.\<close>

  \<^item> Goroutines.  A stretch of code without a wait is one function of the state.  A loop that waits
    takes a list of rounds: what the clock showed and a function for what the others did to the state
    meanwhile.  \<open>None\<close> means that the call still waits after the given rounds, so \<open>Some\<close> says that it
    returned; no other fuel is used.  What a waiting goroutine may assume of the others is
    stated as a condition on those functions: \<open>rely x\<close> (\<open>Pool_Moves\<close>) for one that holds job \<open>x\<close>,
    \<open>steady\<close> and \<open>polite\<close> (\<open>Pool_Preserve_Submit\<close>) for one that holds none; the operations guarantee
    it in turn (\<open>calm\<close>, \<open>Pool_Preserve_Control\<close>).  \<open>execute\<close> is divided by the job's \<open>Run\<close>
    (\<open>execute_begin\<close>, \<open>execute_finish\<close>), \<open>executeBasic\<close> by \<open>basic_begin\<close> and \<open>basic_finish\<close>, \<open>Shutdown\<close>
    by its wait for the workers.  Deferred calls run at the end, in reverse order.  Between two atomic
    accesses of one such stretch the code allows interference that the model does not have; in the
    worker loop and in the test of \<open>WaitIdle\<close>, where it decides what they find, every gap is an argument
    (\<open>w_gap\<close>, the gaps of \<open>idle\<close>).
  \<^item> Pointers to job objects are numbers into \<open>p_heap\<close>; \<open>sync.Pool\<close> is the list of those free for reuse,
    and which one \<open>Get\<close> returns is an argument (\<open>e_pick\<close>).  Futures, token buckets and contexts are
    numbered too.
  \<^item> What comes from outside is an argument: clock readings (\<open>e_now\<close>, by the number of the reading), random
    draws, the outcome of a run, event handlers, backoffs of the application, answers of the file
    system, what \<open>encoding/json\<close> makes of a value, requests and responses of \<open>net/http\<close>.  What goes out -
    events, hooks, callbacks, records of the store - is the list \<open>p_log\<close>.
  \<^item> The fields \<open>p_submitting\<close>, \<open>p_inflight\<close>, \<open>p_running\<close>, \<open>p_basicTaken\<close>, \<open>p_basicRunning\<close>, \<open>p_gone\<close>
    and \<open>p_unlimited\<close> belong to the model: they name the jobs in the hands of goroutines, count what left
    the pool and mark keys that were run without a limit; no operation reads them.
  \<^item> Counters are 64-bit words and wrap; \<open>int\<close> values that the code only compares or counts up by one are
    integers; where an \<open>int64\<close> can leave its range the wrap is written out (\<open>wrap64\<close>).  A \<open>float64\<close> is a
    rational, an infinity or not-a-number, rounded after every operation to 53 bits, to nearest and ties
    to even (\<open>Go_Float\<close>); what the conversion of a float out of range to \<open>int64\<close> gives is an argument.
    Strings are lists of characters, one per byte.
  \<^item> An error is a value of \<open>err\<close>; a panic that is not recovered is \<open>None\<close> or a constructor of its own
    (\<open>ShutPanics\<close>).

\<^bold>\<open>3. What is proved.\<close>

  \<^item> Invariants of reachable pools.  \<open>pool_step\<close> (\<open>Pool_System\<close>) has a rule for each operation of each
    goroutine: the calls of the application, the parts of \<open>execute\<close>, the pops of a worker, scaling,
    control.  \<open>pool_wf\<close> (\<open>Pool_Invariant\<close>): every job is in one place, the queues satisfy their
    invariants, the index points to live jobs.  \<open>balance\<close>: accepted jobs are accounted for in the 64-bit
    counters.  \<open>busy_gap\<close>: the busy counter counts the running jobs.  \<open>attempts_ok\<close>: nobody runs a job
    more often than \<open>MaxAttempts\<close>.  \<open>slots_ok\<close>: the semaphore agrees with the running jobs.  \<open>futures_ok\<close>:
    the future that a job object holds is decided once the job is in no queue and in no hands.  \<open>Pool_Moves\<close>, \<open>Pool_Preserve\<close>, \<open>Pool_Preserve_Submit\<close> and
    \<open>Pool_Preserve_Control\<close> prove that every operation keeps them under interference, \<open>Pool_System\<close> collects
    this for all reachable pools, \<open>Pool_Properties\<close> states it.
  \<^item> Workers.  \<open>Job_Properties\<close>: what a worker takes next, what success leaves, when a job is queued again,
    that a cancelled job is not run.  \<open>Worker_Loop\<close>: a pass of the loop, with everything the others do,
    is a sequence of \<open>pool_step\<close>s, and why a worker leaves.  \<open>Worker_Drain\<close>: a worker alone empties all
    queues and completes every job, in a running pool and in one that stops gracefully.
  \<^item> Calls.  \<open>Submit_Properties\<close>: results and counters of \<open>submit\<close>, blocking under
    \<open>BackpressureDropOldest\<close>, futures of calls turned down early.  \<open>Idempotency\<close>: who gives an idempotency
    key back, and how long a key of a failed call stays.  \<open>Control_Properties\<close>: replay, pausing and what it
    does not hold, shutdown, loss of workers, jobs accepted by a pool without workers.  \<open>Pool_Observe\<close>: what
    \<open>WaitIdle\<close> has seen when it returns.
  \<^item> Queues: heap order, FIFO order across wrap-around, timed pops that return in time and are atomic pops,
    termination of \<open>NewRing\<close>.
  \<^item> The other parts: precedence of options, futures decided once, the semaphore's limit, delivery of
    events, delays and their overflow, round trip of configuration files, cron periods, groups, batches
    and chains over every order of runs, authorisation of the admin server, limits of request bodies.

Properties that the code does not have are stated as theorems about what it does instead (for example
\<open>idempotency_key_sticks\<close>, \<open>drop_oldest_forgets_future\<close>, \<open>shutdown_kills_paused\<close>,
\<open>idle_workers_all_leave\<close>, \<open>WaitIdle_misses_held\<close>, \<open>refused_future_hangs\<close>, \<open>stopped_pool_accepts\<close>, \<open>spilled_runs_early\<close>,
\<open>Delay_overflow\<close>).  Where a property has hypotheses, a theorem named
\<open>..._witness\<close> applies it at a concrete input; the pool used there is \<open>ex_pool\<close> (\<open>Pool_Properties\<close>), a
started pool with queues of two.

\<^bold>\<open>4. Bounds.\<close>

\<open>sane_option\<close> excludes a \<open>GOMAXPROCS\<close> of 2 to the 59 or more, for which \<open>PresetHighThroughput\<close> overflows.  The
ring is specified for the capacities that \<open>make\<close> accepts, an argument of \<open>NewRing\<close> below 2 to the 63; for
requests beyond 2 to the 63 \<open>NewRing\<close> does not return.  The loops of the
code that need no waiting (sifting, backoff, parsing) are total functions.  \<open>work_off\<close> makes as many passes
as it is given environments, one for each queued job.

\<^bold>\<open>5. Not modelled.\<close>

  \<^item> Instruction-level interleaving inside one stretch of code, and so data races on the fields of a job
    object that the code writes without a lock; the ring as used by several goroutines at once (its
    operations run one at a time here, and the pool does not use it).
  \<^item> Time as it passes: sleeps and timers are rounds; nothing is said about durations in reality, fairness
    of the scheduler or starvation.
  \<^item> \<open>net/http\<close> itself (listening, path cleaning, header encoding), the JSON encoder and decoder, \<open>Dump\<close> (a
    JSON rendering), reading a configuration file or the environment, registration of signals, the
    text of stack traces: arguments of the model or left out.
  \<^item> The bodies of hooks, handlers, callbacks and jobs, which are the application's; they are taken to return,
    and what they do to the pool is a step of its own.
  \<^item> The panic of \<open>MustNew\<close>, \<open>MustNewPool\<close> and \<open>MustNewTyped\<close>, which nothing reaches: \<open>New\<close> repairs the
    configuration and returns no error.
  \<^item> \<open>src/examples/\<close>, \<open>src/benchmarks/\<close> and the tests: programs that call the library.
\<close>

end
